(* ===== verification/Prelude.thy ===== *)
theory Prelude
  imports
    "HOL-Library.Finite_Map"
    "HOL-Library.Word"
    "HOL-Library.List_Lexorder"
    "HOL-Library.Char_ord"
    "HOL-Library.Product_Lexorder"
begin

text \<open>
  Shared vocabulary of the development: machine integers at their Rust widths, time as the
  broker sees it, \<open>HashMap\<close> and \<open>HashSet\<close> as finite maps and sets, and the record of what
  the program obtains from its host (clocks, random UUIDs, hash iteration order).

  \<^item> \<open>u32\<close>, \<open>u64\<close> are words, so \<open>+\<close> wraps as \<open>wrapping_add\<close> does; \<open>usize\<close> lengths are \<open>nat\<close>.
  \<^item> a \<open>Duration\<close> is a non-negative number of nanoseconds, an \<open>Instant\<close> a point on an integer
    nanosecond axis whose representable range is part of the host.
  \<^item> a \<open>HashMap\<close> is an \<open>fmap\<close>: it has no iteration order of its own.  Where the code iterates
    over one, the order comes from \<open>hash_iter\<close> of the host, an arbitrary enumeration.
  \<^item> every reading of the host is numbered (the \<open>reads\<close> counter of the broker state), so two
    calls of \<open>Instant::now()\<close> or \<open>Uuid::new_v4()\<close> may return different values.
\<close>

named_theorems keeps_inv
  \<open>operations that keep the invariant of the broker\<close>
named_theorems keeps_fencing
  \<open>operations that keep the order of fencing tokens\<close>

type_synonym u32 = "32 word"
type_synonym u64 = "64 word"
type_synonym duration = int
type_synonym instant = int

section \<open>Arithmetic of the standard library\<close>

definition saturating_add :: "u64 \<Rightarrow> u64 \<Rightarrow> u64" where
  "saturating_add a b = (if a \<le> a + b then a + b else - 1)"

definition from_millis :: "u64 \<Rightarrow> duration" where
  "from_millis ms = uint ms * 1000000"

definition as_millis :: "duration \<Rightarrow> int" where
  "as_millis d = d div 1000000"

lemma saturating_add_ge: "a \<le> saturating_add a b"
  by (simp add: saturating_add_def)

lemma as_millis_from_millis [simp]: "as_millis (from_millis ms) = uint ms"
  by (simp add: as_millis_def from_millis_def)

lemma word_less_succ: "(c :: 'a::len word) < - 1 \<Longrightarrow> c < c + 1"
  using inc_less_eq_triv_imp verit_comp_simplify1(3) by blast

lemma word_one_le: "(1 :: 'a :: len word) \<le> w \<longleftrightarrow> 0 < w"
  by (simp add: word_le_nat_alt word_less_nat_alt Suc_le_eq)

section \<open>Hash maps as finite maps\<close>

definition hm_len :: "('k, 'v) fmap \<Rightarrow> nat" where
  "hm_len m = fcard (fmdom m)"

definition hm_is_empty :: "('k, 'v) fmap \<Rightarrow> bool" where
  "hm_is_empty m \<longleftrightarrow> fmdom m = {||}"

definition hm_contains_key :: "('k, 'v) fmap \<Rightarrow> 'k \<Rightarrow> bool" where
  "hm_contains_key m k \<longleftrightarrow> fmlookup m k \<noteq> None"

lemma hm_is_empty_iff [simp]: "hm_is_empty m \<longleftrightarrow> m = fmempty"
  unfolding hm_is_empty_def by (metis fmdom_empty fmrestrict_fset_dom fmrestrict_fset_null)

lemma hm_contains_key_iff [simp]: "hm_contains_key m k \<longleftrightarrow> k |\<in>| fmdom m"
  by (simp add: hm_contains_key_def fmlookup_dom_iff)

lemma hm_len_empty [simp]: "hm_len fmempty = 0"
  by (simp add: hm_len_def)

lemma hm_len_upd: "hm_len (fmupd k v m) = (if k |\<in>| fmdom m then hm_len m else Suc (hm_len m))"
  by (simp add: hm_len_def finsert_absorb fcard_finsert_if)

lemma hm_len_upd_le: "hm_len (fmupd k v m) \<le> Suc (hm_len m)"
  by (simp add: hm_len_upd)

lemma hm_len_drop_le: "hm_len (fmdrop k m) \<le> hm_len m"
  unfolding hm_len_def by (rule fcard_mono) auto

lemma hm_len_filter_le: "hm_len (fmfilter P m) \<le> hm_len m"
  unfolding hm_len_def by (rule fcard_mono) auto

lemma hm_len_eq_0 [simp]: "hm_len m = 0 \<longleftrightarrow> m = fmempty"
  unfolding hm_is_empty_iff [symmetric] by (simp only: hm_len_def hm_is_empty_def fcard_0_eq)

lemma fold_fmdrop_fmempty [simp]: "fold fmdrop ks fmempty = fmempty"
  by (induction ks) simp_all

lemma lookup_fold_fmdrop: "fmlookup (fold fmdrop ks m) k = (if k \<in> set ks then None else fmlookup m k)"
  by (induction ks arbitrary: m) auto

lemma fmdrop_absent: "fmlookup m k = None \<Longrightarrow> fmdrop k m = m"
  by (rule fmap_ext) auto

lemma fmdrop_twice [simp]: "fmdrop k (fmdrop k m) = fmdrop k m"
  by (rule fmap_ext) auto

section \<open>Lists\<close>

text \<open>\<open>iter().position(\<dots>)\<close>\<close>

fun position :: "('a \<Rightarrow> bool) \<Rightarrow> 'a list \<Rightarrow> nat option" where
  "position P [] = None"
| "position P (x # xs) = (if P x then Some 0 else map_option Suc (position P xs))"

lemma position_less: "position P xs = Some i \<Longrightarrow> i < length xs"
  by (induction xs arbitrary: i) (auto split: if_splits)

lemma distinct_remdups_adj: "sorted xs \<Longrightarrow> distinct (remdups_adj xs)"
  by (induction xs rule: remdups_adj.induct) (auto simp: order_antisym)

section \<open>Folds of state updates\<close>

text \<open>A loop \<open>for x in xs { \<dots> }\<close> over the state is \<open>fold\<close>; invariants of the body carry over.\<close>

lemma fold_invariant_set:
  assumes "P s" and "\<And>x s. x \<in> set xs \<Longrightarrow> P s \<Longrightarrow> P (f x s)"
  shows "P (fold f xs s)"
  using assms by (induction xs arbitrary: s) auto

lemma fold_frame:
  assumes "\<And>x s. g (f x s) = g s"
  shows "g (fold f xs s) = g s"
  using assms by (induction xs arbitrary: s) auto

section \<open>The host\<close>

record host =
  new_v4 :: "nat \<Rightarrow> string"
  instant_now :: "nat \<Rightarrow> instant"
  system_ns :: "nat \<Rightarrow> duration option"
  instant_min :: instant
  instant_max :: instant
  hash_iter :: "nat \<Rightarrow> string fset \<Rightarrow> string list"
  hash_iter_ids :: "nat \<Rightarrow> u64 fset \<Rightarrow> u64 list"
  channel_open :: "nat \<Rightarrow> bool"

text \<open>
  The laws of the host the proofs rely on: iterating over a hash set visits every element
  once, in some order.
\<close>

locale hash_host =
  fixes E :: host
  assumes set_hash_iter: "set (hash_iter E n A) = fset A"
    and distinct_hash_iter: "distinct (hash_iter E n A)"
    and set_hash_iter_ids: "set (hash_iter_ids E n B) = fset B"
    and distinct_hash_iter_ids: "distinct (hash_iter_ids E n B)"

text \<open>
  A host to run examples on: time stands still, hash iteration is in ascending order, the
  \<open>n\<close>-th UUID is the letter \<open>u\<close> followed by \<open>n\<close> strokes.
\<close>

definition demo_host :: host where
  "demo_host =
     \<lparr>new_v4 = (\<lambda>n. CHR ''u'' # replicate n (CHR ''|'')),
      instant_now = (\<lambda>_. 1000),
      system_ns = (\<lambda>_. Some 5000000),
      instant_min = 0,
      instant_max = 2 ^ 80,
      hash_iter = (\<lambda>_. sorted_list_of_fset),
      hash_iter_ids = (\<lambda>_. sorted_list_of_fset),
      channel_open = (\<lambda>_. True)\<rparr>"

lemma demo_host_iter [simp]:
  "hash_iter demo_host n = sorted_list_of_fset"
  "hash_iter_ids demo_host n = sorted_list_of_fset"
  by (simp_all add: demo_host_def)

lemma distinct_sorted_list_of_fset [simp]: "distinct (sorted_list_of_fset A)"
  by (simp add: sorted_list_of_fset.rep_eq)

interpretation demo: hash_host demo_host
  by (rule hash_host.intro) simp_all

end
