(* ===== verification/Protocol.thy ===== *)
theory Protocol
  imports Prelude
begin

text \<open>
  The wire protocol of \<open>src/protocol.rs\<close>: the \<open>Request\<close> and \<open>Response\<close> enums with the
  fields in the order of the source (\<open>Req\<dots>\<close> and \<open>Resp\<dots>\<close> keep the variants that occur in
  both enums apart), and the correlation UUID of a response.  The JSON rendering by
  \<open>serde\<close> is not modelled.
\<close>

definition PROTOCOL_VERSION :: string where
  "PROTOCOL_VERSION = ''0.1.0''"

definition MAX_COMPOSITE_KEYS :: nat where
  "MAX_COMPOSITE_KEYS = 5"

definition DEFAULT_MAX_CONCURRENCY_CAP :: u32 where
  "DEFAULT_MAX_CONCURRENCY_CAP = 1000"

text \<open>Fields of a \<open>Lock\<close> request.\<close>

record lock_fields =
  lk_uuid :: string
  lk_key :: "string option"
  lk_keys :: "string list option"
  lk_pid :: "int option"
  lk_ttl :: "u64 option"
  lk_max :: "u32 option"
  lk_force :: bool
  lk_retry_count :: u32
  lk_keep_locks_after_death :: bool
  lk_wait :: "bool option"

text \<open>Fields of an \<open>Unlock\<close> request.\<close>

record unlock_fields =
  ul_uuid :: string
  ul_key :: "string option"
  ul_keys :: "string list option"
  ul_lock_uuid :: "string option"
  ul_force :: bool

datatype request =
    ReqVersion string string
  | ReqAuth string string
  | ReqLock lock_fields
  | ReqUnlock unlock_fields
  | ReqRegisterRead string string
  | ReqRegisterWrite string string
  | ReqEndRead string string
  | ReqEndWrite string string
  | ReqLockInfo string string
  | ReqLs string
  | ReqHeartbeat string

text \<open>Fields of a single-key \<open>Lock\<close> response.\<close>

record lock_result =
  lr_uuid :: string
  lr_key :: string
  lr_acquired :: bool
  lr_lock_request_count :: nat
  lr_lock_uuid :: "string option"
  lr_fencing_token :: "u64 option"
  lr_readers_count :: "u32 option"
  lr_error :: "string option"

text \<open>Fields of a \<open>CompositeLock\<close> response.\<close>

record composite_result =
  cr_uuid :: string
  cr_keys :: "string list"
  cr_acquired :: bool
  cr_lock_uuid :: "string option"
  cr_fencing_tokens :: "(string, u64) fmap option"
  cr_error :: "string option"

text \<open>Fields of an \<open>Unlock\<close> response.\<close>

record unlock_result =
  ur_uuid :: string
  ur_keys :: "string list"
  ur_unlocked :: bool
  ur_lock_request_count :: nat
  ur_error :: "string option"

text \<open>Fields of a \<open>RegisterReadResult\<close> and of a \<open>RegisterWriteResult\<close>, which coincide.\<close>

record rw_result =
  rw_uuid :: string
  rw_key :: string
  rw_readers_count :: u32
  rw_writer_flag :: bool
  rw_granted :: bool
  rw_lock_uuid :: "string option"
  rw_fencing_token :: "u64 option"

text \<open>Fields of a \<open>LockInfo\<close> response.\<close>

record lock_info_result =
  li_uuid :: string
  li_key :: string
  li_is_locked :: bool
  li_lockholder_uuids :: "string list"
  li_lock_request_count :: nat
  li_readers_count :: u32
  li_writer_flag :: bool

datatype response =
    RespVersion string string bool "string option"
  | RespAuth string bool "string option"
  | RespLock lock_result
  | RespCompositeLock composite_result
  | RespUnlock unlock_result
  | RespRegisterRead rw_result
  | RespRegisterWrite rw_result
  | RespEndRead string string u32
  | RespEndWrite string string u32 bool
  | RespLockInfo lock_info_result
  | RespLs string "string list"
  | RespReelection string string
  | RespError string string
  | RespOk string

fun correlation_uuid :: "response \<Rightarrow> string" where
  "correlation_uuid (RespVersion uuid _ _ _) = uuid"
| "correlation_uuid (RespAuth uuid _ _) = uuid"
| "correlation_uuid (RespLock r) = lr_uuid r"
| "correlation_uuid (RespCompositeLock r) = cr_uuid r"
| "correlation_uuid (RespUnlock r) = ur_uuid r"
| "correlation_uuid (RespRegisterRead r) = rw_uuid r"
| "correlation_uuid (RespRegisterWrite r) = rw_uuid r"
| "correlation_uuid (RespEndRead uuid _ _) = uuid"
| "correlation_uuid (RespEndWrite uuid _ _ _) = uuid"
| "correlation_uuid (RespLockInfo r) = li_uuid r"
| "correlation_uuid (RespLs uuid _) = uuid"
| "correlation_uuid (RespReelection uuid _) = uuid"
| "correlation_uuid (RespError uuid _) = uuid"
| "correlation_uuid (RespOk uuid) = uuid"

text \<open>The correlation id a request carries.\<close>

fun request_uuid_of :: "request \<Rightarrow> string" where
  "request_uuid_of (ReqVersion uuid _) = uuid"
| "request_uuid_of (ReqAuth uuid _) = uuid"
| "request_uuid_of (ReqLock r) = lk_uuid r"
| "request_uuid_of (ReqUnlock r) = ul_uuid r"
| "request_uuid_of (ReqRegisterRead uuid _) = uuid"
| "request_uuid_of (ReqRegisterWrite uuid _) = uuid"
| "request_uuid_of (ReqEndRead uuid _) = uuid"
| "request_uuid_of (ReqEndWrite uuid _) = uuid"
| "request_uuid_of (ReqLockInfo uuid _) = uuid"
| "request_uuid_of (ReqLs uuid) = uuid"
| "request_uuid_of (ReqHeartbeat uuid) = uuid"

end
