(* ===== verification/Queue.thy ===== *)
theory Queue
  imports Prelude
begin

text \<open>
  The per-key waiter queue of \<open>src/queue.rs\<close>: an adapter \<open>LinkedQueue\<close> over the
  \<open>linked-queue\<close> crate.  The crate is not part of the repository, so its operations are a
  parameter, the record \<open>inner_queue\<close>, and what the adapter documents about them is the
  locale \<open>linked_queue_crate\<close>: everything is expressed through \<open>iter\<close>, the head-to-tail
  contents.  The locale is interpreted on the \<open>VecDeque\<close> model that the adapter's own oracle
  test compares the crate with; \<open>fifo_queue\<close> is the contract the adapter offers to the
  broker, obtained from the crate's contract once and for all.
\<close>

section \<open>The crate's operations as a parameter\<close>

text \<open>An operation on \<open>&mut self\<close> returns its result and the queue it leaves behind.\<close>

record ('q, 'k, 'v) inner_queue =
  inner_new :: 'q
  inner_len :: "'q \<Rightarrow> nat"
  inner_is_empty :: "'q \<Rightarrow> bool"
  inner_contains :: "'q \<Rightarrow> 'k \<Rightarrow> bool"
  inner_get :: "'q \<Rightarrow> 'k \<Rightarrow> 'v option"
  inner_try_push_back :: "'q \<Rightarrow> 'k \<Rightarrow> 'v \<Rightarrow> bool \<times> 'q"
  inner_try_push_front :: "'q \<Rightarrow> 'k \<Rightarrow> 'v \<Rightarrow> bool \<times> 'q"
  inner_pop_front :: "'q \<Rightarrow> ('k \<times> 'v) option \<times> 'q"
  inner_front :: "'q \<Rightarrow> ('k \<times> 'v) option"
  inner_remove :: "'q \<Rightarrow> 'k \<Rightarrow> 'v option \<times> 'q"
  inner_iter :: "'q \<Rightarrow> ('k \<times> 'v) list"

section \<open>The adapter\<close>

datatype 'q linked_queue = LinkedQueue (inner: 'q)

definition lq_new :: "('q, 'k, 'v) inner_queue \<Rightarrow> 'q linked_queue" where
  "lq_new Q = LinkedQueue (inner_new Q)"

definition lq_len :: "('q, 'k, 'v) inner_queue \<Rightarrow> 'q linked_queue \<Rightarrow> nat" where
  "lq_len Q q = inner_len Q (inner q)"

definition lq_is_empty :: "('q, 'k, 'v) inner_queue \<Rightarrow> 'q linked_queue \<Rightarrow> bool" where
  "lq_is_empty Q q = inner_is_empty Q (inner q)"

definition lq_contains :: "('q, 'k, 'v) inner_queue \<Rightarrow> 'q linked_queue \<Rightarrow> 'k \<Rightarrow> bool" where
  "lq_contains Q q k = inner_contains Q (inner q) k"

definition lq_get :: "('q, 'k, 'v) inner_queue \<Rightarrow> 'q linked_queue \<Rightarrow> 'k \<Rightarrow> 'v option" where
  "lq_get Q q k = inner_get Q (inner q) k"

definition lq_push_back ::
  "('q, 'k, 'v) inner_queue \<Rightarrow> 'q linked_queue \<Rightarrow> 'k \<Rightarrow> 'v \<Rightarrow> bool \<times> 'q linked_queue" where
  "lq_push_back Q q k v =
     (let (ok, i) = inner_try_push_back Q (inner q) k v in (ok, LinkedQueue i))"

definition lq_push_front ::
  "('q, 'k, 'v) inner_queue \<Rightarrow> 'q linked_queue \<Rightarrow> 'k \<Rightarrow> 'v \<Rightarrow> bool \<times> 'q linked_queue" where
  "lq_push_front Q q k v =
     (let (ok, i) = inner_try_push_front Q (inner q) k v in (ok, LinkedQueue i))"

definition lq_pop_front ::
  "('q, 'k, 'v) inner_queue \<Rightarrow> 'q linked_queue \<Rightarrow> ('k \<times> 'v) option \<times> 'q linked_queue" where
  "lq_pop_front Q q = (let (x, i) = inner_pop_front Q (inner q) in (x, LinkedQueue i))"

definition lq_front :: "('q, 'k, 'v) inner_queue \<Rightarrow> 'q linked_queue \<Rightarrow> ('k \<times> 'v) option" where
  "lq_front Q q = inner_front Q (inner q)"

definition lq_remove ::
  "('q, 'k, 'v) inner_queue \<Rightarrow> 'q linked_queue \<Rightarrow> 'k \<Rightarrow> 'v option \<times> 'q linked_queue" where
  "lq_remove Q q k = (let (v, i) = inner_remove Q (inner q) k in (v, LinkedQueue i))"

definition lq_iter :: "('q, 'k, 'v) inner_queue \<Rightarrow> 'q linked_queue \<Rightarrow> ('k \<times> 'v) list" where
  "lq_iter Q q = inner_iter Q (inner q)"

section \<open>The contracts\<close>

text \<open>Removing the first entry for a key from the head-to-tail contents.\<close>

fun drop_key :: "'k \<Rightarrow> ('k \<times> 'v) list \<Rightarrow> ('k \<times> 'v) list" where
  "drop_key k [] = []"
| "drop_key k (x # xs) = (if fst x = k then xs else x # drop_key k xs)"

lemma set_drop_key: "set (drop_key k xs) \<subseteq> set xs"
  by (induction xs) auto

lemma drop_key_filter:
  "distinct (map fst xs) \<Longrightarrow> drop_key k xs = filter (\<lambda>x. fst x \<noteq> k) xs"
  by (induction xs) (force intro!: filter_True [symmetric])+

lemma distinct_drop_key: "distinct (map fst xs) \<Longrightarrow> distinct (map fst (drop_key k xs))"
  by (simp add: drop_key_filter distinct_map_filter)

lemma drop_key_notin: "k \<notin> fst ` set xs \<Longrightarrow> drop_key k xs = xs"
  by (induction xs) auto

text \<open>A keyed FIFO queue, seen through its head-to-tail contents.\<close>

locale fifo_queue =
  fixes new :: 'q
    and len :: "'q \<Rightarrow> nat"
    and is_empty :: "'q \<Rightarrow> bool"
    and contains :: "'q \<Rightarrow> 'k \<Rightarrow> bool"
    and get :: "'q \<Rightarrow> 'k \<Rightarrow> 'v option"
    and push_back :: "'q \<Rightarrow> 'k \<Rightarrow> 'v \<Rightarrow> bool \<times> 'q"
    and push_front :: "'q \<Rightarrow> 'k \<Rightarrow> 'v \<Rightarrow> bool \<times> 'q"
    and pop_front :: "'q \<Rightarrow> ('k \<times> 'v) option \<times> 'q"
    and front :: "'q \<Rightarrow> ('k \<times> 'v) option"
    and remove :: "'q \<Rightarrow> 'k \<Rightarrow> 'v option \<times> 'q"
    and iter :: "'q \<Rightarrow> ('k \<times> 'v) list"
  assumes iter_new: "iter new = []"
    and len_iter: "len q = length (iter q)"
    and is_empty_iter: "is_empty q \<longleftrightarrow> iter q = []"
    and contains_iter: "contains q k \<longleftrightarrow> k \<in> fst ` set (iter q)"
    and get_iter: "get q k = map_of (iter q) k"
    and push_back_ok: "fst (push_back q k v) \<longleftrightarrow> k \<notin> fst ` set (iter q)"
    and iter_push_back:
      "iter (snd (push_back q k v)) =
         (if k \<in> fst ` set (iter q) then iter q else iter q @ [(k, v)])"
    and push_front_ok: "fst (push_front q k v) \<longleftrightarrow> k \<notin> fst ` set (iter q)"
    and iter_push_front:
      "iter (snd (push_front q k v)) =
         (if k \<in> fst ` set (iter q) then iter q else (k, v) # iter q)"
    and pop_front_value: "fst (pop_front q) = (case iter q of [] \<Rightarrow> None | x # _ \<Rightarrow> Some x)"
    and iter_pop_front: "iter (snd (pop_front q)) = tl (iter q)"
    and front_iter: "front q = (case iter q of [] \<Rightarrow> None | x # _ \<Rightarrow> Some x)"
    and remove_value: "fst (remove q k) = map_of (iter q) k"
    and iter_remove: "iter (snd (remove q k)) = drop_key k (iter q)"
begin

text \<open>Keys stay unique, whatever the broker does to the queue.\<close>

lemma distinct_push_back:
  "distinct (map fst (iter q)) \<Longrightarrow> distinct (map fst (iter (snd (push_back q k v))))"
  by (auto simp: iter_push_back)

lemma distinct_push_front:
  "distinct (map fst (iter q)) \<Longrightarrow> distinct (map fst (iter (snd (push_front q k v))))"
  by (auto simp: iter_push_front)

lemma distinct_pop_front:
  "distinct (map fst (iter q)) \<Longrightarrow> distinct (map fst (iter (snd (pop_front q))))"
  by (simp add: iter_pop_front map_tl distinct_tl)

lemma distinct_remove:
  "distinct (map fst (iter q)) \<Longrightarrow> distinct (map fst (iter (snd (remove q k))))"
  by (simp add: iter_remove distinct_drop_key)

end

locale linked_queue_crate =
  fixes Q :: "('q, 'k, 'v) inner_queue"
  assumes crate:
    "fifo_queue (inner_new Q) (inner_len Q) (inner_is_empty Q) (inner_contains Q) (inner_get Q)
       (inner_try_push_back Q) (inner_try_push_front Q) (inner_pop_front Q) (inner_front Q)
       (inner_remove Q) (inner_iter Q)"

text \<open>The adapter offers the broker the contract the crate gives the adapter.\<close>

sublocale linked_queue_crate \<subseteq> lq: fifo_queue "lq_new Q" "lq_len Q" "lq_is_empty Q"
  "lq_contains Q" "lq_get Q" "lq_push_back Q" "lq_push_front Q" "lq_pop_front Q" "lq_front Q"
  "lq_remove Q" "lq_iter Q"
  by (rule fifo_queue.intro)
    (simp_all add: lq_new_def lq_len_def lq_is_empty_def lq_contains_def lq_get_def
      lq_push_back_def lq_push_front_def lq_pop_front_def lq_front_def lq_remove_def lq_iter_def
      split_beta fifo_queue.iter_new [OF crate] fifo_queue.len_iter [OF crate]
      fifo_queue.is_empty_iter [OF crate] fifo_queue.contains_iter [OF crate]
      fifo_queue.get_iter [OF crate] fifo_queue.push_back_ok [OF crate]
      fifo_queue.iter_push_back [OF crate] fifo_queue.push_front_ok [OF crate]
      fifo_queue.iter_push_front [OF crate] fifo_queue.pop_front_value [OF crate]
      fifo_queue.iter_pop_front [OF crate] fifo_queue.front_iter [OF crate]
      fifo_queue.remove_value [OF crate] fifo_queue.iter_remove [OF crate])

section \<open>The VecDeque model of the oracle test\<close>

text \<open>
  \<open>oracle_smoke\<close> drives the queue beside a \<open>VecDeque<(k, v)>\<close>: a push is skipped when some
  entry has the key, a removal takes out the entry at the first matching position.
\<close>

definition vecdeque :: "(('k \<times> 'v) list, 'k, 'v) inner_queue" where
  "vecdeque =
     \<lparr>inner_new = [],
      inner_len = length,
      inner_is_empty = (\<lambda>q. q = []),
      inner_contains = (\<lambda>q k. list_ex (\<lambda>x. fst x = k) q),
      inner_get = map_of,
      inner_try_push_back =
        (\<lambda>q k v. if \<not> list_ex (\<lambda>x. fst x = k) q then (True, q @ [(k, v)]) else (False, q)),
      inner_try_push_front =
        (\<lambda>q k v. if \<not> list_ex (\<lambda>x. fst x = k) q then (True, (k, v) # q) else (False, q)),
      inner_pop_front = (\<lambda>q. case q of [] \<Rightarrow> (None, []) | x # xs \<Rightarrow> (Some x, xs)),
      inner_front = (\<lambda>q. case q of [] \<Rightarrow> None | x # _ \<Rightarrow> Some x),
      inner_remove = (\<lambda>q k. (map_of q k, drop_key k q)),
      inner_iter = (\<lambda>q. q)\<rparr>"

interpretation vecdeque: linked_queue_crate "vecdeque :: (('k \<times> 'v) list, 'k, 'v) inner_queue"
  by (intro linked_queue_crate.intro fifo_queue.intro)
    (auto simp: vecdeque_def list_ex_iff image_iff split: list.split)

end
