(* ===== verification/Broker_State.thy ===== *)
theory Broker_State
  imports Protocol Queue
begin

text \<open>
  The data of \<open>src/broker.rs\<close> and the small operations every handler is built from: the
  per-key \<open>LockState\<close>, the \<open>BrokerState\<close> behind the broker's mutex, the fencing-token
  counters, the idle marker, the concurrency cap, the TTL deadline index, and the client
  bookkeeping.  Every handler holds the mutex for its whole run, so an operation is a
  function from state to state.

  Four fields of the model's \<open>broker_state\<close> have no counterpart in the Rust struct: \<open>reads\<close>
  numbers the readings of the host; \<open>observed\<close> is the history of responses handed to \<open>send\<close>
  (what a response observer sees); \<open>outbox\<close> is the part of it handed to the channel of a
  registered client; \<open>issued\<close> is the history of (key, fencing token) pairs in the order in
  which tokens were taken.  No operation branches on the last three.
\<close>

section \<open>Data\<close>

type_synonym client_id = u64

definition SNAPSHOT_DETACHED_CLIENT :: client_id where
  "SNAPSHOT_DETACHED_CLIENT = 0"

record broker_config =
  default_ttl :: duration
  max_lock_holders :: u32
  ttl_sweep_interval :: duration
  max_concurrency_cap :: u32
  idle_key_grace :: duration

definition broker_config_default :: broker_config where
  "broker_config_default =
     \<lparr>default_ttl = from_millis 4000,
      max_lock_holders = 1,
      ttl_sweep_interval = from_millis 10,
      max_concurrency_cap = DEFAULT_MAX_CONCURRENCY_CAP,
      idle_key_grace = from_millis 60000\<rparr>"

datatype rw_hold_kind = HoldExclusive | HoldRead | HoldWrite

record keys_of_lock =
  kl_keys :: "string list"
  kl_rw_kind :: rw_hold_kind

record client_handle =
  sender :: nat
  held_lock_uuids :: "(string, keys_of_lock) fmap"
  pending_request_uuids :: "(string \<times> string) list"

record exclusive_holder =
  eh_client :: client_id
  eh_pid :: "int option"
  eh_fencing_token :: u64
  eh_keep_locks_after_death :: bool
  eh_composite_member :: bool

record rw_holder =
  rh_client :: client_id
  rh_fencing_token :: u64
  rh_lock_uuid :: string

datatype pending_kind =
    PendExclusive
  | PendReader
  | PendWriter
  | PendComposite (all_keys: "string list") (remaining_keys: "string list")
      (granted_keys: "string list") (granted_tokens: "(string, u64) fmap")
      (composite_lock_uuid: string)

record pending_request =
  pr_request_uuid :: string
  pr_client :: client_id
  pr_pid :: "int option"
  pr_ttl :: "duration option"
  pr_grant_lock_uuid :: "string option"
  pr_grant_fencing_seed :: "u64 option"
  pr_keep_locks_after_death :: bool
  pr_kind :: pending_kind

record grant_overrides =
  go_lock_uuid :: "string option"
  go_fencing_seed :: "u64 option"

record 'q lock_state =
  exclusive_holders :: "(string, exclusive_holder) fmap"
  ls_max :: u32
  readers :: "(string, rw_holder) fmap"
  writer :: "rw_holder option"
  queue :: "'q linked_queue"
  fencing_counter :: u64
  timestamp_emptied :: "instant option"

record deadline_entry =
  de_lock_uuid :: string
  de_keys :: "string list"
  de_kind :: rw_hold_kind
  de_client :: client_id

record 'q broker_state =
  locks :: "(string, 'q lock_state) fmap"
  clients :: "(client_id, client_handle) fmap"
  next_client_id :: client_id
  config :: broker_config
  deadlines :: "(instant \<times> u64, deadline_entry) fmap"
  deadline_seq :: u64
  ttl_evictions_total :: u64
  started_at :: instant
  concurrency_cap_clamps_total :: u64
  fencing_watermark :: u64
  idle_keys_pruned_total :: u64
  reads :: nat
  observed :: "response list"
  outbox :: "(client_id \<times> response) list"
  issued :: "(string \<times> u64) list"

type_synonym 'q pending_queue = "('q, string, pending_request) inner_queue"

section \<open>Readings of the host\<close>

definition bump :: "'q broker_state \<Rightarrow> 'q broker_state" where
  "bump s = s\<lparr>reads := Suc (reads s)\<rparr>"

definition wall_ms :: "host \<Rightarrow> nat \<Rightarrow> u64" where
  "wall_ms E n = (case system_ns E n of Some ns \<Rightarrow> of_int (as_millis ns) | None \<Rightarrow> 0)"

definition checked_add_instant :: "host \<Rightarrow> instant \<Rightarrow> duration \<Rightarrow> instant option" where
  "checked_add_instant E t d =
     (if t + d \<le> instant_max E then Some (t + d) else None)"

definition checked_sub_instant :: "host \<Rightarrow> instant \<Rightarrow> duration \<Rightarrow> instant option" where
  "checked_sub_instant E t d =
     (if instant_min E \<le> t - d then Some (t - d) else None)"

text \<open>\<open>overrides.clone().unwrap_or_else(|| Uuid::new_v4().to_string())\<close>\<close>

definition uuid_or_new ::
  "host \<Rightarrow> 'q broker_state \<Rightarrow> string option \<Rightarrow> string \<times> 'q broker_state" where
  "uuid_or_new E s forced =
     (case forced of Some u \<Rightarrow> (u, s) | None \<Rightarrow> (new_v4 E (reads s), bump s))"

section \<open>One key: \<open>LockState\<close>\<close>

definition lock_state_new :: "'q pending_queue \<Rightarrow> host \<Rightarrow> nat \<Rightarrow> u32 \<Rightarrow> 'q lock_state" where
  "lock_state_new Q E n mx =
     \<lparr>exclusive_holders = fmempty,
      ls_max = max mx 1,
      readers = fmempty,
      writer = None,
      queue = lq_new Q,
      fencing_counter = wall_ms E n,
      timestamp_emptied = None\<rparr>"

definition is_idle :: "'q pending_queue \<Rightarrow> 'q lock_state \<Rightarrow> bool" where
  "is_idle Q l \<longleftrightarrow> hm_is_empty (exclusive_holders l) \<and> hm_is_empty (readers l) \<and>
     writer l = None \<and> lq_is_empty Q (queue l)"

definition next_fencing_token :: "'q lock_state \<Rightarrow> u64 \<times> 'q lock_state" where
  "next_fencing_token l =
     (let c = max (fencing_counter l + 1) 1 in (c, l\<lparr>fencing_counter := c\<rparr>))"

definition next_or_forced_fencing_token ::
  "'q lock_state \<Rightarrow> u64 option \<Rightarrow> u64 \<times> 'q lock_state" where
  "next_or_forced_fencing_token l forced =
     (case forced of
        Some token \<Rightarrow> (token, l\<lparr>fencing_counter := max (fencing_counter l) token\<rparr>)
      | None \<Rightarrow> next_fencing_token l)"

definition grant_token :: "grant_overrides \<Rightarrow> u64 \<Rightarrow> u64 option" where
  "grant_token go off = map_option (\<lambda>seed. saturating_add seed off) (go_fencing_seed go)"

section \<open>The broker: \<open>BrokerState\<close>\<close>

definition broker_state_new :: "host \<Rightarrow> broker_config \<Rightarrow> 'q broker_state" where
  "broker_state_new E cfg =
     \<lparr>locks = fmempty, clients = fmempty, next_client_id = 1, config = cfg,
      deadlines = fmempty, deadline_seq = 0, ttl_evictions_total = 0,
      started_at = instant_now E 0, concurrency_cap_clamps_total = 0,
      fencing_watermark = 0, idle_keys_pruned_total = 0,
      reads = 1, observed = [], outbox = [], issued = []\<rparr>"

definition put_lock :: "'q broker_state \<Rightarrow> string \<Rightarrow> 'q lock_state \<Rightarrow> 'q broker_state" where
  "put_lock s key l = s\<lparr>locks := fmupd key l (locks s)\<rparr>"

definition note_issued :: "'q broker_state \<Rightarrow> string \<Rightarrow> u64 \<Rightarrow> 'q broker_state" where
  "note_issued s key token = s\<lparr>issued := issued s @ [(key, token)]\<rparr>"

definition observe_fencing_token :: "'q broker_state \<Rightarrow> u64 \<Rightarrow> 'q broker_state" where
  "observe_fencing_token s token =
     (if fencing_watermark s < token then s\<lparr>fencing_watermark := token\<rparr> else s)"

definition maybe_mark_idle ::
  "'q pending_queue \<Rightarrow> host \<Rightarrow> 'q broker_state \<Rightarrow> string \<Rightarrow> 'q broker_state" where
  "maybe_mark_idle Q E s key =
     (case fmlookup (locks s) key of
        None \<Rightarrow> s
      | Some l \<Rightarrow>
          if is_idle Q l then
            (if timestamp_emptied l = None
             then bump (put_lock s key (l\<lparr>timestamp_emptied := Some (instant_now E (reads s))\<rparr>))
             else s)
          else if timestamp_emptied l \<noteq> None
          then put_lock s key (l\<lparr>timestamp_emptied := None\<rparr>)
          else s)"

definition concurrency_cap :: "broker_config \<Rightarrow> u32" where
  "concurrency_cap cfg = max (max_concurrency_cap cfg) 1"

definition resolve_max ::
  "'q broker_state \<Rightarrow> u32 \<Rightarrow> u32 option \<Rightarrow> u32 \<times> 'q broker_state" where
  "resolve_max s current_lock_max requested =
     (let cap = concurrency_cap (config s) in
      case requested of
        None \<Rightarrow> (max (min current_lock_max cap) 1, s)
      | Some m \<Rightarrow>
          if m = 0 then (max (min current_lock_max cap) 1, s)
          else if cap < m
          then (cap, s\<lparr>concurrency_cap_clamps_total := concurrency_cap_clamps_total s + 1\<rparr>)
          else (m, s))"

definition schedule_deadline ::
  "host \<Rightarrow> 'q broker_state \<Rightarrow> duration option \<Rightarrow> string \<Rightarrow> string list \<Rightarrow> rw_hold_kind \<Rightarrow>
   client_id \<Rightarrow> 'q broker_state" where
  "schedule_deadline E s ttl lock_uuid keys kind client =
     (case ttl of
        None \<Rightarrow> s
      | Some d \<Rightarrow>
          if d = 0 then s
          else (let now = instant_now E (reads s); s = bump s in
            case checked_add_instant E now d of
              None \<Rightarrow> s
            | Some deadline \<Rightarrow>
                (let sq = deadline_seq s + 1 in
                 s\<lparr>deadline_seq := sq,
                   deadlines := fmupd (deadline, sq)
                     \<lparr>de_lock_uuid = lock_uuid, de_keys = keys, de_kind = kind,
                      de_client = client\<rparr> (deadlines s)\<rparr>)))"

definition lock_or_default ::
  "'q pending_queue \<Rightarrow> host \<Rightarrow> 'q broker_state \<Rightarrow> string \<Rightarrow> 'q lock_state \<times> 'q broker_state"
where
  "lock_or_default Q E s key =
     (let cap = concurrency_cap (config s);
          mx = max (min (max_lock_holders (config s)) cap) 1;
          seed_floor = fencing_watermark s
      in case fmlookup (locks s) key of
           Some l \<Rightarrow> (l, s)
         | None \<Rightarrow>
             (let l = lock_state_new Q E (reads s) mx;
                  l = (if fencing_counter l < seed_floor
                       then l\<lparr>fencing_counter := seed_floor\<rparr> else l)
              in (l, bump (put_lock s key l))))"

section \<open>Client bookkeeping and responses\<close>

definition upd_client ::
  "'q broker_state \<Rightarrow> client_id \<Rightarrow> (client_handle \<Rightarrow> client_handle) \<Rightarrow> 'q broker_state" where
  "upd_client s client f =
     (case fmlookup (clients s) client of
        None \<Rightarrow> s
      | Some h \<Rightarrow> s\<lparr>clients := fmupd client (f h) (clients s)\<rparr>)"

definition track_holder ::
  "'q broker_state \<Rightarrow> client_id \<Rightarrow> string \<Rightarrow> string list \<Rightarrow> rw_hold_kind \<Rightarrow> 'q broker_state" where
  "track_holder s client lock_uuid keys kind =
     upd_client s client (\<lambda>h. h\<lparr>held_lock_uuids :=
       fmupd lock_uuid \<lparr>kl_keys = keys, kl_rw_kind = kind\<rparr> (held_lock_uuids h)\<rparr>)"

definition untrack_holder :: "'q broker_state \<Rightarrow> client_id \<Rightarrow> string \<Rightarrow> 'q broker_state" where
  "untrack_holder s client lock_uuid =
     upd_client s client (\<lambda>h. h\<lparr>held_lock_uuids := fmdrop lock_uuid (held_lock_uuids h)\<rparr>)"

definition track_pending ::
  "'q broker_state \<Rightarrow> client_id \<Rightarrow> string \<Rightarrow> string \<Rightarrow> 'q broker_state" where
  "track_pending s client key request_uuid =
     upd_client s client (\<lambda>h. h\<lparr>pending_request_uuids :=
       pending_request_uuids h @ [(key, request_uuid)]\<rparr>)"

definition untrack_pending ::
  "'q broker_state \<Rightarrow> client_id \<Rightarrow> string \<Rightarrow> string \<Rightarrow> 'q broker_state" where
  "untrack_pending s client key request_uuid =
     upd_client s client (\<lambda>h. h\<lparr>pending_request_uuids :=
       filter (\<lambda>(k, u). \<not> (k = key \<and> u = request_uuid)) (pending_request_uuids h)\<rparr>)"

definition send :: "'q broker_state \<Rightarrow> client_id \<Rightarrow> response \<Rightarrow> 'q broker_state" where
  "send s client response =
     (let s = s\<lparr>observed := observed s @ [response]\<rparr> in
      case fmlookup (clients s) client of
        None \<Rightarrow> s
      | Some h \<Rightarrow> s\<lparr>outbox := outbox s @ [(client, response)]\<rparr>)"

definition try_send ::
  "host \<Rightarrow> 'q broker_state \<Rightarrow> client_id \<Rightarrow> response \<Rightarrow> bool \<times> 'q broker_state" where
  "try_send E s client response =
     (case fmlookup (clients s) client of
        None \<Rightarrow> (False, s)
      | Some h \<Rightarrow>
          (let ok = channel_open E (reads s); s = bump s in
           (ok, if ok then s\<lparr>outbox := outbox s @ [(client, response)]\<rparr> else s)))"

section \<open>Frames: the fields an operation leaves alone\<close>

lemma bump_frame [simp]:
  "locks (bump s) = locks s"
  "clients (bump s) = clients s"
  "next_client_id (bump s) = next_client_id s"
  "config (bump s) = config s"
  "deadlines (bump s) = deadlines s"
  "deadline_seq (bump s) = deadline_seq s"
  "fencing_watermark (bump s) = fencing_watermark s"
  "issued (bump s) = issued s"
  "observed (bump s) = observed s"
  "outbox (bump s) = outbox s"
  by (simp_all add: bump_def)

lemma put_lock_frame [simp]:
  "clients (put_lock s key l) = clients s"
  "next_client_id (put_lock s key l) = next_client_id s"
  "config (put_lock s key l) = config s"
  "deadlines (put_lock s key l) = deadlines s"
  "deadline_seq (put_lock s key l) = deadline_seq s"
  "fencing_watermark (put_lock s key l) = fencing_watermark s"
  "issued (put_lock s key l) = issued s"
  "observed (put_lock s key l) = observed s"
  "outbox (put_lock s key l) = outbox s"
  by (simp_all add: put_lock_def)

lemma note_issued_frame [simp]:
  "locks (note_issued s key token) = locks s"
  "clients (note_issued s key token) = clients s"
  "next_client_id (note_issued s key token) = next_client_id s"
  "config (note_issued s key token) = config s"
  "deadlines (note_issued s key token) = deadlines s"
  "deadline_seq (note_issued s key token) = deadline_seq s"
  "fencing_watermark (note_issued s key token) = fencing_watermark s"
  "observed (note_issued s key token) = observed s"
  "outbox (note_issued s key token) = outbox s"
  by (simp_all add: note_issued_def)

lemma observe_frame [simp]:
  "locks (observe_fencing_token s token) = locks s"
  "clients (observe_fencing_token s token) = clients s"
  "next_client_id (observe_fencing_token s token) = next_client_id s"
  "config (observe_fencing_token s token) = config s"
  "deadlines (observe_fencing_token s token) = deadlines s"
  "deadline_seq (observe_fencing_token s token) = deadline_seq s"
  "issued (observe_fencing_token s token) = issued s"
  "observed (observe_fencing_token s token) = observed s"
  "outbox (observe_fencing_token s token) = outbox s"
  by (simp_all add: observe_fencing_token_def)

lemma upd_client_frame [simp]:
  "locks (upd_client s c f) = locks s"
  "next_client_id (upd_client s c f) = next_client_id s"
  "config (upd_client s c f) = config s"
  "deadlines (upd_client s c f) = deadlines s"
  "deadline_seq (upd_client s c f) = deadline_seq s"
  "fencing_watermark (upd_client s c f) = fencing_watermark s"
  "issued (upd_client s c f) = issued s"
  "observed (upd_client s c f) = observed s"
  "outbox (upd_client s c f) = outbox s"
  by (simp_all add: upd_client_def split: option.split)

lemma track_holder_frame [simp]:
  "locks (track_holder s c u ks kd) = locks s"
  "next_client_id (track_holder s c u ks kd) = next_client_id s"
  "config (track_holder s c u ks kd) = config s"
  "deadlines (track_holder s c u ks kd) = deadlines s"
  "deadline_seq (track_holder s c u ks kd) = deadline_seq s"
  "fencing_watermark (track_holder s c u ks kd) = fencing_watermark s"
  "issued (track_holder s c u ks kd) = issued s"
  "observed (track_holder s c u ks kd) = observed s"
  "outbox (track_holder s c u ks kd) = outbox s"
  by (simp_all add: track_holder_def)

lemma untrack_holder_frame [simp]:
  "locks (untrack_holder s c u) = locks s"
  "next_client_id (untrack_holder s c u) = next_client_id s"
  "config (untrack_holder s c u) = config s"
  "deadlines (untrack_holder s c u) = deadlines s"
  "deadline_seq (untrack_holder s c u) = deadline_seq s"
  "fencing_watermark (untrack_holder s c u) = fencing_watermark s"
  "issued (untrack_holder s c u) = issued s"
  "observed (untrack_holder s c u) = observed s"
  "outbox (untrack_holder s c u) = outbox s"
  by (simp_all add: untrack_holder_def)

lemma track_pending_frame [simp]:
  "locks (track_pending s c k u) = locks s"
  "next_client_id (track_pending s c k u) = next_client_id s"
  "config (track_pending s c k u) = config s"
  "deadlines (track_pending s c k u) = deadlines s"
  "deadline_seq (track_pending s c k u) = deadline_seq s"
  "fencing_watermark (track_pending s c k u) = fencing_watermark s"
  "issued (track_pending s c k u) = issued s"
  "observed (track_pending s c k u) = observed s"
  "outbox (track_pending s c k u) = outbox s"
  by (simp_all add: track_pending_def)

lemma untrack_pending_frame [simp]:
  "locks (untrack_pending s c k u) = locks s"
  "next_client_id (untrack_pending s c k u) = next_client_id s"
  "config (untrack_pending s c k u) = config s"
  "deadlines (untrack_pending s c k u) = deadlines s"
  "deadline_seq (untrack_pending s c k u) = deadline_seq s"
  "fencing_watermark (untrack_pending s c k u) = fencing_watermark s"
  "issued (untrack_pending s c k u) = issued s"
  "observed (untrack_pending s c k u) = observed s"
  "outbox (untrack_pending s c k u) = outbox s"
  by (simp_all add: untrack_pending_def)

lemma send_frame [simp]:
  "locks (send s c r) = locks s"
  "clients (send s c r) = clients s"
  "next_client_id (send s c r) = next_client_id s"
  "config (send s c r) = config s"
  "deadlines (send s c r) = deadlines s"
  "deadline_seq (send s c r) = deadline_seq s"
  "fencing_watermark (send s c r) = fencing_watermark s"
  "issued (send s c r) = issued s"
  by (simp_all add: send_def Let_def split: option.split)

lemma uuid_or_new_frame [simp]:
  "locks (snd (uuid_or_new E s forced)) = locks s"
  "clients (snd (uuid_or_new E s forced)) = clients s"
  "next_client_id (snd (uuid_or_new E s forced)) = next_client_id s"
  "config (snd (uuid_or_new E s forced)) = config s"
  "deadlines (snd (uuid_or_new E s forced)) = deadlines s"
  "deadline_seq (snd (uuid_or_new E s forced)) = deadline_seq s"
  "fencing_watermark (snd (uuid_or_new E s forced)) = fencing_watermark s"
  "issued (snd (uuid_or_new E s forced)) = issued s"
  "observed (snd (uuid_or_new E s forced)) = observed s"
  "outbox (snd (uuid_or_new E s forced)) = outbox s"
  by (simp_all add: uuid_or_new_def split: option.split)

lemma resolve_max_frame [simp]:
  "locks (snd (resolve_max s cur req)) = locks s"
  "clients (snd (resolve_max s cur req)) = clients s"
  "next_client_id (snd (resolve_max s cur req)) = next_client_id s"
  "config (snd (resolve_max s cur req)) = config s"
  "deadlines (snd (resolve_max s cur req)) = deadlines s"
  "deadline_seq (snd (resolve_max s cur req)) = deadline_seq s"
  "fencing_watermark (snd (resolve_max s cur req)) = fencing_watermark s"
  "issued (snd (resolve_max s cur req)) = issued s"
  "observed (snd (resolve_max s cur req)) = observed s"
  "outbox (snd (resolve_max s cur req)) = outbox s"
  by (simp_all add: resolve_max_def Let_def split: option.split)

lemma schedule_deadline_frame [simp]:
  "locks (schedule_deadline E s ttl u ks kd c) = locks s"
  "clients (schedule_deadline E s ttl u ks kd c) = clients s"
  "next_client_id (schedule_deadline E s ttl u ks kd c) = next_client_id s"
  "config (schedule_deadline E s ttl u ks kd c) = config s"
  "fencing_watermark (schedule_deadline E s ttl u ks kd c) = fencing_watermark s"
  "issued (schedule_deadline E s ttl u ks kd c) = issued s"
  "observed (schedule_deadline E s ttl u ks kd c) = observed s"
  "outbox (schedule_deadline E s ttl u ks kd c) = outbox s"
  by (simp_all add: schedule_deadline_def Let_def split: option.split)

lemma maybe_mark_idle_frame [simp]:
  "clients (maybe_mark_idle Q E s key) = clients s"
  "next_client_id (maybe_mark_idle Q E s key) = next_client_id s"
  "config (maybe_mark_idle Q E s key) = config s"
  "deadlines (maybe_mark_idle Q E s key) = deadlines s"
  "deadline_seq (maybe_mark_idle Q E s key) = deadline_seq s"
  "fencing_watermark (maybe_mark_idle Q E s key) = fencing_watermark s"
  "issued (maybe_mark_idle Q E s key) = issued s"
  "observed (maybe_mark_idle Q E s key) = observed s"
  "outbox (maybe_mark_idle Q E s key) = outbox s"
  by (simp_all add: maybe_mark_idle_def split: option.split)

lemma lock_or_default_frame [simp]:
  "clients (snd (lock_or_default Q E s key)) = clients s"
  "next_client_id (snd (lock_or_default Q E s key)) = next_client_id s"
  "config (snd (lock_or_default Q E s key)) = config s"
  "deadlines (snd (lock_or_default Q E s key)) = deadlines s"
  "deadline_seq (snd (lock_or_default Q E s key)) = deadline_seq s"
  "fencing_watermark (snd (lock_or_default Q E s key)) = fencing_watermark s"
  "issued (snd (lock_or_default Q E s key)) = issued s"
  "observed (snd (lock_or_default Q E s key)) = observed s"
  "outbox (snd (lock_or_default Q E s key)) = outbox s"
  by (simp_all add: lock_or_default_def Let_def split: option.split)

lemma locks_put_lock [simp]: "locks (put_lock s key l) = fmupd key l (locks s)"
  by (simp add: put_lock_def)

lemma issued_note_issued [simp]: "issued (note_issued s key token) = issued s @ [(key, token)]"
  by (simp add: note_issued_def)

lemma watermark_observe [simp]:
  "fencing_watermark (observe_fencing_token s token) = max (fencing_watermark s) token"
  by (auto simp: observe_fencing_token_def max_def)

lemma observed_send [simp]: "observed (send s c r) = observed s @ [r]"
  by (simp add: send_def Let_def split: option.split)

section \<open>Tokens of one key\<close>

lemma next_or_forced_frame [simp]:
  "exclusive_holders (snd (next_or_forced_fencing_token l forced)) = exclusive_holders l"
  "ls_max (snd (next_or_forced_fencing_token l forced)) = ls_max l"
  "readers (snd (next_or_forced_fencing_token l forced)) = readers l"
  "writer (snd (next_or_forced_fencing_token l forced)) = writer l"
  "queue (snd (next_or_forced_fencing_token l forced)) = queue l"
  "timestamp_emptied (snd (next_or_forced_fencing_token l forced)) = timestamp_emptied l"
  by (simp_all add: next_or_forced_fencing_token_def next_fencing_token_def Let_def
      split: option.split)

lemma next_or_forced_token_le:
  "fst (next_or_forced_fencing_token l forced) \<le>
   fencing_counter (snd (next_or_forced_fencing_token l forced))"
  by (simp add: next_or_forced_fencing_token_def next_fencing_token_def Let_def
      split: option.split)

lemma next_token_fresh:
  assumes "fencing_counter l < - 1"
  shows "fencing_counter l < fst (next_or_forced_fencing_token l None)"
    and "fencing_counter (snd (next_or_forced_fencing_token l None)) =
         fst (next_or_forced_fencing_token l None)"
  using word_less_succ [OF assms]
  by (simp_all add: next_or_forced_fencing_token_def next_fencing_token_def Let_def
      less_max_iff_disj)

section \<open>Properties of every key\<close>

definition locks_sat :: "(string \<Rightarrow> 'q lock_state \<Rightarrow> bool) \<Rightarrow> 'q broker_state \<Rightarrow> bool" where
  "locks_sat I s \<longleftrightarrow> (\<forall>k l. fmlookup (locks s) k = Some l \<longrightarrow> I k l)"

lemma locks_satD: "locks_sat I s \<Longrightarrow> fmlookup (locks s) k = Some l \<Longrightarrow> I k l"
  by (simp add: locks_sat_def)

lemma locks_sat_cong: "locks s = locks s' \<Longrightarrow> locks_sat I s = locks_sat I s'"
  by (simp add: locks_sat_def)

lemma locks_sat_put:
  "locks_sat I s \<Longrightarrow> I key l \<Longrightarrow> locks_sat I (put_lock s key l)"
  by (simp add: locks_sat_def)

lemma locks_sat_mark_idle:
  assumes "locks_sat I s" and "\<And>k l t. I k l \<Longrightarrow> I k (l\<lparr>timestamp_emptied := t\<rparr>)"
  shows "locks_sat I (maybe_mark_idle Q E s key)"
  using assms by (auto simp: maybe_mark_idle_def locks_sat_def split: option.split)

lemma lock_or_default_lookup:
  "lock_or_default Q E s key = (l, s') \<Longrightarrow> fmlookup (locks s') key = Some l"
  by (auto simp: lock_or_default_def Let_def split: option.splits)

lemma lock_or_default_known:
  "fmlookup (locks s) key = Some l \<Longrightarrow> lock_or_default Q E s key = (l, s)"
  by (simp add: lock_or_default_def Let_def)

lemma lock_or_default_other:
  "k \<noteq> key \<Longrightarrow> fmlookup (locks (snd (lock_or_default Q E s key))) k = fmlookup (locks s) k"
  by (simp add: lock_or_default_def Let_def split: option.split)

text \<open>Either the key was known, or its state is fresh with the default concurrency level.\<close>

definition fresh_lock :: "'q pending_queue \<Rightarrow> host \<Rightarrow> 'q broker_state \<Rightarrow> 'q lock_state" where
  "fresh_lock Q E s =
     (lock_state_new Q E (reads s)
        (max (min (max_lock_holders (config s)) (concurrency_cap (config s))) 1))
     \<lparr>fencing_counter := max (wall_ms E (reads s)) (fencing_watermark s)\<rparr>"

lemma lock_or_default_fresh:
  "fmlookup (locks s) key = None \<Longrightarrow>
   lock_or_default Q E s key = (fresh_lock Q E s, bump (put_lock s key (fresh_lock Q E s)))"
  by (auto simp: lock_or_default_def Let_def fresh_lock_def lock_state_new_def max_def)

lemma fresh_lock_fields [simp]:
  "exclusive_holders (fresh_lock Q E s) = fmempty"
  "readers (fresh_lock Q E s) = fmempty"
  "writer (fresh_lock Q E s) = None"
  "queue (fresh_lock Q E s) = lq_new Q"
  "fencing_counter (fresh_lock Q E s) = max (wall_ms E (reads s)) (fencing_watermark s)"
  "ls_max (fresh_lock Q E s) =
     max (min (max_lock_holders (config s)) (concurrency_cap (config s))) 1"
  by (simp_all add: fresh_lock_def lock_state_new_def)

end
