(* ===== verification/Broker_Scheduler.thy ===== *)
theory Broker_Scheduler
  imports Broker_State
begin

text \<open>
  Queue scheduling of \<open>src/broker.rs\<close>: \<open>try_grant_next\<close>, \<open>try_grant_once\<close> and
  \<open>try_grant_composite\<close>.  The three call each other (a composite grant moves the request to
  its next key and drives the scheduler there), so the model carries fuel; \<open>None\<close> stands for
  running out of it and for the panic of \<open>expect("just peeked")\<close>.  \<open>run_grants\<close> is the
  scheduler at a fuel computed from the state, and \<open>try_grant_next_total\<close> shows that this
  fuel is enough and the panic unreachable: every successful step takes at least one unit
  from the total weight of the queues.
\<close>

section \<open>Granting the head of a queue\<close>

definition can_grant_exclusive :: "'q lock_state \<Rightarrow> bool" where
  "can_grant_exclusive l \<longleftrightarrow> writer l = None \<and> hm_is_empty (readers l) \<and>
     (of_nat (hm_len (exclusive_holders l)) :: u32) < ls_max l"

definition can_grant_reader :: "'q lock_state \<Rightarrow> bool" where
  "can_grant_reader l \<longleftrightarrow> \<not> (writer l \<noteq> None \<or> \<not> hm_is_empty (exclusive_holders l))"

definition all_free :: "'q lock_state \<Rightarrow> bool" where
  "all_free l \<longleftrightarrow> writer l = None \<and> hm_is_empty (readers l) \<and> hm_is_empty (exclusive_holders l)"

definition grant_exclusive_head ::
  "'q pending_queue \<Rightarrow> host \<Rightarrow> 'q broker_state \<Rightarrow> string \<Rightarrow> 'q lock_state \<Rightarrow> pending_request \<Rightarrow>
   'q linked_queue \<Rightarrow> 'q broker_state" where
  "grant_exclusive_head Q E s key l head q =
     (let l = l\<lparr>queue := q\<rparr>;
          (token, l) = next_or_forced_fencing_token l (pr_grant_fencing_seed head);
          (lock_uuid, s) = uuid_or_new E s (pr_grant_lock_uuid head);
          l = l\<lparr>exclusive_holders := fmupd lock_uuid
                 \<lparr>eh_client = pr_client head, eh_pid = pr_pid head, eh_fencing_token = token,
                  eh_keep_locks_after_death = pr_keep_locks_after_death head,
                  eh_composite_member = False\<rparr> (exclusive_holders l)\<rparr>;
          depth = lq_len Q (queue l);
          s = note_issued (put_lock s key l) key token;
          s = observe_fencing_token s token;
          s = untrack_pending s (pr_client head) key (pr_request_uuid head);
          s = track_holder s (pr_client head) lock_uuid [key] HoldExclusive;
          s = schedule_deadline E s (pr_ttl head) lock_uuid [key] HoldExclusive (pr_client head)
      in send s (pr_client head)
           (RespLock \<lparr>lr_uuid = pr_request_uuid head, lr_key = key, lr_acquired = True,
              lr_lock_request_count = depth, lr_lock_uuid = Some lock_uuid,
              lr_fencing_token = Some token, lr_readers_count = Some 0, lr_error = None\<rparr>))"

definition grant_reader_head ::
  "'q pending_queue \<Rightarrow> host \<Rightarrow> 'q broker_state \<Rightarrow> string \<Rightarrow> 'q lock_state \<Rightarrow> pending_request \<Rightarrow>
   'q linked_queue \<Rightarrow> 'q broker_state" where
  "grant_reader_head Q E s key l head q =
     (let l = l\<lparr>queue := q\<rparr>;
          (token, l) = next_or_forced_fencing_token l (pr_grant_fencing_seed head);
          (lock_uuid, s) = uuid_or_new E s (pr_grant_lock_uuid head);
          l = l\<lparr>readers := fmupd lock_uuid
                 \<lparr>rh_client = pr_client head, rh_fencing_token = token,
                  rh_lock_uuid = lock_uuid\<rparr> (readers l)\<rparr>;
          readers_count = of_nat (hm_len (readers l));
          s = note_issued (put_lock s key l) key token;
          s = observe_fencing_token s token;
          s = untrack_pending s (pr_client head) key (pr_request_uuid head);
          s = track_holder s (pr_client head) lock_uuid [key] HoldRead
      in send s (pr_client head)
           (RespRegisterRead \<lparr>rw_uuid = pr_request_uuid head, rw_key = key,
              rw_readers_count = readers_count, rw_writer_flag = False, rw_granted = True,
              rw_lock_uuid = Some lock_uuid, rw_fencing_token = Some token\<rparr>))"

definition grant_writer_head ::
  "'q pending_queue \<Rightarrow> host \<Rightarrow> 'q broker_state \<Rightarrow> string \<Rightarrow> 'q lock_state \<Rightarrow> pending_request \<Rightarrow>
   'q linked_queue \<Rightarrow> 'q broker_state" where
  "grant_writer_head Q E s key l head q =
     (let l = l\<lparr>queue := q\<rparr>;
          (token, l) = next_or_forced_fencing_token l (pr_grant_fencing_seed head);
          (lock_uuid, s) = uuid_or_new E s (pr_grant_lock_uuid head);
          l = l\<lparr>writer := Some
                 \<lparr>rh_client = pr_client head, rh_fencing_token = token,
                  rh_lock_uuid = lock_uuid\<rparr>\<rparr>;
          s = note_issued (put_lock s key l) key token;
          s = observe_fencing_token s token;
          s = untrack_pending s (pr_client head) key (pr_request_uuid head);
          s = track_holder s (pr_client head) lock_uuid [key] HoldWrite
      in send s (pr_client head)
           (RespRegisterWrite \<lparr>rw_uuid = pr_request_uuid head, rw_key = key,
              rw_readers_count = 0, rw_writer_flag = True, rw_granted = True,
              rw_lock_uuid = Some lock_uuid, rw_fencing_token = Some token\<rparr>))"

text \<open>
  Granting \<open>key\<close> to the composite request at its head, up to the recursive call: the next key
  to drive, or \<open>None\<close> when the request now holds every key.
\<close>

definition advance_composite ::
  "'q pending_queue \<Rightarrow> host \<Rightarrow> 'q broker_state \<Rightarrow> string \<Rightarrow> 'q lock_state \<Rightarrow> pending_request \<Rightarrow>
   'q linked_queue \<Rightarrow> 'q broker_state \<times> string option" where
  "advance_composite Q E s key l pop q =
     (let all = all_keys (pr_kind pop);
          remaining = tl (remaining_keys (pr_kind pop));
          cuuid = composite_lock_uuid (pr_kind pop);
          token_offset =
            (case position (\<lambda>candidate. candidate = key) all of
               Some i \<Rightarrow> of_nat i | None \<Rightarrow> 0);
          l = l\<lparr>queue := q\<rparr>;
          (token, l) = next_or_forced_fencing_token l
            (map_option (\<lambda>seed. saturating_add seed token_offset) (pr_grant_fencing_seed pop));
          l = l\<lparr>exclusive_holders := fmupd cuuid
                 \<lparr>eh_client = pr_client pop, eh_pid = pr_pid pop, eh_fencing_token = token,
                  eh_keep_locks_after_death = False, eh_composite_member = True\<rparr>
                 (exclusive_holders l)\<rparr>;
          tokens = fmupd key token (granted_tokens (pr_kind pop));
          granted = granted_keys (pr_kind pop) @ [key];
          s = note_issued (put_lock s key l) key token;
          s = observe_fencing_token s token;
          s = untrack_pending s (pr_client pop) key (pr_request_uuid pop);
          s = track_holder s (pr_client pop) cuuid all HoldExclusive
      in case remaining of
           [] \<Rightarrow>
             (let s = schedule_deadline E s (pr_ttl pop) cuuid all HoldExclusive (pr_client pop)
              in (send s (pr_client pop)
                    (RespCompositeLock \<lparr>cr_uuid = pr_request_uuid pop, cr_keys = all,
                       cr_acquired = True, cr_lock_uuid = Some cuuid,
                       cr_fencing_tokens = Some tokens, cr_error = None\<rparr>), None))
         | next_key # _ \<Rightarrow>
             (let (nl, s) = lock_or_default Q E s next_key;
                  nl = nl\<lparr>queue := snd (lq_push_back Q (queue nl) (pr_request_uuid pop)
                         \<lparr>pr_request_uuid = pr_request_uuid pop, pr_client = pr_client pop,
                          pr_pid = pr_pid pop, pr_ttl = pr_ttl pop, pr_grant_lock_uuid = None,
                          pr_grant_fencing_seed = pr_grant_fencing_seed pop,
                          pr_keep_locks_after_death = pr_keep_locks_after_death pop,
                          pr_kind = PendComposite all remaining granted tokens cuuid\<rparr>)\<rparr>;
                  s = put_lock s next_key nl
              in (track_pending s (pr_client pop) next_key (pr_request_uuid pop),
                  Some next_key)))"

section \<open>The scheduler\<close>

fun try_grant_next ::
  "nat \<Rightarrow> 'q pending_queue \<Rightarrow> host \<Rightarrow> 'q broker_state \<Rightarrow> string \<Rightarrow> 'q broker_state option"
and try_grant_once ::
  "nat \<Rightarrow> 'q pending_queue \<Rightarrow> host \<Rightarrow> 'q broker_state \<Rightarrow> string \<Rightarrow>
   (bool \<times> 'q broker_state) option"
and try_grant_composite ::
  "nat \<Rightarrow> 'q pending_queue \<Rightarrow> host \<Rightarrow> 'q broker_state \<Rightarrow> string \<Rightarrow>
   (bool \<times> 'q broker_state) option"
where
  "try_grant_next 0 Q E s key = None"
| "try_grant_next (Suc n) Q E s key =
     (case try_grant_once n Q E s key of
        None \<Rightarrow> None
      | Some (made_progress, s) \<Rightarrow>
          if \<not> made_progress then Some (maybe_mark_idle Q E s key)
          else try_grant_next n Q E s key)"
| "try_grant_once 0 Q E s key = None"
| "try_grant_once (Suc n) Q E s key =
     (case fmlookup (locks s) key of
        None \<Rightarrow> Some (False, s)
      | Some l \<Rightarrow>
        (case lq_front Q (queue l) of
           None \<Rightarrow> Some (False, s)
         | Some (_, peek) \<Rightarrow>
           (case pr_kind peek of
              PendExclusive \<Rightarrow>
                if \<not> can_grant_exclusive l then Some (False, s)
                else (case lq_pop_front Q (queue l) of
                        (None, _) \<Rightarrow> None
                      | (Some (_, head), q) \<Rightarrow>
                          Some (True, grant_exclusive_head Q E s key l head q))
            | PendReader \<Rightarrow>
                if \<not> can_grant_reader l then Some (False, s)
                else (case lq_pop_front Q (queue l) of
                        (None, _) \<Rightarrow> None
                      | (Some (_, head), q) \<Rightarrow>
                          Some (True, grant_reader_head Q E s key l head q))
            | PendWriter \<Rightarrow>
                if \<not> all_free l then Some (False, s)
                else (case lq_pop_front Q (queue l) of
                        (None, _) \<Rightarrow> None
                      | (Some (_, head), q) \<Rightarrow>
                          Some (True, grant_writer_head Q E s key l head q))
            | PendComposite _ _ _ _ _ \<Rightarrow> try_grant_composite n Q E s key)))"
| "try_grant_composite 0 Q E s key = None"
| "try_grant_composite (Suc n) Q E s key =
     (case fmlookup (locks s) key of
        None \<Rightarrow> Some (False, s)
      | Some l \<Rightarrow>
        (case lq_front Q (queue l) of
           None \<Rightarrow> Some (False, s)
         | Some (_, peek) \<Rightarrow>
           (case pr_kind peek of
              PendComposite _ remaining _ _ _ \<Rightarrow>
                (case remaining of
                   [] \<Rightarrow> Some (False, s)
                 | target # _ \<Rightarrow>
                     if target \<noteq> key then Some (False, s)
                     else if \<not> all_free l then Some (False, s)
                     else (case lq_pop_front Q (queue l) of
                             (None, _) \<Rightarrow> None
                           | (Some (_, pop), q) \<Rightarrow>
                               (case pr_kind pop of
                                  PendComposite _ _ _ _ _ \<Rightarrow>
                                    (case advance_composite Q E s key l pop q of
                                       (s, None) \<Rightarrow> Some (True, s)
                                     | (s, Some next_key) \<Rightarrow>
                                         (case try_grant_next n Q E s next_key of
                                            None \<Rightarrow> None
                                          | Some s \<Rightarrow> Some (True, s)))
                                | _ \<Rightarrow> Some (False, put_lock s key (l\<lparr>queue := q\<rparr>)))))
            | _ \<Rightarrow> Some (False, s))))"

declare try_grant_next.simps [simp del] try_grant_once.simps [simp del]
  try_grant_composite.simps [simp del]

text \<open>The work a queue can still cause: one grant per plain request, one per missing key.\<close>

fun pending_weight :: "pending_request \<Rightarrow> nat" where
  "pending_weight p =
     (case pr_kind p of PendComposite _ remaining _ _ _ \<Rightarrow> length remaining | _ \<Rightarrow> 1)"

definition queue_weight :: "'q pending_queue \<Rightarrow> 'q lock_state \<Rightarrow> nat" where
  "queue_weight Q l = sum_list (map (pending_weight \<circ> snd) (lq_iter Q (queue l)))"

definition total_weight :: "'q pending_queue \<Rightarrow> 'q broker_state \<Rightarrow> nat" where
  "total_weight Q s =
     sum_list (map (\<lambda>k. queue_weight Q (the (fmlookup (locks s) k)))
       (sorted_list_of_fset (fmdom (locks s))))"

definition grant_fuel :: "'q pending_queue \<Rightarrow> 'q broker_state \<Rightarrow> nat" where
  "grant_fuel Q s = 3 * total_weight Q s + 3"

definition run_grants ::
  "'q pending_queue \<Rightarrow> host \<Rightarrow> 'q broker_state \<Rightarrow> string \<Rightarrow> 'q broker_state" where
  "run_grants Q E s key =
     (case try_grant_next (grant_fuel Q s) Q E s key of Some s' \<Rightarrow> s' | None \<Rightarrow> s)"

section \<open>What a grant does to the state\<close>

text \<open>The lock of a key after a token was taken for the request popped from its queue.\<close>

definition tokened :: "'q lock_state \<Rightarrow> 'q linked_queue \<Rightarrow> u64 option \<Rightarrow> 'q lock_state" where
  "tokened l q forced = snd (next_or_forced_fencing_token (l\<lparr>queue := q\<rparr>) forced)"

definition token_of :: "'q lock_state \<Rightarrow> u64 option \<Rightarrow> u64" where
  "token_of l forced = fst (next_or_forced_fencing_token l forced)"

lemma token_of_queue [simp]: "token_of (l\<lparr>queue := q\<rparr>) forced = token_of l forced"
  by (simp add: token_of_def next_or_forced_fencing_token_def next_fencing_token_def Let_def
      split: option.split)

lemma tokened_fields [simp]:
  "exclusive_holders (tokened l q forced) = exclusive_holders l"
  "ls_max (tokened l q forced) = ls_max l"
  "readers (tokened l q forced) = readers l"
  "writer (tokened l q forced) = writer l"
  "queue (tokened l q forced) = q"
  by (simp_all add: tokened_def)

lemma tokened_counter:
  "fencing_counter (tokened l q forced) =
     fencing_counter (snd (next_or_forced_fencing_token l forced))"
  by (simp add: tokened_def next_or_forced_fencing_token_def next_fencing_token_def Let_def
      split: option.split)

lemmas grant_head_defs = grant_exclusive_head_def grant_reader_head_def grant_writer_head_def

lemma grant_exclusive_head_effect:
  "\<exists>u h. locks (grant_exclusive_head Q E s key l head q) =
     fmupd key ((tokened l q (pr_grant_fencing_seed head))
       \<lparr>exclusive_holders := fmupd u h (exclusive_holders l)\<rparr>) (locks s)"
  by (auto simp: grant_exclusive_head_def Let_def split_beta tokened_def)

lemma grant_reader_head_effect:
  "\<exists>u h. locks (grant_reader_head Q E s key l head q) =
     fmupd key ((tokened l q (pr_grant_fencing_seed head))
       \<lparr>readers := fmupd u h (readers l)\<rparr>) (locks s)"
  by (auto simp: grant_reader_head_def Let_def split_beta tokened_def)

lemma grant_writer_head_effect:
  "\<exists>w. locks (grant_writer_head Q E s key l head q) =
     fmupd key ((tokened l q (pr_grant_fencing_seed head))\<lparr>writer := Some w\<rparr>) (locks s)"
  by (auto simp: grant_writer_head_def Let_def split_beta tokened_def)

lemma grant_head_frame [simp]:
  "config (grant_exclusive_head Q E s key l head q) = config s"
  "config (grant_reader_head Q E s key l head q) = config s"
  "config (grant_writer_head Q E s key l head q) = config s"
  by (simp_all add: grant_head_defs Let_def split_beta)

lemma grant_head_tokens:
  "issued (grant_exclusive_head Q E s key l head q) =
     issued s @ [(key, token_of l (pr_grant_fencing_seed head))]"
  "issued (grant_reader_head Q E s key l head q) =
     issued s @ [(key, token_of l (pr_grant_fencing_seed head))]"
  "issued (grant_writer_head Q E s key l head q) =
     issued s @ [(key, token_of l (pr_grant_fencing_seed head))]"
  "fencing_watermark (grant_exclusive_head Q E s key l head q) =
     max (fencing_watermark s) (token_of l (pr_grant_fencing_seed head))"
  "fencing_watermark (grant_reader_head Q E s key l head q) =
     max (fencing_watermark s) (token_of l (pr_grant_fencing_seed head))"
  "fencing_watermark (grant_writer_head Q E s key l head q) =
     max (fencing_watermark s) (token_of l (pr_grant_fencing_seed head))"
  by (simp_all add: grant_head_defs Let_def split_beta token_of_def [symmetric])


text \<open>The forced token of a composite grant is the seed shifted by the key's position.\<close>

definition composite_forced :: "pending_request \<Rightarrow> string \<Rightarrow> u64 option" where
  "composite_forced pop key =
     map_option (\<lambda>seed. saturating_add seed
        (case position (\<lambda>candidate. candidate = key) (all_keys (pr_kind pop)) of
           Some i \<Rightarrow> of_nat i | None \<Rightarrow> 0)) (pr_grant_fencing_seed pop)"

definition composite_mid ::
  "'q pending_queue \<Rightarrow> host \<Rightarrow> 'q broker_state \<Rightarrow> string \<Rightarrow> 'q lock_state \<Rightarrow> pending_request \<Rightarrow>
   'q linked_queue \<Rightarrow> 'q broker_state" where
  "composite_mid Q E s key l pop q =
     (let token = token_of l (composite_forced pop key);
          s = note_issued (put_lock s key ((tokened l q (composite_forced pop key))
                \<lparr>exclusive_holders := fmupd (composite_lock_uuid (pr_kind pop))
                  \<lparr>eh_client = pr_client pop, eh_pid = pr_pid pop, eh_fencing_token = token,
                   eh_keep_locks_after_death = False, eh_composite_member = True\<rparr>
                  (exclusive_holders l)\<rparr>)) key token;
          s = observe_fencing_token s token;
          s = untrack_pending s (pr_client pop) key (pr_request_uuid pop)
      in track_holder s (pr_client pop) (composite_lock_uuid (pr_kind pop))
           (all_keys (pr_kind pop)) HoldExclusive)"

definition composite_requeued :: "pending_request \<Rightarrow> string \<Rightarrow> u64 \<Rightarrow> pending_request" where
  "composite_requeued pop key token =
     \<lparr>pr_request_uuid = pr_request_uuid pop, pr_client = pr_client pop, pr_pid = pr_pid pop,
      pr_ttl = pr_ttl pop, pr_grant_lock_uuid = None,
      pr_grant_fencing_seed = pr_grant_fencing_seed pop,
      pr_keep_locks_after_death = pr_keep_locks_after_death pop,
      pr_kind = PendComposite (all_keys (pr_kind pop)) (tl (remaining_keys (pr_kind pop)))
        (granted_keys (pr_kind pop) @ [key]) (fmupd key token (granted_tokens (pr_kind pop)))
        (composite_lock_uuid (pr_kind pop))\<rparr>"

lemma composite_mid_fields [simp]:
  "locks (composite_mid Q E s key l pop q) =
     fmupd key ((tokened l q (composite_forced pop key))
       \<lparr>exclusive_holders := fmupd (composite_lock_uuid (pr_kind pop))
          \<lparr>eh_client = pr_client pop, eh_pid = pr_pid pop,
           eh_fencing_token = token_of l (composite_forced pop key),
           eh_keep_locks_after_death = False, eh_composite_member = True\<rparr>
          (exclusive_holders l)\<rparr>) (locks s)"
  "config (composite_mid Q E s key l pop q) = config s"
  "issued (composite_mid Q E s key l pop q) =
     issued s @ [(key, token_of l (composite_forced pop key))]"
  "fencing_watermark (composite_mid Q E s key l pop q) =
     max (fencing_watermark s) (token_of l (composite_forced pop key))"
  by (simp_all add: composite_mid_def Let_def)

lemma advance_composite_last:
  assumes "tl (remaining_keys (pr_kind pop)) = []"
  shows "snd (advance_composite Q E s key l pop q) = None"
    and "locks (fst (advance_composite Q E s key l pop q)) = locks (composite_mid Q E s key l pop q)"
    and "config (fst (advance_composite Q E s key l pop q)) = config s"
    and "issued (fst (advance_composite Q E s key l pop q)) =
           issued (composite_mid Q E s key l pop q)"
    and "fencing_watermark (fst (advance_composite Q E s key l pop q)) =
           fencing_watermark (composite_mid Q E s key l pop q)"
  using assms
  by (simp_all add: advance_composite_def Let_def split_beta composite_forced_def tokened_def
      flip: token_of_def)

lemma advance_composite_next:
  assumes "tl (remaining_keys (pr_kind pop)) = nk # rest"
  shows "advance_composite Q E s key l pop q =
    (let (nl, s') = lock_or_default Q E (composite_mid Q E s key l pop q) nk
     in (track_pending (put_lock s' nk (nl\<lparr>queue := snd (lq_push_back Q (queue nl)
           (pr_request_uuid pop)
           (composite_requeued pop key (token_of l (composite_forced pop key))))\<rparr>))
           (pr_client pop) nk (pr_request_uuid pop), Some nk))"
  using assms
  by (simp add: advance_composite_def Let_def split_beta composite_forced_def tokened_def
      composite_mid_def composite_requeued_def flip: token_of_def)

section \<open>Blocked heads\<close>

text \<open>No step of the scheduler can be taken for the head of the queue.\<close>

definition head_blocked :: "'q pending_queue \<Rightarrow> string \<Rightarrow> 'q lock_state \<Rightarrow> bool" where
  "head_blocked Q key l =
     (case lq_iter Q (queue l) of
        [] \<Rightarrow> True
      | (u, p) # _ \<Rightarrow>
          (case pr_kind p of
             PendExclusive \<Rightarrow> \<not> can_grant_exclusive l
           | PendReader \<Rightarrow> \<not> can_grant_reader l
           | PendWriter \<Rightarrow> \<not> all_free l
           | PendComposite _ remaining _ _ _ \<Rightarrow>
               (case remaining of [] \<Rightarrow> True | t # _ \<Rightarrow> t \<noteq> key \<or> \<not> all_free l)))"

definition key_blocked :: "'q pending_queue \<Rightarrow> 'q broker_state \<Rightarrow> string \<Rightarrow> bool" where
  "key_blocked Q s key = (case fmlookup (locks s) key of Some l \<Rightarrow> head_blocked Q key l | None \<Rightarrow> True)"


text \<open>The broker over a queue that keeps the crate's contract.\<close>

locale broker_queue = linked_queue_crate Q
  for Q :: "'q pending_queue"

interpretation vecdeque_broker: broker_queue vecdeque
  by unfold_locales

section \<open>Termination: enough fuel\<close>

lemma total_weight_sum:
  "total_weight Q s = (\<Sum>k \<in> fset (fmdom (locks s)). queue_weight Q (the (fmlookup (locks s) k)))"
  by (simp add: total_weight_def sum_list_distinct_conv_sum_set)

lemma total_weight_upd:
  assumes "locks t = fmupd key l (locks s)"
  shows "total_weight Q t + (case fmlookup (locks s) key of Some l0 \<Rightarrow> queue_weight Q l0 | None \<Rightarrow> 0) =
         total_weight Q s + queue_weight Q l"
proof -
  let ?D = "fset (fmdom (locks s))"
  let ?w = "\<lambda>k. queue_weight Q (the (fmlookup (locks s) k))"
  have "total_weight Q t = queue_weight Q l + sum ?w (?D - {key})"
    by (auto simp: total_weight_sum assms sum.insert_remove intro!: sum.cong
        split: if_splits)
  moreover have "total_weight Q s = sum ?w (?D - {key}) +
      (case fmlookup (locks s) key of Some l0 \<Rightarrow> queue_weight Q l0 | None \<Rightarrow> 0)"
  proof (cases "fmlookup (locks s) key")
    case None
    then have "key \<notin> ?D" by (simp add: fmdom_notI)
    with None show ?thesis by (simp add: total_weight_sum)
  next
    case (Some l0)
    then have "key \<in> ?D" by (simp add: fmdomI)
    then show ?thesis using Some by (simp add: total_weight_sum sum.remove [of _ key])
  qed
  ultimately show ?thesis by simp
qed

lemma total_weight_cong: "locks s = locks t \<Longrightarrow> total_weight Q s = total_weight Q t"
  by (simp add: total_weight_def)

lemma queue_weight_cong: "queue l = queue l' \<Longrightarrow> queue_weight Q l = queue_weight Q l'"
  by (simp add: queue_weight_def)

lemma total_weight_mark_idle [simp]: "total_weight Q (maybe_mark_idle Q E s key) = total_weight Q s"
proof (cases "\<exists>l t. fmlookup (locks s) key = Some l \<and>
    locks (maybe_mark_idle Q E s key) = fmupd key (l\<lparr>timestamp_emptied := t\<rparr>) (locks s)")
  case True
  then obtain l t where l: "fmlookup (locks s) key = Some l"
    and upd: "locks (maybe_mark_idle Q E s key) = fmupd key (l\<lparr>timestamp_emptied := t\<rparr>) (locks s)"
    by blast
  have "queue_weight Q (l\<lparr>timestamp_emptied := t\<rparr>) = queue_weight Q l"
    by (rule queue_weight_cong) simp
  with total_weight_upd [OF upd, of Q] l show ?thesis by simp
next
  case False
  then have "locks (maybe_mark_idle Q E s key) = locks s"
    by (auto simp: maybe_mark_idle_def split: option.split)
  then show ?thesis by (rule total_weight_cong)
qed

lemma try_grant_more_fuel:
  "try_grant_next n Q E s key = Some r \<Longrightarrow> try_grant_next (Suc n) Q E s key = Some r"
  "try_grant_once n Q E s key = Some r' \<Longrightarrow> try_grant_once (Suc n) Q E s key = Some r'"
  "try_grant_composite n Q E s key = Some r' \<Longrightarrow> try_grant_composite (Suc n) Q E s key = Some r'"
proof (induction n arbitrary: s key r r')
  case 0
  {
    case 1 then show ?case by (simp add: try_grant_next.simps)
  next
    case 2 then show ?case by (simp add: try_grant_once.simps)
  next
    case 3 then show ?case by (simp add: try_grant_composite.simps)
  }
next
  case (Suc n)
  {
    case 1
    then obtain b t where once: "try_grant_once n Q E s key = Some (b, t)"
      and t: "(if \<not> b then Some (maybe_mark_idle Q E t key) else try_grant_next n Q E t key) = Some r"
      by (auto simp: try_grant_next.simps split: option.splits)
    from Suc.IH(2) [OF once] Suc.IH(1) [of t key r] t show ?case
      by (simp add: try_grant_next.simps(2) [of "Suc n"] split: if_splits)
  next
    case 2
    with Suc.IH(3) [of s key r'] show ?case
      by (auto simp: try_grant_once.simps(2) [of "Suc n"] try_grant_once.simps(2) [of n]
          split: option.split_asm pending_kind.split_asm prod.split_asm if_split_asm)
  next
    case 3
    with Suc.IH(1) show ?case
      by (auto simp: try_grant_composite.simps(2) [of "Suc n"] try_grant_composite.simps(2) [of n]
          split: option.split_asm pending_kind.split_asm prod.split_asm list.split_asm if_split_asm)
  }
qed

lemma try_grant_next_mono:
  "n \<le> m \<Longrightarrow> try_grant_next n Q E s key = Some r \<Longrightarrow> try_grant_next m Q E s key = Some r"
  by (induction m rule: dec_induct) (auto intro: try_grant_more_fuel)

context broker_queue
begin

lemma front_pop:
  assumes "lq_front Q q = Some x"
  obtains q' where "lq_pop_front Q q = (Some x, q')" and "lq_iter Q q = x # lq_iter Q q'"
  using assms lq.front_iter [of q] lq.pop_front_value [of q] lq.iter_pop_front [of q]
  by (cases "lq_pop_front Q q") (auto split: list.splits)

lemma front_None: "lq_front Q q = None \<longleftrightarrow> lq_iter Q q = []"
  by (auto simp: lq.front_iter split: list.split)


lemma weight_after_pop:
  assumes "fmlookup (locks s) key = Some l"
    and "lq_iter Q (queue l) = (u, p) # lq_iter Q q"
    and "locks t = fmupd key l' (locks s)" and "queue l' = q"
  shows "total_weight Q t + pending_weight p = total_weight Q s"
  using total_weight_upd [OF assms(3), of Q] assms(1,2,4) by (simp add: queue_weight_def)

lemma weight_push_back:
  "queue_weight Q (l\<lparr>queue := snd (lq_push_back Q (queue l) u p)\<rparr>) \<le>
   queue_weight Q l + pending_weight p"
  by (simp add: queue_weight_def lq.iter_push_back)

lemma weight_fresh: "queue_weight Q (fresh_lock Q E s) = 0"
  by (simp add: queue_weight_def lq.iter_new)

lemma weight_advance_next:
  assumes l: "fmlookup (locks s) key = Some l"
    and iter: "lq_iter Q (queue l) = (u, pop) # lq_iter Q q"
    and kind: "pr_kind pop = PendComposite all (key # nk # r) granted tokens cuuid"
  shows "total_weight Q (fst (advance_composite Q E s key l pop q)) < total_weight Q s"
proof -
  let ?mid = "composite_mid Q E s key l pop q"
  let ?p = "composite_requeued pop key (token_of l (composite_forced pop key))"
  let ?t = "fst (advance_composite Q E s key l pop q)"
  have mid: "total_weight Q ?mid + pending_weight pop = total_weight Q s"
    by (rule weight_after_pop [OF l iter composite_mid_fields(1)]) simp
  have adv: "advance_composite Q E s key l pop q =
    (let (nl, s') = lock_or_default Q E ?mid nk
     in (track_pending (put_lock s' nk (nl\<lparr>queue := snd (lq_push_back Q (queue nl)
           (pr_request_uuid pop) ?p)\<rparr>)) (pr_client pop) nk (pr_request_uuid pop), Some nk))"
    by (rule advance_composite_next) (simp add: kind)
  have "total_weight Q ?t \<le> total_weight Q ?mid + pending_weight ?p"
  proof (cases "fmlookup (locks ?mid) nk")
    case None
    then have "locks ?t = fmupd nk ((fresh_lock Q E ?mid)\<lparr>queue := snd (lq_push_back Q
        (queue (fresh_lock Q E ?mid)) (pr_request_uuid pop) ?p)\<rparr>) (locks ?mid)"
      by (simp add: adv lock_or_default_fresh)
    from total_weight_upd [OF this, of Q] None
      weight_push_back [of "fresh_lock Q E ?mid" "pr_request_uuid pop" ?p]
    show ?thesis by (simp add: weight_fresh del: composite_mid_fields)
  next
    case (Some nl)
    then have "locks ?t = fmupd nk (nl\<lparr>queue := snd (lq_push_back Q
        (queue nl) (pr_request_uuid pop) ?p)\<rparr>) (locks ?mid)"
      by (simp add: adv lock_or_default_known del: composite_mid_fields)
    from total_weight_upd [OF this, of Q] Some weight_push_back [of nl "pr_request_uuid pop" ?p]
    show ?thesis by (simp del: composite_mid_fields)
  qed
  moreover have "Suc (pending_weight ?p) = pending_weight pop"
    by (simp add: composite_requeued_def kind)
  ultimately show ?thesis using mid by linarith
qed

lemma composite_total:
  assumes IH: "\<And>s key. 3 * total_weight Q s + 3 \<le> m \<Longrightarrow>
      \<exists>s'. try_grant_next m Q E s key = Some s' \<and> total_weight Q s' \<le> total_weight Q s"
    and fuel: "3 * total_weight Q s + 1 \<le> Suc m"
  shows "\<exists>b s'. try_grant_composite (Suc m) Q E s key = Some (b, s') \<and>
    (if b then total_weight Q s' < total_weight Q s else s' = s)"
proof (cases "\<exists>l u p all rest granted tokens cuuid. fmlookup (locks s) key = Some l \<and>
    lq_front Q (queue l) = Some (u, p) \<and>
    pr_kind p = PendComposite all (key # rest) granted tokens cuuid \<and> all_free l")
  case False
  then have "try_grant_composite (Suc m) Q E s key = Some (False, s)"
    by (auto simp: try_grant_composite.simps split: option.split pending_kind.split list.split)
  then show ?thesis by auto
next
  case True
  then obtain l u p all rest granted tokens cuuid where l: "fmlookup (locks s) key = Some l"
    and head: "lq_front Q (queue l) = Some (u, p)"
    and kind: "pr_kind p = PendComposite all (key # rest) granted tokens cuuid"
    and free: "all_free l" by blast
  from head obtain q where pop: "lq_pop_front Q (queue l) = (Some (u, p), q)"
    and iter: "lq_iter Q (queue l) = (u, p) # lq_iter Q q" by (rule front_pop)
  let ?t = "fst (advance_composite Q E s key l p q)"
  show ?thesis
  proof (cases rest)
    case Nil
    then have last: "tl (remaining_keys (pr_kind p)) = []" by (simp add: kind)
    note adv = advance_composite_last [OF last, of Q E s key l q]
    have "total_weight Q ?t + pending_weight p = total_weight Q s"
      by (rule weight_after_pop [OF l iter]) (use adv(2) in auto)
    with adv(1) show ?thesis
      by (cases "advance_composite Q E s key l p q")
        (auto simp: try_grant_composite.simps l head kind pop free Nil)
  next
    case (Cons nk r)
    have "snd (advance_composite Q E s key l p q) = Some nk"
      by (subst advance_composite_next [where nk = nk and rest = r])
        (simp_all add: kind Cons split_beta)
    moreover have less: "total_weight Q ?t < total_weight Q s"
      by (rule weight_advance_next [OF l iter]) (simp add: kind Cons)
    moreover from less fuel IH [of ?t nk] obtain s' where
      "try_grant_next m Q E ?t nk = Some s'" "total_weight Q s' \<le> total_weight Q ?t" by auto
    ultimately show ?thesis
      by (cases "advance_composite Q E s key l p q")
        (auto simp: try_grant_composite.simps l head kind pop free)
  qed
qed

lemma grant_head_weight:
  assumes "fmlookup (locks s) key = Some l"
    and "lq_iter Q (queue l) = (u, p) # lq_iter Q q"
    and "\<forall>a r g t c. pr_kind p \<noteq> PendComposite a r g t c"
  shows "total_weight Q (grant_exclusive_head Q E s key l p q) < total_weight Q s"
    and "total_weight Q (grant_reader_head Q E s key l p q) < total_weight Q s"
    and "total_weight Q (grant_writer_head Q E s key l p q) < total_weight Q s"
proof -
  have 1: "pending_weight p = 1" using assms(3) by (cases "pr_kind p") auto
  obtain u1 h1 where "locks (grant_exclusive_head Q E s key l p q) =
     fmupd key ((tokened l q (pr_grant_fencing_seed p))
       \<lparr>exclusive_holders := fmupd u1 h1 (exclusive_holders l)\<rparr>) (locks s)"
    using grant_exclusive_head_effect by blast
  from weight_after_pop [OF assms(1,2) this] 1
  show "total_weight Q (grant_exclusive_head Q E s key l p q) < total_weight Q s" by simp
  obtain u2 h2 where "locks (grant_reader_head Q E s key l p q) =
     fmupd key ((tokened l q (pr_grant_fencing_seed p))
       \<lparr>readers := fmupd u2 h2 (readers l)\<rparr>) (locks s)"
    using grant_reader_head_effect by blast
  from weight_after_pop [OF assms(1,2) this] 1
  show "total_weight Q (grant_reader_head Q E s key l p q) < total_weight Q s" by simp
  obtain w where "locks (grant_writer_head Q E s key l p q) =
     fmupd key ((tokened l q (pr_grant_fencing_seed p))\<lparr>writer := Some w\<rparr>) (locks s)"
    using grant_writer_head_effect by blast
  from weight_after_pop [OF assms(1,2) this] 1
  show "total_weight Q (grant_writer_head Q E s key l p q) < total_weight Q s" by simp
qed

lemma once_total:
  assumes IH: "\<And>j s key. j < m \<Longrightarrow> 3 * total_weight Q s + 3 \<le> j \<Longrightarrow>
      \<exists>s'. try_grant_next j Q E s key = Some s' \<and> total_weight Q s' \<le> total_weight Q s"
    and fuel: "3 * total_weight Q s + 2 \<le> Suc m"
  shows "\<exists>b s'. try_grant_once (Suc m) Q E s key = Some (b, s') \<and>
    (if b then total_weight Q s' < total_weight Q s else s' = s)"
proof (cases "\<exists>l u p. fmlookup (locks s) key = Some l \<and> lq_front Q (queue l) = Some (u, p)")
  case False
  then have "try_grant_once (Suc m) Q E s key = Some (False, s)"
    by (auto simp: try_grant_once.simps split: option.split)
  then show ?thesis by auto
next
  case True
  then obtain l u p where l: "fmlookup (locks s) key = Some l"
    and head: "lq_front Q (queue l) = Some (u, p)" by blast
  from head obtain q where pop: "lq_pop_front Q (queue l) = (Some (u, p), q)"
    and iter: "lq_iter Q (queue l) = (u, p) # lq_iter Q q" by (rule front_pop)
  show ?thesis
  proof (cases "pr_kind p")
    case (PendComposite all remaining granted tokens cuuid)
    then have "try_grant_once (Suc m) Q E s key = try_grant_composite m Q E s key"
      by (simp add: try_grant_once.simps l head)
    moreover from fuel obtain j where "m = Suc j" by (cases m) auto
    ultimately show ?thesis using composite_total [of j E s key] IH [of j] fuel by simp
  qed (use grant_head_weight [OF l iter] in
    \<open>auto simp: try_grant_once.simps l head pop split: if_splits\<close>)
qed

lemma try_grant_next_enough:
  "3 * total_weight Q s + 3 \<le> n \<Longrightarrow>
   \<exists>s'. try_grant_next n Q E s key = Some s' \<and> total_weight Q s' \<le> total_weight Q s"
proof (induction n arbitrary: s key rule: less_induct)
  case (less n)
  from less.prems obtain m where n: "n = Suc (Suc m)" 
    by (cases n; cases "n - 1") auto
  with less.prems have "3 * total_weight Q s + 2 \<le> Suc m" by simp
  with once_total [of m E s key] less.IH n obtain b t where
    once: "try_grant_once (Suc m) Q E s key = Some (b, t)"
    and t: "if b then total_weight Q t < total_weight Q s else t = s"
    by (metis less_Suc_eq)
  show ?case
  proof (cases b)
    case True
    with t less.prems n have "3 * total_weight Q t + 3 \<le> Suc m" by simp
    with less.IH [of "Suc m" t key] n obtain s' where
      "try_grant_next (Suc m) Q E t key = Some s'" "total_weight Q s' \<le> total_weight Q t" by auto
    with True t once n show ?thesis by (auto simp: try_grant_next.simps(2) [of "Suc m"])
  next
    case False
    with t once n show ?thesis by (auto simp: try_grant_next.simps(2) [of "Suc m"])
  qed
qed

lemma try_grant_next_total:
  "grant_fuel Q s \<le> n \<Longrightarrow> try_grant_next n Q E s key = Some (run_grants Q E s key)"
proof -
  assume n: "grant_fuel Q s \<le> n"
  obtain r where "try_grant_next (grant_fuel Q s) Q E s key = Some r"
    using try_grant_next_enough [of s "grant_fuel Q s" E key] by (auto simp: grant_fuel_def)
  with try_grant_next_mono [OF n this] show ?thesis by (simp add: run_grants_def)
qed

end


section \<open>Invariants of the scheduler\<close>

text \<open>
  \<open>P S s\<close> is a property of states that may fail at the keys in \<open>S\<close>.  If every single grant keeps
  it, a composite grant may leave its next key open, and a blocked head closes a key, then
  driving the scheduler at a key closes that key.
\<close>

locale grant_invariant = broker_queue Q
  for Q :: "'q pending_queue" +
  fixes E :: host
    and P :: "string set \<Rightarrow> 'q broker_state \<Rightarrow> bool"
  assumes keep_exclusive:
    "\<lbrakk>P (insert key S) s; fmlookup (locks s) key = Some l;
      lq_iter Q (queue l) = (u, head) # lq_iter Q q;
      pr_kind head = PendExclusive; can_grant_exclusive l\<rbrakk>
     \<Longrightarrow> P (insert key S) (grant_exclusive_head Q E s key l head q)"
    and keep_reader:
    "\<lbrakk>P (insert key S) s; fmlookup (locks s) key = Some l;
      lq_iter Q (queue l) = (u, head) # lq_iter Q q;
      pr_kind head = PendReader; can_grant_reader l\<rbrakk>
     \<Longrightarrow> P (insert key S) (grant_reader_head Q E s key l head q)"
    and keep_writer:
    "\<lbrakk>P (insert key S) s; fmlookup (locks s) key = Some l;
      lq_iter Q (queue l) = (u, head) # lq_iter Q q;
      pr_kind head = PendWriter; all_free l\<rbrakk>
     \<Longrightarrow> P (insert key S) (grant_writer_head Q E s key l head q)"
    and keep_composite_last:
    "\<lbrakk>P (insert key S) s; fmlookup (locks s) key = Some l;
      lq_iter Q (queue l) = (u, pop) # lq_iter Q q;
      pr_kind pop = PendComposite all [key] granted tokens cuuid; all_free l\<rbrakk>
     \<Longrightarrow> P (insert key S) (fst (advance_composite Q E s key l pop q))"
    and keep_composite_next:
    "\<lbrakk>P (insert key S) s; fmlookup (locks s) key = Some l;
      lq_iter Q (queue l) = (u, pop) # lq_iter Q q;
      pr_kind pop = PendComposite all (key # nk # r) granted tokens cuuid; all_free l\<rbrakk>
     \<Longrightarrow> P (insert nk (insert key S)) (fst (advance_composite Q E s key l pop q))"
    and keep_stop:
    "\<lbrakk>P (insert key S) s; key_blocked Q s key\<rbrakk> \<Longrightarrow> P S (maybe_mark_idle Q E s key)"
begin

lemma composite_step:
  assumes IH: "\<forall>j < n. \<forall>S s key s'. try_grant_next j Q E s key = Some s' \<longrightarrow>
      P (insert key S) s \<longrightarrow> P S s'"
    and res: "try_grant_composite n Q E s key = Some (b, s')"
    and P: "P (insert key S) s"
    and l: "fmlookup (locks s) key = Some l"
    and head: "lq_front Q (queue l) = Some (u, p)"
    and kind: "pr_kind p = PendComposite all remaining granted tokens cuuid"
  shows "P (insert key S) s' \<and> (b \<or> key_blocked Q s' key)"
proof -
  from res obtain m where n: "n = Suc m" by (cases n) (auto simp: try_grant_composite.simps)
  from head obtain q where pop: "lq_pop_front Q (queue l) = (Some (u, p), q)"
    and iter: "lq_iter Q (queue l) = (u, p) # lq_iter Q q"
    by (rule front_pop)
  show ?thesis
  proof (cases "(\<exists>rest. remaining = key # rest) \<and> all_free l")
    case False
    then have "b = False" "s' = s" and "head_blocked Q key l"
      using res by (auto simp: try_grant_composite.simps n l head kind iter head_blocked_def
          split: list.splits if_splits)
    with P l show ?thesis by (simp add: key_blocked_def)
  next
    case True
    then obtain rest where rem: "remaining = key # rest" and free: "all_free l" by blast
    show ?thesis
    proof (cases rest)
      case Nil
      then have none: "snd (advance_composite Q E s key l p q) = None"
        by (intro advance_composite_last) (simp add: kind rem)
      with res have "b" "s' = fst (advance_composite Q E s key l p q)"
        by (auto simp: try_grant_composite.simps n l head kind pop rem free split: prod.splits)
      with keep_composite_last [OF P l iter _ free] kind rem Nil show ?thesis by simp
    next
      case (Cons nk r)
      then have "snd (advance_composite Q E s key l p q) = Some nk"
        by (subst advance_composite_next [where nk = nk and rest = r])
          (simp_all add: kind rem split_beta)
      with res have "b" and
        nxt: "try_grant_next m Q E (fst (advance_composite Q E s key l p q)) nk = Some s'"
        by (auto simp: try_grant_composite.simps n l head kind pop rem free
            split: prod.splits option.splits)
      from keep_composite_next [OF P l iter _ free] kind rem Cons
      have "P (insert nk (insert key S)) (fst (advance_composite Q E s key l p q))" by simp
      with nxt \<open>b\<close> IH n show ?thesis by blast
    qed
  qed
qed

lemma once_step:
  assumes IH: "\<forall>j < n. \<forall>S s key s'. try_grant_next j Q E s key = Some s' \<longrightarrow>
      P (insert key S) s \<longrightarrow> P S s'"
    and res: "try_grant_once n Q E s key = Some (b, s')"
    and P: "P (insert key S) s"
  shows "P (insert key S) s' \<and> (b \<or> key_blocked Q s' key)"
proof -
  from res obtain m where n: "n = Suc m" by (cases n) (auto simp: try_grant_once.simps)
  show ?thesis
  proof (cases "fmlookup (locks s) key")
  case None
  with res P show ?thesis by (auto simp: try_grant_once.simps n key_blocked_def)
next
  case (Some l)
  show ?thesis
  proof (cases "lq_front Q (queue l)")
    case None
    with res P Some show ?thesis
      by (auto simp: try_grant_once.simps n key_blocked_def head_blocked_def front_None)
  next
    case (Some x)
    then obtain u p where head: "lq_front Q (queue l) = Some (u, p)" by (cases x) auto
    from head obtain q where pop: "lq_pop_front Q (queue l) = (Some (u, p), q)"
      and iter: "lq_iter Q (queue l) = (u, p) # lq_iter Q q"
      by (rule front_pop)
    note l = \<open>fmlookup (locks s) key = Some l\<close>
    show ?thesis
    proof (cases "pr_kind p")
      case PendExclusive
      with res P l head pop iter keep_exclusive [OF P l iter] show ?thesis
        by (auto simp: try_grant_once.simps n key_blocked_def head_blocked_def split: if_splits)
    next
      case PendReader
      with res P l head pop iter keep_reader [OF P l iter] show ?thesis
        by (auto simp: try_grant_once.simps n key_blocked_def head_blocked_def split: if_splits)
    next
      case PendWriter
      with res P l head pop iter keep_writer [OF P l iter] show ?thesis
        by (auto simp: try_grant_once.simps n key_blocked_def head_blocked_def split: if_splits)
    next
      case (PendComposite all remaining granted tokens cuuid)
      with res l head have "try_grant_composite m Q E s key = Some (b, s')"
        by (simp add: try_grant_once.simps n)
      moreover from IH n have "\<forall>j < m. \<forall>S s key s'. try_grant_next j Q E s key = Some s' \<longrightarrow>
          P (insert key S) s \<longrightarrow> P S s'" by (metis less_SucI)
      ultimately show ?thesis using composite_step [OF _ _ P l head PendComposite] by blast
    qed
  qed
  qed
qed

lemma try_grant_next_invariant:
  "try_grant_next n Q E s key = Some s' \<Longrightarrow> P (insert key S) s \<Longrightarrow> P S s'"
proof (induction n arbitrary: S s key s' rule: less_induct)
  case (less n)
  show ?case
  proof (cases n)
    case (Suc m)
    with less.prems obtain b t where once: "try_grant_once m Q E s key = Some (b, t)"
      and cont: "if \<not> b then s' = maybe_mark_idle Q E t key
                 else try_grant_next m Q E t key = Some s'"
      by (auto simp: try_grant_next.simps split: option.splits prod.splits if_splits)
    have t: "P (insert key S) t \<and> (b \<or> key_blocked Q t key)"
      using once_step [OF _ once less.prems(2)] less.IH Suc by (metis less_Suc_eq)
    show ?thesis
    proof (cases b)
      case True
      with t cont Suc show ?thesis using less.IH [of m t key s' S] by auto
    next
      case False
      with t cont show ?thesis using keep_stop by auto
    qed
  qed (use less.prems in \<open>simp add: try_grant_next.simps\<close>)
qed

end

context grant_invariant
begin

lemma run_grants_invariant: "P (insert key S) s \<Longrightarrow> P S (run_grants Q E s key)"
  by (rule try_grant_next_invariant [OF try_grant_next_total [OF order_refl]])

lemma fold_run_grants_invariant: "P (set ks \<union> S) s \<Longrightarrow> P S (fold (\<lambda>k s. run_grants Q E s k) ks s)"
  by (induction ks arbitrary: s) (auto intro: run_grants_invariant)

end

end
