(* ===== verification/Broker_Handlers.thy ===== *)
theory Broker_Handlers
  imports Broker_Scheduler
begin

text \<open>
  The request handlers of \<open>src/broker.rs\<close>, one definition each, and the dispatch
  \<open>handle_request_with_grant_overrides\<close>.  A handler takes the state under the mutex and
  returns the state it leaves; what it sends is appended to \<open>observed\<close> and \<open>outbox\<close>.
\<close>

section \<open>Exclusive locks\<close>

definition handle_exclusive_lock ::
  "'q pending_queue \<Rightarrow> host \<Rightarrow> 'q broker_state \<Rightarrow> client_id \<Rightarrow> string \<Rightarrow> string \<Rightarrow> int option \<Rightarrow>
   duration option \<Rightarrow> u32 option \<Rightarrow> bool \<Rightarrow> bool \<Rightarrow> bool \<Rightarrow> grant_overrides \<Rightarrow> 'q broker_state"
where
  "handle_exclusive_lock Q E s client uuid key pid ttl mx keep_locks_after_death force wait go =
     (let current_max = (case fmlookup (locks s) key of
                           Some l \<Rightarrow> ls_max l | None \<Rightarrow> max_lock_holders (config s));
          (effective_max, s) = resolve_max s current_max mx;
          (l, s) = lock_or_default Q E s key;
          l = l\<lparr>ls_max := effective_max\<rparr>;
          cap = unat (ls_max l)
      in if writer l = None \<and> hm_is_empty (readers l) \<and> hm_len (exclusive_holders l) < cap
         then
           (let (token, l) = next_or_forced_fencing_token l (grant_token go 0);
                (lock_uuid, s) = uuid_or_new E s (go_lock_uuid go);
                l = l\<lparr>exclusive_holders := fmupd lock_uuid
                       \<lparr>eh_client = client, eh_pid = pid, eh_fencing_token = token,
                        eh_keep_locks_after_death = keep_locks_after_death,
                        eh_composite_member = False\<rparr> (exclusive_holders l)\<rparr>;
                queue_depth = lq_len Q (queue l);
                s = note_issued (put_lock s key l) key token;
                s = observe_fencing_token s token;
                s = maybe_mark_idle Q E s key;
                s = track_holder s client lock_uuid [key] HoldExclusive;
                s = schedule_deadline E s ttl lock_uuid [key] HoldExclusive client
            in send s client
                 (RespLock \<lparr>lr_uuid = uuid, lr_key = key, lr_acquired = True,
                    lr_lock_request_count = queue_depth, lr_lock_uuid = Some lock_uuid,
                    lr_fencing_token = Some token, lr_readers_count = Some 0,
                    lr_error = None\<rparr>))
         else if \<not> wait
         then
           (let s = put_lock s key l;
                depth = (case fmlookup (locks s) key of
                           Some l \<Rightarrow> lq_len Q (queue l) | None \<Rightarrow> 0)
            in send s client
                 (RespLock \<lparr>lr_uuid = uuid, lr_key = key, lr_acquired = False,
                    lr_lock_request_count = depth, lr_lock_uuid = None,
                    lr_fencing_token = None, lr_readers_count = Some 0, lr_error = None\<rparr>))
         else
           (let pending = \<lparr>pr_request_uuid = uuid, pr_client = client, pr_pid = pid,
                  pr_ttl = ttl, pr_grant_lock_uuid = go_lock_uuid go,
                  pr_grant_fencing_seed = go_fencing_seed go,
                  pr_keep_locks_after_death = keep_locks_after_death,
                  pr_kind = PendExclusive\<rparr>;
                l = l\<lparr>queue := (if force then snd (lq_push_front Q (queue l) uuid pending)
                                else snd (lq_push_back Q (queue l) uuid pending))\<rparr>;
                depth = lq_len Q (queue l);
                s = put_lock s key l;
                s = maybe_mark_idle Q E s key;
                s = track_pending s client key uuid
            in send s client
                 (RespLock \<lparr>lr_uuid = uuid, lr_key = key, lr_acquired = False,
                    lr_lock_request_count = depth, lr_lock_uuid = None,
                    lr_fencing_token = None, lr_readers_count = Some 0, lr_error = None\<rparr>)))"

section \<open>Composite locks\<close>

text \<open>\<open>keys.sort(); keys.dedup()\<close>\<close>

definition sort_dedup :: "string list \<Rightarrow> string list" where
  "sort_dedup keys = remdups_adj (sort keys)"

text \<open>The loop of the fast path: one token and one holder per key, and the largest token.\<close>

fun grant_composite_keys ::
  "'q pending_queue \<Rightarrow> host \<Rightarrow> client_id \<Rightarrow> int option \<Rightarrow> string \<Rightarrow> grant_overrides \<Rightarrow> nat \<Rightarrow>
   string list \<Rightarrow> (string, u64) fmap \<Rightarrow> u64 \<Rightarrow> 'q broker_state \<Rightarrow>
   (string, u64) fmap \<times> u64 \<times> 'q broker_state" where
  "grant_composite_keys Q E client pid cuuid go idx [] tokens max_token s =
     (tokens, max_token, s)"
| "grant_composite_keys Q E client pid cuuid go idx (k # ks) tokens max_token s =
     (let (l, s) = lock_or_default Q E s k;
          (token, l) = next_or_forced_fencing_token l (grant_token go (of_nat idx));
          l = l\<lparr>exclusive_holders := fmupd cuuid
                 \<lparr>eh_client = client, eh_pid = pid, eh_fencing_token = token,
                  eh_keep_locks_after_death = False, eh_composite_member = True\<rparr>
                 (exclusive_holders l)\<rparr>;
          s = note_issued (put_lock s k l) k token
      in grant_composite_keys Q E client pid cuuid go (Suc idx) ks (fmupd k token tokens)
           (if max_token < token then token else max_token) s)"

definition handle_composite_lock ::
  "'q pending_queue \<Rightarrow> host \<Rightarrow> 'q broker_state \<Rightarrow> client_id \<Rightarrow> string \<Rightarrow> string list \<Rightarrow>
   int option \<Rightarrow> duration option \<Rightarrow> bool \<Rightarrow> grant_overrides \<Rightarrow> 'q broker_state" where
  "handle_composite_lock Q E s client uuid keys pid ttl wait go =
     (if keys = [] \<or> MAX_COMPOSITE_KEYS < length keys
      then send s client
             (RespCompositeLock \<lparr>cr_uuid = uuid, cr_keys = keys, cr_acquired = False,
                cr_lock_uuid = None, cr_fencing_tokens = None,
                cr_error = Some ''composite lock requires 1..=5 keys''\<rparr>)
      else
        (let keys = sort_dedup keys;
             free = list_all (\<lambda>k. case fmlookup (locks s) k of
                                    Some l \<Rightarrow> all_free l | None \<Rightarrow> True) keys;
             (cuuid, s) = uuid_or_new E s (go_lock_uuid go)
         in if free
            then
              (let (tokens, max_token, s) =
                     grant_composite_keys Q E client pid cuuid go 0 keys fmempty 0 s;
                   s = observe_fencing_token s max_token;
                   s = fold (\<lambda>k s. maybe_mark_idle Q E s k) keys s;
                   s = track_holder s client cuuid keys HoldExclusive;
                   s = schedule_deadline E s ttl cuuid keys HoldExclusive client
               in send s client
                    (RespCompositeLock \<lparr>cr_uuid = uuid, cr_keys = keys, cr_acquired = True,
                       cr_lock_uuid = Some cuuid, cr_fencing_tokens = Some tokens,
                       cr_error = None\<rparr>))
            else if \<not> wait
            then send s client
                   (RespCompositeLock \<lparr>cr_uuid = uuid, cr_keys = keys, cr_acquired = False,
                      cr_lock_uuid = None, cr_fencing_tokens = None, cr_error = None\<rparr>)
            else
              (let head = hd keys;
                   pending = \<lparr>pr_request_uuid = uuid, pr_client = client, pr_pid = pid,
                     pr_ttl = ttl, pr_grant_lock_uuid = None,
                     pr_grant_fencing_seed = go_fencing_seed go,
                     pr_keep_locks_after_death = False,
                     pr_kind = PendComposite keys keys [] fmempty cuuid\<rparr>;
                   (l, s) = lock_or_default Q E s head;
                   s = put_lock s head (l\<lparr>queue := snd (lq_push_back Q (queue l) uuid pending)\<rparr>);
                   s = maybe_mark_idle Q E s head;
                   s = track_pending s client head uuid;
                   s = send s client
                         (RespCompositeLock \<lparr>cr_uuid = uuid, cr_keys = keys,
                            cr_acquired = False, cr_lock_uuid = Some cuuid,
                            cr_fencing_tokens = None, cr_error = None\<rparr>)
               in run_grants Q E s head)))"

section \<open>Unlock\<close>

text \<open>What the loop over the requested keys accumulates.\<close>

record unlock_acc =
  ua_total_unlocked :: bool
  ua_last_depth :: nat
  ua_wiped :: "(client_id \<times> string) list"
  ua_removed :: "(client_id \<times> string) list"
  ua_ownership_denied :: bool

text \<open>
  One of the three match blocks (exclusive, reader, writer) for a named \<open>lock_uuid\<close>: the
  owner of the matching holder, if any, decides whether it is removed, denied or absent.
\<close>

definition unlock_owner ::
  "(client_id \<Rightarrow> bool) \<Rightarrow> string \<Rightarrow> client_id option \<Rightarrow> unlock_acc \<Rightarrow> bool \<times> unlock_acc" where
  "unlock_owner can_unlock target ownr a =
     (case ownr of
        None \<Rightarrow> (False, a)
      | Some c \<Rightarrow>
          if can_unlock c then (True, a\<lparr>ua_removed := ua_removed a @ [(c, target)]\<rparr>)
          else (False, a\<lparr>ua_ownership_denied := True\<rparr>))"

definition unlock_target ::
  "(client_id \<Rightarrow> bool) \<Rightarrow> string \<Rightarrow> 'q lock_state \<Rightarrow> unlock_acc \<Rightarrow> 'q lock_state \<times> unlock_acc" where
  "unlock_target can_unlock target l a =
     (let (removed_exclusive, a) =
            unlock_owner can_unlock target
              (map_option eh_client (fmlookup (exclusive_holders l) target)) a;
          l = (if removed_exclusive
               then l\<lparr>exclusive_holders := fmdrop target (exclusive_holders l)\<rparr> else l);
          (removed_reader, a) =
            unlock_owner can_unlock target
              (map_option rh_client (fmlookup (readers l) target)) a;
          l = (if removed_reader then l\<lparr>readers := fmdrop target (readers l)\<rparr> else l);
          (removed_writer, a) =
            unlock_owner can_unlock target
              (case writer l of
                 Some w \<Rightarrow> if rh_lock_uuid w = target then Some (rh_client w) else None
               | None \<Rightarrow> None) a;
          l = (if removed_writer then l\<lparr>writer := None\<rparr> else l)
      in (l, if removed_exclusive \<or> removed_reader \<or> removed_writer
             then a\<lparr>ua_total_unlocked := True\<rparr> else a))"

definition unlock_wipe ::
  "host \<Rightarrow> nat \<Rightarrow> 'q lock_state \<Rightarrow> unlock_acc \<Rightarrow> 'q lock_state \<times> unlock_acc" where
  "unlock_wipe E n l a =
     (let ex = map (\<lambda>lu. (eh_client (the (fmlookup (exclusive_holders l) lu)), lu))
                 (hash_iter E n (fmdom (exclusive_holders l)));
          rd = map (\<lambda>lu. (rh_client (the (fmlookup (readers l) lu)), lu))
                 (hash_iter E (Suc n) (fmdom (readers l)));
          wr = (case writer l of Some w \<Rightarrow> [(rh_client w, rh_lock_uuid w)] | None \<Rightarrow> []);
          any_existed = (\<not> hm_is_empty (exclusive_holders l) \<or> \<not> hm_is_empty (readers l) \<or>
                         writer l \<noteq> None);
          a = a\<lparr>ua_wiped := ua_wiped a @ ex @ rd @ wr\<rparr>
      in (l\<lparr>exclusive_holders := fmempty, readers := fmempty, writer := None\<rparr>,
          if any_existed then a\<lparr>ua_total_unlocked := True\<rparr> else a))"

fun unlock_keys ::
  "'q pending_queue \<Rightarrow> host \<Rightarrow> (client_id \<Rightarrow> bool) \<Rightarrow> string option \<Rightarrow> string list \<Rightarrow>
   unlock_acc \<Rightarrow> 'q broker_state \<Rightarrow> unlock_acc \<times> 'q broker_state" where
  "unlock_keys Q E can_unlock target [] a s = (a, s)"
| "unlock_keys Q E can_unlock target (key # ks) a s =
     (case fmlookup (locks s) key of
        None \<Rightarrow> unlock_keys Q E can_unlock target ks a s
      | Some l \<Rightarrow>
          (let ((l, a), s) =
                 (case target of
                    Some t \<Rightarrow> (unlock_target can_unlock t l a, s)
                  | None \<Rightarrow> (unlock_wipe E (reads s) l a, bump (bump s)));
               a = a\<lparr>ua_last_depth := lq_len Q (queue l)\<rparr>
           in unlock_keys Q E can_unlock target ks a (put_lock s key l)))"

text \<open>The error text of the response, if any.\<close>

definition unlock_error :: "bool \<Rightarrow> string option \<Rightarrow> unlock_acc \<Rightarrow> string option" where
  "unlock_error force lock_uuid a =
     (if \<not> ua_total_unlocked a \<and> ua_ownership_denied a
      then map_option (\<lambda>t. ''unlock lock_uuid `'' @ t @
        ''` is owned by another live client; use force=true to override'') lock_uuid
      else if \<not> ua_total_unlocked a \<and> force
      then map_option (\<lambda>t. ''unlock(force=true) lock_uuid `'' @ t @
        ''` did not match any current holder for the requested keys'') lock_uuid
      else None)"

text \<open>The clients' records of the locks that were removed.\<close>

definition unlock_untrack :: "string option \<Rightarrow> unlock_acc \<Rightarrow> 'q broker_state \<Rightarrow> 'q broker_state" where
  "unlock_untrack lock_uuid a s =
     (case lock_uuid of
        Some _ \<Rightarrow>
          if ua_total_unlocked a
          then fold (\<lambda>(c, lu) s. untrack_holder s c lu) (ua_removed a) s else s
      | None \<Rightarrow> fold (\<lambda>(c, lu) s. untrack_holder s c lu) (ua_wiped a) s)"

definition handle_unlock ::
  "'q pending_queue \<Rightarrow> host \<Rightarrow> 'q broker_state \<Rightarrow> client_id \<Rightarrow> string \<Rightarrow> string list \<Rightarrow>
   string option \<Rightarrow> bool \<Rightarrow> 'q broker_state" where
  "handle_unlock Q E s client uuid keys lock_uuid force =
     (if keys = []
      then send s client (RespError uuid ''unlock request requires at least one key'')
      else if lock_uuid = None \<and> \<not> force
      then send s client
             (RespUnlock \<lparr>ur_uuid = uuid, ur_keys = keys, ur_unlocked = False,
                ur_lock_request_count = 0,
                ur_error = Some ''unlock requires `_uuid` or `force=true`''\<rparr>)
      else
        (let live_clients = fmdom (clients s);
             can_unlock = (\<lambda>ownr. force \<or> ownr = client \<or> ownr |\<notin>| live_clients);
             (a, s) = unlock_keys Q E can_unlock lock_uuid keys
                        \<lparr>ua_total_unlocked = False, ua_last_depth = 0, ua_wiped = [],
                         ua_removed = [], ua_ownership_denied = False\<rparr> s;
             s = unlock_untrack lock_uuid a s;
             s = fold (\<lambda>key s. run_grants Q E s key) keys s
         in send s client
              (RespUnlock \<lparr>ur_uuid = uuid, ur_keys = keys, ur_unlocked = ua_total_unlocked a,
                 ur_lock_request_count = ua_last_depth a,
                 ur_error = unlock_error force lock_uuid a\<rparr>)))"

section \<open>Readers and writers\<close>

definition handle_register_read ::
  "'q pending_queue \<Rightarrow> host \<Rightarrow> 'q broker_state \<Rightarrow> client_id \<Rightarrow> string \<Rightarrow> string \<Rightarrow>
   grant_overrides \<Rightarrow> 'q broker_state" where
  "handle_register_read Q E s client uuid key go =
     (let (l, s) = lock_or_default Q E s key
      in if writer l = None \<and> hm_is_empty (exclusive_holders l) \<and> lq_is_empty Q (queue l)
         then
           (let (token, l) = next_or_forced_fencing_token l (grant_token go 0);
                (lock_uuid, s) = uuid_or_new E s (go_lock_uuid go);
                l = l\<lparr>readers := fmupd lock_uuid
                       \<lparr>rh_client = client, rh_fencing_token = token,
                        rh_lock_uuid = lock_uuid\<rparr> (readers l)\<rparr>;
                readers_count = of_nat (hm_len (readers l));
                s = note_issued (put_lock s key l) key token;
                s = observe_fencing_token s token;
                s = maybe_mark_idle Q E s key;
                s = track_holder s client lock_uuid [key] HoldRead
            in send s client
                 (RespRegisterRead \<lparr>rw_uuid = uuid, rw_key = key,
                    rw_readers_count = readers_count, rw_writer_flag = False,
                    rw_granted = True, rw_lock_uuid = Some lock_uuid,
                    rw_fencing_token = Some token\<rparr>))
         else
           (let l = l\<lparr>queue := snd (lq_push_back Q (queue l) uuid
                  \<lparr>pr_request_uuid = uuid, pr_client = client, pr_pid = None, pr_ttl = None,
                   pr_grant_lock_uuid = go_lock_uuid go,
                   pr_grant_fencing_seed = go_fencing_seed go,
                   pr_keep_locks_after_death = False, pr_kind = PendReader\<rparr>)\<rparr>;
                writer_flag = (writer l \<noteq> None);
                readers_count = of_nat (hm_len (readers l));
                s = put_lock s key l;
                s = maybe_mark_idle Q E s key;
                s = track_pending s client key uuid
            in send s client
                 (RespRegisterRead \<lparr>rw_uuid = uuid, rw_key = key,
                    rw_readers_count = readers_count, rw_writer_flag = writer_flag,
                    rw_granted = False, rw_lock_uuid = None, rw_fencing_token = None\<rparr>)))"

definition handle_register_write ::
  "'q pending_queue \<Rightarrow> host \<Rightarrow> 'q broker_state \<Rightarrow> client_id \<Rightarrow> string \<Rightarrow> string \<Rightarrow>
   grant_overrides \<Rightarrow> 'q broker_state" where
  "handle_register_write Q E s client uuid key go =
     (let (l, s) = lock_or_default Q E s key
      in if writer l = None \<and> hm_is_empty (readers l) \<and> hm_is_empty (exclusive_holders l)
         then
           (let (token, l) = next_or_forced_fencing_token l (grant_token go 0);
                (lock_uuid, s) = uuid_or_new E s (go_lock_uuid go);
                l = l\<lparr>writer := Some
                       \<lparr>rh_client = client, rh_fencing_token = token,
                        rh_lock_uuid = lock_uuid\<rparr>\<rparr>;
                s = note_issued (put_lock s key l) key token;
                s = observe_fencing_token s token;
                s = maybe_mark_idle Q E s key;
                s = track_holder s client lock_uuid [key] HoldWrite
            in send s client
                 (RespRegisterWrite \<lparr>rw_uuid = uuid, rw_key = key, rw_readers_count = 0,
                    rw_writer_flag = True, rw_granted = True, rw_lock_uuid = Some lock_uuid,
                    rw_fencing_token = Some token\<rparr>))
         else
           (let l = l\<lparr>queue := snd (lq_push_back Q (queue l) uuid
                  \<lparr>pr_request_uuid = uuid, pr_client = client, pr_pid = None, pr_ttl = None,
                   pr_grant_lock_uuid = go_lock_uuid go,
                   pr_grant_fencing_seed = go_fencing_seed go,
                   pr_keep_locks_after_death = False, pr_kind = PendWriter\<rparr>)\<rparr>;
                writer_flag = (writer l \<noteq> None);
                readers_count = of_nat (hm_len (readers l));
                s = put_lock s key l;
                s = maybe_mark_idle Q E s key;
                s = track_pending s client key uuid
            in send s client
                 (RespRegisterWrite \<lparr>rw_uuid = uuid, rw_key = key,
                    rw_readers_count = readers_count, rw_writer_flag = writer_flag,
                    rw_granted = False, rw_lock_uuid = None, rw_fencing_token = None\<rparr>)))"

definition handle_end_read ::
  "'q pending_queue \<Rightarrow> host \<Rightarrow> 'q broker_state \<Rightarrow> client_id \<Rightarrow> string \<Rightarrow> string \<Rightarrow>
   'q broker_state" where
  "handle_end_read Q E s client uuid key =
     (case fmlookup (locks s) key of
        Some l \<Rightarrow>
          (let to_remove = filter (\<lambda>lu. rh_client (the (fmlookup (readers l) lu)) = client)
                 (hash_iter E (reads s) (fmdom (readers l)));
               s = bump s;
               l = l\<lparr>readers := fold fmdrop to_remove (readers l)\<rparr>;
               s = put_lock s key l;
               s = fold (\<lambda>lu s. untrack_holder s client lu) to_remove s;
               s = send s client (RespEndRead uuid key (of_nat (hm_len (readers l))))
           in run_grants Q E s key)
      | None \<Rightarrow> send s client (RespEndRead uuid key 0))"

definition handle_end_write ::
  "'q pending_queue \<Rightarrow> host \<Rightarrow> 'q broker_state \<Rightarrow> client_id \<Rightarrow> string \<Rightarrow> string \<Rightarrow>
   'q broker_state" where
  "handle_end_write Q E s client uuid key =
     (let s = (case fmlookup (locks s) key of
                 Some l \<Rightarrow>
                   (let (l, s) =
                          (case writer l of
                             Some w \<Rightarrow>
                               if rh_client w = client
                               then (l\<lparr>writer := None\<rparr>, untrack_holder s client (rh_lock_uuid w))
                               else (l, s)
                           | None \<Rightarrow> (l, s));
                        s = put_lock s key l
                    in send s client
                         (RespEndWrite uuid key (of_nat (hm_len (readers l))) (writer l \<noteq> None)))
               | None \<Rightarrow> s)
      in run_grants Q E s key)"

section \<open>Dispatch\<close>

definition MAX_ZERO_ERROR :: string where
  "MAX_ZERO_ERROR =
     ''`max` must be >= 1; omit the field to keep the existing concurrency level''"

definition dispatch_lock ::
  "'q pending_queue \<Rightarrow> host \<Rightarrow> 'q broker_state \<Rightarrow> client_id \<Rightarrow> lock_fields \<Rightarrow> grant_overrides \<Rightarrow>
   'q broker_state" where
  "dispatch_lock Q E s client r go =
     (let wait = (case lk_wait r of Some w \<Rightarrow> w | None \<Rightarrow> True);
          ttl = map_option from_millis (lk_ttl r)
      in if lk_max r = Some 0
         then (case (lk_key r, lk_keys r) of
                 (_, Some ks) \<Rightarrow>
                   send s client
                     (RespCompositeLock \<lparr>cr_uuid = lk_uuid r, cr_keys = ks,
                        cr_acquired = False, cr_lock_uuid = None, cr_fencing_tokens = None,
                        cr_error = Some MAX_ZERO_ERROR\<rparr>)
               | (k, None) \<Rightarrow>
                   send s client
                     (RespLock \<lparr>lr_uuid = lk_uuid r,
                        lr_key = (case k of Some k \<Rightarrow> k | None \<Rightarrow> ''''),
                        lr_acquired = False, lr_lock_request_count = 0, lr_lock_uuid = None,
                        lr_fencing_token = None, lr_readers_count = None,
                        lr_error = Some MAX_ZERO_ERROR\<rparr>))
         else (case (lk_key r, lk_keys r) of
                 (Some k, None) \<Rightarrow>
                   handle_exclusive_lock Q E s client (lk_uuid r) k (lk_pid r) ttl (lk_max r)
                     (lk_keep_locks_after_death r) (lk_force r) wait go
               | (None, Some ks) \<Rightarrow>
                   handle_composite_lock Q E s client (lk_uuid r) ks (lk_pid r) ttl wait go
               | (Some _, Some _) \<Rightarrow>
                   send s client (RespError (lk_uuid r)
                     ''lock request must set either `key` or `keys`, not both'')
               | (None, None) \<Rightarrow>
                   send s client (RespError (lk_uuid r)
                     ''lock request requires `key` or `keys`'')))"

definition dispatch_unlock ::
  "'q pending_queue \<Rightarrow> host \<Rightarrow> 'q broker_state \<Rightarrow> client_id \<Rightarrow> unlock_fields \<Rightarrow> 'q broker_state"
where
  "dispatch_unlock Q E s client r =
     (case (ul_key r, ul_keys r) of
        (Some k, None) \<Rightarrow>
          handle_unlock Q E s client (ul_uuid r) [k] (ul_lock_uuid r) (ul_force r)
      | (None, Some ks) \<Rightarrow>
          handle_unlock Q E s client (ul_uuid r) ks (ul_lock_uuid r) (ul_force r)
      | (Some _, Some _) \<Rightarrow>
          send s client (RespError (ul_uuid r)
            ''unlock request must set either `key` or `keys`, not both'')
      | (None, None) \<Rightarrow>
          send s client (RespError (ul_uuid r) ''unlock request requires `key` or `keys`''))"

definition dispatch_lock_info ::
  "'q pending_queue \<Rightarrow> host \<Rightarrow> 'q broker_state \<Rightarrow> client_id \<Rightarrow> string \<Rightarrow> string \<Rightarrow>
   'q broker_state" where
  "dispatch_lock_info Q E s client uuid key =
     (case fmlookup (locks s) key of
        Some l \<Rightarrow>
          (let holders = hash_iter E (reads s) (fmdom (exclusive_holders l)) @
                 hash_iter E (Suc (reads s)) (fmdom (readers l)) @
                 (case writer l of Some w \<Rightarrow> [rh_lock_uuid w] | None \<Rightarrow> [])
           in send (bump (bump s)) client
                (RespLockInfo \<lparr>li_uuid = uuid, li_key = key, li_is_locked = (holders \<noteq> []),
                   li_lockholder_uuids = holders, li_lock_request_count = lq_len Q (queue l),
                   li_readers_count = of_nat (hm_len (readers l)),
                   li_writer_flag = (writer l \<noteq> None)\<rparr>))
      | None \<Rightarrow>
          send s client
            (RespLockInfo \<lparr>li_uuid = uuid, li_key = key, li_is_locked = False,
               li_lockholder_uuids = [], li_lock_request_count = 0, li_readers_count = 0,
               li_writer_flag = False\<rparr>))"

fun handle_request_with_grant_overrides ::
  "'q pending_queue \<Rightarrow> host \<Rightarrow> 'q broker_state \<Rightarrow> client_id \<Rightarrow> request \<Rightarrow> grant_overrides \<Rightarrow>
   'q broker_state" where
  "handle_request_with_grant_overrides Q E s client (ReqVersion uuid _) go =
     send s client (RespVersion uuid PROTOCOL_VERSION True None)"
| "handle_request_with_grant_overrides Q E s client (ReqAuth uuid _) go =
     send s client (RespAuth uuid True None)"
| "handle_request_with_grant_overrides Q E s client (ReqLock r) go =
     dispatch_lock Q E s client r go"
| "handle_request_with_grant_overrides Q E s client (ReqUnlock r) go =
     dispatch_unlock Q E s client r"
| "handle_request_with_grant_overrides Q E s client (ReqRegisterRead uuid key) go =
     handle_register_read Q E s client uuid key go"
| "handle_request_with_grant_overrides Q E s client (ReqRegisterWrite uuid key) go =
     handle_register_write Q E s client uuid key go"
| "handle_request_with_grant_overrides Q E s client (ReqEndRead uuid key) go =
     handle_end_read Q E s client uuid key"
| "handle_request_with_grant_overrides Q E s client (ReqEndWrite uuid key) go =
     handle_end_write Q E s client uuid key"
| "handle_request_with_grant_overrides Q E s client (ReqLockInfo uuid key) go =
     dispatch_lock_info Q E s client uuid key"
| "handle_request_with_grant_overrides Q E s client (ReqLs uuid) go =
     send (bump s) client (RespLs uuid (hash_iter E (reads s) (fmdom (locks s))))"
| "handle_request_with_grant_overrides Q E s client (ReqHeartbeat uuid) go =
     send s client (RespOk uuid)"

definition handle_request_with_grant_uuid ::
  "'q pending_queue \<Rightarrow> host \<Rightarrow> 'q broker_state \<Rightarrow> client_id \<Rightarrow> request \<Rightarrow> string option \<Rightarrow>
   'q broker_state" where
  "handle_request_with_grant_uuid Q E s client request grant_lock_uuid =
     handle_request_with_grant_overrides Q E s client request
       \<lparr>go_lock_uuid = grant_lock_uuid, go_fencing_seed = None\<rparr>"

definition handle_request ::
  "'q pending_queue \<Rightarrow> host \<Rightarrow> 'q broker_state \<Rightarrow> client_id \<Rightarrow> request \<Rightarrow> 'q broker_state" where
  "handle_request Q E s client request =
     handle_request_with_grant_uuid Q E s client request None"

end
