(* ===== verification/Broker_Lifecycle.thy ===== *)
theory Broker_Lifecycle
  imports Broker_Handlers
begin

text \<open>
  The rest of the public surface of \<open>src/broker.rs\<close>: registering and dropping clients,
  detaching locks from their owners, the TTL sweep with its pruning of idle keys, and the
  read-only metrics and contention listings.
\<close>

section \<open>Registering clients\<close>

text \<open>
  The search for a free id runs as often as there are clients, plus once; \<open>None\<close> means that it
  is still searching then.
\<close>

fun next_available_client_id ::
  "nat \<Rightarrow> 'q broker_state \<Rightarrow> client_id \<Rightarrow> client_id option" where
  "next_available_client_id 0 s i = None"
| "next_available_client_id (Suc n) s i =
     (if i = SNAPSHOT_DETACHED_CLIENT \<or> hm_contains_key (clients s) i
      then next_available_client_id n s (max (i + 1) 1)
      else Some i)"

definition insert_client_handle ::
  "'q broker_state \<Rightarrow> client_id \<Rightarrow> nat \<Rightarrow> 'q broker_state" where
  "insert_client_handle s i snd_chan =
     s\<lparr>next_client_id := max (i + 1) 1,
       clients := fmupd i \<lparr>sender = snd_chan, held_lock_uuids = fmempty,
         pending_request_uuids = []\<rparr> (clients s)\<rparr>"

definition register_client_with_id ::
  "'q broker_state \<Rightarrow> client_id \<Rightarrow> (client_id \<times> 'q broker_state) option" where
  "register_client_with_id s preferred_id =
     (let chan = reads s; s = bump s in
      map_option (\<lambda>i. (i, insert_client_handle s i chan))
        (next_available_client_id (Suc (hm_len (clients s))) s (max preferred_id 1)))"

definition register_client :: "'q broker_state \<Rightarrow> (client_id \<times> 'q broker_state) option" where
  "register_client s =
     (let chan = reads s; s = bump s in
      map_option (\<lambda>i. (i, insert_client_handle s i chan))
        (next_available_client_id (Suc (hm_len (clients s))) s (max (next_client_id s) 1)))"

section \<open>Dropping clients\<close>

definition remove_from_queue ::
  "'q pending_queue \<Rightarrow> 'q broker_state \<Rightarrow> string \<Rightarrow> string \<Rightarrow> 'q broker_state" where
  "remove_from_queue Q s key request_uuid =
     (case fmlookup (locks s) key of
        None \<Rightarrow> s
      | Some l \<Rightarrow> put_lock s key (l\<lparr>queue := snd (lq_remove Q (queue l) request_uuid)\<rparr>))"

text \<open>Dropping a client id that has no handle here, as a replica replays it.\<close>

definition drop_unregistered_client ::
  "'q pending_queue \<Rightarrow> host \<Rightarrow> 'q broker_state \<Rightarrow> client_id \<Rightarrow> 'q broker_state" where
  "drop_unregistered_client Q E s client =
     (let ks = hash_iter E (reads s) (fmdom (locks s));
          s = bump s;
          lk = (\<lambda>k. the (fmlookup (locks s) k));
          queued_removals = concat (map (\<lambda>k. map (\<lambda>(ru, _). (k, ru))
            (filter (\<lambda>(_, p). pr_client p = client) (lq_iter Q (queue (lk k))))) ks);
          exclusive_removals = concat (map (\<lambda>k. map (\<lambda>lu. (k, lu))
            (filter (\<lambda>lu. eh_client (the (fmlookup (exclusive_holders (lk k)) lu)) = client)
              (hash_iter E (reads s) (fmdom (exclusive_holders (lk k)))))) ks);
          reader_removals = concat (map (\<lambda>k. map (\<lambda>lu. (k, lu))
            (filter (\<lambda>lu. rh_client (the (fmlookup (readers (lk k)) lu)) = client)
              (hash_iter E (reads s) (fmdom (readers (lk k)))))) ks);
          writer_removals = filter (\<lambda>k. case writer (lk k) of
              Some w \<Rightarrow> rh_client w = client | None \<Rightarrow> False) ks;
          touched = fset_of_list (map fst queued_removals @ map fst exclusive_removals @
            map fst reader_removals @ writer_removals);
          s = fold (\<lambda>(k, ru) s. remove_from_queue Q s k ru) queued_removals s;
          s = fold (\<lambda>(k, lu) s. case fmlookup (locks s) k of None \<Rightarrow> s
                | Some l \<Rightarrow> put_lock s k
                    (l\<lparr>exclusive_holders := fmdrop lu (exclusive_holders l)\<rparr>))
                exclusive_removals s;
          s = fold (\<lambda>(k, lu) s. case fmlookup (locks s) k of None \<Rightarrow> s
                | Some l \<Rightarrow> put_lock s k (l\<lparr>readers := fmdrop lu (readers l)\<rparr>))
                reader_removals s;
          s = fold (\<lambda>k s. case fmlookup (locks s) k of None \<Rightarrow> s
                | Some l \<Rightarrow> put_lock s k (l\<lparr>writer := None\<rparr>)) writer_removals s
      in fold (\<lambda>k s. run_grants Q E (maybe_mark_idle Q E s k) k)
           (hash_iter E (reads s) touched) (bump s))"

text \<open>Releasing one key of one lock the dropped client held; whether the key counts as touched.\<close>

definition release_held_key ::
  "'q broker_state \<Rightarrow> string \<Rightarrow> rw_hold_kind \<Rightarrow> string \<Rightarrow> bool \<times> 'q broker_state" where
  "release_held_key s lock_uuid kind key =
     (case fmlookup (locks s) key of
        None \<Rightarrow> (False, s)
      | Some l \<Rightarrow>
          (case kind of
             HoldExclusive \<Rightarrow>
               if (case fmlookup (exclusive_holders l) lock_uuid of
                     Some h \<Rightarrow> eh_keep_locks_after_death h \<and> \<not> eh_composite_member h
                   | None \<Rightarrow> False)
               then (False, s)
               else (True, put_lock s key
                      (l\<lparr>exclusive_holders := fmdrop lock_uuid (exclusive_holders l)\<rparr>))
           | HoldRead \<Rightarrow>
               (True, put_lock s key (l\<lparr>readers := fmdrop lock_uuid (readers l)\<rparr>))
           | HoldWrite \<Rightarrow>
               (True, if (case writer l of Some w \<Rightarrow> rh_lock_uuid w = lock_uuid | None \<Rightarrow> False)
                      then put_lock s key (l\<lparr>writer := None\<rparr>) else s)))"

definition release_held_keys ::
  "string \<Rightarrow> rw_hold_kind \<Rightarrow> string list \<Rightarrow> string fset \<times> 'q broker_state \<Rightarrow>
   string fset \<times> 'q broker_state" where
  "release_held_keys lock_uuid kind keys =
     fold (\<lambda>key (touched, s).
       let (t, s) = release_held_key s lock_uuid kind key
       in (if t then finsert key touched else touched, s)) keys"

definition drop_client ::
  "'q pending_queue \<Rightarrow> host \<Rightarrow> 'q broker_state \<Rightarrow> client_id \<Rightarrow> 'q broker_state" where
  "drop_client Q E s client =
     (case fmlookup (clients s) client of
        None \<Rightarrow> drop_unregistered_client Q E s client
      | Some handle \<Rightarrow>
          (let s = s\<lparr>clients := fmdrop client (clients s)\<rparr>;
               s = fold (\<lambda>(k, ru) s. remove_from_queue Q s k ru) (pending_request_uuids handle) s;
               touched = fset_of_list (map fst (pending_request_uuids handle));
               held = held_lock_uuids handle;
               order = hash_iter E (reads s) (fmdom held);
               (touched, s) =
                 fold (\<lambda>lu acc. let kl = the (fmlookup held lu)
                        in release_held_keys lu (kl_rw_kind kl) (kl_keys kl) acc)
                   order (touched, bump s)
           in fold (\<lambda>k s. run_grants Q E s k) (hash_iter E (reads s) touched) (bump s)))"

section \<open>Detaching\<close>

definition detach_lock_from_client ::
  "'q broker_state \<Rightarrow> client_id \<Rightarrow> string \<Rightarrow> 'q broker_state" where
  "detach_lock_from_client s client lock_uuid = untrack_holder s client lock_uuid"

definition detach_holders :: "string \<Rightarrow> 'q lock_state \<Rightarrow> 'q lock_state" where
  "detach_holders lock_uuid l =
     (let l = (case fmlookup (exclusive_holders l) lock_uuid of None \<Rightarrow> l
          | Some h \<Rightarrow> l\<lparr>exclusive_holders := fmupd lock_uuid
              (h\<lparr>eh_client := SNAPSHOT_DETACHED_CLIENT\<rparr>) (exclusive_holders l)\<rparr>);
          l = (case fmlookup (readers l) lock_uuid of None \<Rightarrow> l
          | Some h \<Rightarrow> l\<lparr>readers := fmupd lock_uuid
              (h\<lparr>rh_client := SNAPSHOT_DETACHED_CLIENT\<rparr>) (readers l)\<rparr>)
      in case writer l of None \<Rightarrow> l
          | Some w \<Rightarrow> if rh_lock_uuid w = lock_uuid
              then l\<lparr>writer := Some (w\<lparr>rh_client := SNAPSHOT_DETACHED_CLIENT\<rparr>)\<rparr> else l)"

definition holder_clients :: "string \<Rightarrow> 'q lock_state \<Rightarrow> client_id list" where
  "holder_clients lock_uuid l =
     (case fmlookup (exclusive_holders l) lock_uuid of Some h \<Rightarrow> [eh_client h] | None \<Rightarrow> []) @
     (case fmlookup (readers l) lock_uuid of Some h \<Rightarrow> [rh_client h] | None \<Rightarrow> []) @
     (case writer l of
        Some w \<Rightarrow> if rh_lock_uuid w = lock_uuid then [rh_client w] else [] | None \<Rightarrow> [])"

definition detach_lock_owner :: "host \<Rightarrow> 'q broker_state \<Rightarrow> string \<Rightarrow> 'q broker_state" where
  "detach_lock_owner E s lock_uuid =
     (let touched = fset_of_list (concat (map (\<lambda>k. holder_clients lock_uuid
            (the (fmlookup (locks s) k))) (hash_iter E (reads s) (fmdom (locks s)))));
          s = bump (s\<lparr>locks := fmmap (detach_holders lock_uuid) (locks s)\<rparr>)
      in fold (\<lambda>client s.
           if client = SNAPSHOT_DETACHED_CLIENT then s
           else (case fmlookup (clients s) client of
                   None \<Rightarrow> s
                 | Some h \<Rightarrow>
                     (let h = h\<lparr>held_lock_uuids := fmdrop lock_uuid (held_lock_uuids h)\<rparr>;
                          s = s\<lparr>clients := fmupd client h (clients s)\<rparr>
                      in if hm_is_empty (held_lock_uuids h) \<and> pending_request_uuids h = []
                         then s\<lparr>clients := fmdrop client (clients s)\<rparr> else s)))
           (hash_iter_ids E (reads s) touched) (bump s))"

section \<open>The TTL sweep\<close>

definition lock_contains_uuid_for_kind :: "'q lock_state \<Rightarrow> string \<Rightarrow> rw_hold_kind \<Rightarrow> bool" where
  "lock_contains_uuid_for_kind l lock_uuid kind =
     (case kind of
        HoldExclusive \<Rightarrow> hm_contains_key (exclusive_holders l) lock_uuid
      | HoldRead \<Rightarrow> hm_contains_key (readers l) lock_uuid
      | HoldWrite \<Rightarrow>
          (case writer l of Some w \<Rightarrow> rh_lock_uuid w = lock_uuid | None \<Rightarrow> False))"

definition deadline_entry_is_still_held :: "'q broker_state \<Rightarrow> deadline_entry \<Rightarrow> bool" where
  "deadline_entry_is_still_held s entry =
     list_ex (\<lambda>k. case fmlookup (locks s) k of
                    Some l \<Rightarrow> lock_contains_uuid_for_kind l (de_lock_uuid entry) (de_kind entry)
                  | None \<Rightarrow> False) (de_keys entry)"

definition evict_holder :: "string \<Rightarrow> rw_hold_kind \<Rightarrow> 'q lock_state \<Rightarrow> 'q lock_state" where
  "evict_holder lock_uuid kind l =
     (case kind of
        HoldExclusive \<Rightarrow> l\<lparr>exclusive_holders := fmdrop lock_uuid (exclusive_holders l)\<rparr>
      | HoldRead \<Rightarrow> l\<lparr>readers := fmdrop lock_uuid (readers l)\<rparr>
      | HoldWrite \<Rightarrow>
          if (case writer l of Some w \<Rightarrow> rh_lock_uuid w = lock_uuid | None \<Rightarrow> False)
          then l\<lparr>writer := None\<rparr> else l)"

definition evict_deadline ::
  "instant \<times> u64 \<Rightarrow> string fset \<times> nat \<times> 'q broker_state \<Rightarrow> string fset \<times> nat \<times> 'q broker_state"
where
  "evict_deadline dk acc =
     (let (evicted, count, s) = acc in
      case fmlookup (deadlines s) dk of
        None \<Rightarrow> (evicted, count, s)
      | Some entry \<Rightarrow>
          (let s = s\<lparr>deadlines := fmdrop dk (deadlines s)\<rparr> in
           if \<not> deadline_entry_is_still_held s entry then (evicted, count, s)
           else
             (let s = fold (\<lambda>key s. case fmlookup (locks s) key of None \<Rightarrow> s
                    | Some l \<Rightarrow> put_lock s key
                        (evict_holder (de_lock_uuid entry) (de_kind entry) l))
                    (de_keys entry) s;
                  evicted = evicted |\<union>| fset_of_list (de_keys entry);
                  s = untrack_holder s (de_client entry) (de_lock_uuid entry)
              in (evicted, Suc count,
                  s\<lparr>ttl_evictions_total := ttl_evictions_total s + 1\<rparr>))))"

definition prune_idle_keys ::
  "'q pending_queue \<Rightarrow> host \<Rightarrow> 'q broker_state \<Rightarrow> instant \<Rightarrow> 'q broker_state" where
  "prune_idle_keys Q E s now =
     (let grace = idle_key_grace (config s) in
      if grace = 0 then s
      else (case checked_sub_instant E now grace of
              None \<Rightarrow> s
            | Some cutoff \<Rightarrow>
                (let prune_keys = filter (\<lambda>k. let l = the (fmlookup (locks s) k) in
                       (case timestamp_emptied l of
                          Some t \<Rightarrow> t \<le> cutoff \<and> is_idle Q l | None \<Rightarrow> False))
                       (hash_iter E (reads s) (fmdom (locks s)));
                     s = bump s;
                     s = s\<lparr>locks := fold fmdrop prune_keys (locks s)\<rparr>
                 in s\<lparr>idle_keys_pruned_total :=
                        idle_keys_pruned_total s + of_nat (length prune_keys)\<rparr>)))"

text \<open>The first half of the sweep: every deadline up to \<open>now\<close>, in order.\<close>

definition sweep_expired ::
  "'q broker_state \<Rightarrow> instant \<Rightarrow> string fset \<times> nat \<times> 'q broker_state" where
  "sweep_expired s now =
     (let cutoff = (now, - 1 :: u64);
          expired_keys = filter (\<lambda>k. k \<le> cutoff) (sorted_list_of_fset (fmdom (deadlines s)))
      in fold evict_deadline expired_keys ({||}, 0, s))"

definition tick_ttl ::
  "'q pending_queue \<Rightarrow> host \<Rightarrow> 'q broker_state \<Rightarrow> instant \<Rightarrow> nat \<times> 'q broker_state" where
  "tick_ttl Q E s now =
     (let (evicted, count, s) = sweep_expired s now;
          s = fold (\<lambda>k s. run_grants Q E s k) (hash_iter E (reads s) evicted) (bump s)
      in (count, prune_idle_keys Q E s now))"

section \<open>Metrics\<close>

record broker_metrics =
  bm_keys :: u64
  bm_holders :: u64
  bm_waiters :: u64
  bm_clients :: u64
  bm_pending_deadlines :: u64
  bm_ttl_evictions_total :: u64
  bm_max_concurrency_cap :: u32
  bm_concurrency_cap_clamps_total :: u64
  bm_fencing_watermark :: u64
  bm_idle_keys_pruned_total :: u64

definition lock_holders :: "'q lock_state \<Rightarrow> nat" where
  "lock_holders l = hm_len (exclusive_holders l) + hm_len (readers l) +
     (case writer l of Some _ \<Rightarrow> 1 | None \<Rightarrow> 0)"

definition broker_metrics_from_state ::
  "'q pending_queue \<Rightarrow> 'q broker_state \<Rightarrow> broker_metrics" where
  "broker_metrics_from_state Q s =
     (let ls = map (\<lambda>k. the (fmlookup (locks s) k)) (sorted_list_of_fset (fmdom (locks s))) in
      \<lparr>bm_keys = of_nat (hm_len (locks s)),
       bm_holders = sum_list (map (\<lambda>l. of_nat (lock_holders l)) ls),
       bm_waiters = sum_list (map (\<lambda>l. of_nat (lq_len Q (queue l))) ls),
       bm_clients = of_nat (hm_len (clients s)),
       bm_pending_deadlines = of_nat (hm_len (deadlines s)),
       bm_ttl_evictions_total = ttl_evictions_total s,
       bm_max_concurrency_cap = max_concurrency_cap (config s),
       bm_concurrency_cap_clamps_total = concurrency_cap_clamps_total s,
       bm_fencing_watermark = fencing_watermark s,
       bm_idle_keys_pruned_total = idle_keys_pruned_total s\<rparr>)"

record key_contention =
  kc_key :: string
  kc_exclusive_holders :: u64
  kc_readers :: u64
  kc_writers :: u64
  kc_waiters :: u64
  kc_fencing_counter :: u64
  kc_max :: u32

definition kc_score :: "key_contention \<Rightarrow> u64" where
  "kc_score c = kc_exclusive_holders c + kc_readers c + kc_writers c + kc_waiters c"

definition top_keys ::
  "'q pending_queue \<Rightarrow> host \<Rightarrow> 'q broker_state \<Rightarrow> nat \<Rightarrow> key_contention list" where
  "top_keys Q E s n =
     (if n = 0 then []
      else take n (sort_key (\<lambda>c. (- int (unat (kc_score c)), kc_key c))
        (filter (\<lambda>c. 0 < kc_score c)
          (map (\<lambda>k. let l = the (fmlookup (locks s) k) in
             \<lparr>kc_key = k,
              kc_exclusive_holders = of_nat (hm_len (exclusive_holders l)),
              kc_readers = of_nat (hm_len (readers l)),
              kc_writers = (case writer l of Some _ \<Rightarrow> 1 | None \<Rightarrow> 0),
              kc_waiters = of_nat (lq_len Q (queue l)),
              kc_fencing_counter = fencing_counter l,
              kc_max = ls_max l\<rparr>) (hash_iter E (reads s) (fmdom (locks s)))))))"

end
