(* ===== verification/Broker_Invariants.thy ===== *)
theory Broker_Invariants
  imports Broker_Lifecycle
begin

text \<open>
  The state invariant of the broker and its preservation by every public operation.
  \<open>broker_inv Q S s\<close> says that every lock of \<open>s\<close> is well formed (a writer excludes everyone
  else, readers exclude exclusive holders, the concurrency level is within the configured cap
  and so is the number of exclusive holders, the queue holds well-formed entries under
  distinct request UUIDs) and that, outside the keys of \<open>S\<close>, nobody waits on a free key.
  The handlers open keys by giving holders up and close them by driving the scheduler, which
  is the instance \<open>inv\<close> of \<open>grant_invariant\<close>.  The last section puts the operations together
  as the transition system \<open>reachable\<close>.
\<close>

section \<open>The invariant\<close>

text \<open>A queued entry is keyed by its request UUID; a composite entry waits on its first missing
  key, holds the ones before it, and its keys are in strictly ascending order.\<close>

fun pending_ok :: "string \<Rightarrow> string \<times> pending_request \<Rightarrow> bool" where
  "pending_ok key (u, p) \<longleftrightarrow> pr_request_uuid p = u \<and>
     (case pr_kind p of
        PendComposite all remaining granted tokens cuuid \<Rightarrow>
          remaining \<noteq> [] \<and> hd remaining = key \<and> granted @ remaining = all \<and>
          sorted_wrt (<) all \<and> length all \<le> MAX_COMPOSITE_KEYS \<and>
          fmdom tokens = fset_of_list granted
      | _ \<Rightarrow> True)"

definition queue_ok :: "'q pending_queue \<Rightarrow> string \<Rightarrow> 'q linked_queue \<Rightarrow> bool" where
  "queue_ok Q key q \<longleftrightarrow> distinct (map fst (lq_iter Q q)) \<and> (\<forall>x \<in> set (lq_iter Q q). pending_ok key x)"

definition holders_ok :: "u32 \<Rightarrow> 'q lock_state \<Rightarrow> bool" where
  "holders_ok cap l \<longleftrightarrow>
     (writer l \<noteq> None \<longrightarrow> readers l = fmempty \<and> exclusive_holders l = fmempty) \<and>
     (readers l \<noteq> fmempty \<longrightarrow> exclusive_holders l = fmempty) \<and>
     1 \<le> ls_max l \<and> ls_max l \<le> cap \<and> hm_len (exclusive_holders l) \<le> unat cap"

definition lock_wf :: "'q pending_queue \<Rightarrow> u32 \<Rightarrow> string \<Rightarrow> 'q lock_state \<Rightarrow> bool" where
  "lock_wf Q cap key l \<longleftrightarrow> holders_ok cap l \<and> queue_ok Q key (queue l)"

definition parked_ok :: "'q pending_queue \<Rightarrow> 'q lock_state \<Rightarrow> bool" where
  "parked_ok Q l \<longleftrightarrow> (all_free l \<longrightarrow> lq_iter Q (queue l) = [])"

definition broker_inv :: "'q pending_queue \<Rightarrow> string set \<Rightarrow> 'q broker_state \<Rightarrow> bool" where
  "broker_inv Q S s \<longleftrightarrow>
     locks_sat (\<lambda>k l. lock_wf Q (concurrency_cap (config s)) k l \<and> (k \<notin> S \<longrightarrow> parked_ok Q l)) s"

lemma broker_inv_frame:
  "locks t = locks s \<Longrightarrow> config t = config s \<Longrightarrow> broker_inv Q S t = broker_inv Q S s"
  by (simp add: broker_inv_def locks_sat_def)

lemma broker_inv_frames [simp]:
  "broker_inv Q S (bump s) = broker_inv Q S s"
  "broker_inv Q S (note_issued s k t) = broker_inv Q S s"
  "broker_inv Q S (observe_fencing_token s t) = broker_inv Q S s"
  "broker_inv Q S (upd_client s c f) = broker_inv Q S s"
  "broker_inv Q S (track_holder s c u ks kd) = broker_inv Q S s"
  "broker_inv Q S (untrack_holder s c u) = broker_inv Q S s"
  "broker_inv Q S (track_pending s c k u) = broker_inv Q S s"
  "broker_inv Q S (untrack_pending s c k u) = broker_inv Q S s"
  "broker_inv Q S (send s c r) = broker_inv Q S s"
  "broker_inv Q S (snd (uuid_or_new E s forced)) = broker_inv Q S s"
  "broker_inv Q S (snd (resolve_max s cur req)) = broker_inv Q S s"
  "broker_inv Q S (schedule_deadline E s ttl u ks kd c) = broker_inv Q S s"
  by (rule broker_inv_frame; simp)+

lemma broker_invD:
  assumes "broker_inv Q S s" and "fmlookup (locks s) k = Some l"
  shows "lock_wf Q (concurrency_cap (config s)) k l" and "k \<notin> S \<Longrightarrow> parked_ok Q l"
  using assms by (auto simp: broker_inv_def locks_sat_def)

lemma broker_inv_mono: "broker_inv Q S s \<Longrightarrow> S \<subseteq> T \<Longrightarrow> broker_inv Q T s"
  by (auto simp: broker_inv_def locks_sat_def)

lemma broker_inv_put:
  "broker_inv Q S s \<Longrightarrow> lock_wf Q (concurrency_cap (config s)) key l \<Longrightarrow>
   (key \<notin> S \<Longrightarrow> parked_ok Q l) \<Longrightarrow> broker_inv Q S (put_lock s key l)"
  by (simp add: broker_inv_def locks_sat_def)

lemma lock_wf_fields:
  "exclusive_holders l' = exclusive_holders l \<Longrightarrow> readers l' = readers l \<Longrightarrow> writer l' = writer l \<Longrightarrow>
   ls_max l' = ls_max l \<Longrightarrow> queue l' = queue l \<Longrightarrow> lock_wf Q cap key l' = lock_wf Q cap key l"
  by (simp add: lock_wf_def holders_ok_def)

lemma timestamp_irrelevant [simp]:
  "lock_wf Q cap key (l\<lparr>timestamp_emptied := t\<rparr>) = lock_wf Q cap key l"
  "parked_ok Q (l\<lparr>timestamp_emptied := t\<rparr>) = parked_ok Q l"
  "all_free (l\<lparr>timestamp_emptied := t\<rparr>) = all_free l"
  by (simp_all add: lock_wf_def holders_ok_def parked_ok_def all_free_def)

lemma broker_inv_mark_idle [simp]: "broker_inv Q S s \<Longrightarrow> broker_inv Q S (maybe_mark_idle Q E s key)"
  unfolding broker_inv_def maybe_mark_idle_frame by (rule locks_sat_mark_idle) simp_all

lemma concurrency_cap_pos: "1 \<le> concurrency_cap cfg"
  by (simp add: concurrency_cap_def)

lemma resolve_max_bounds:
  "1 \<le> fst (resolve_max s cur req)" "fst (resolve_max s cur req) \<le> concurrency_cap (config s)"
proof -
  have 1: "1 \<le> m" if "m \<noteq> 0" for m :: u32
    using that by (metis linorder_not_le word_less_1)
  show "1 \<le> fst (resolve_max s cur req)"
    using concurrency_cap_pos by (auto simp: resolve_max_def Let_def 1 split: option.split)
  show "fst (resolve_max s cur req) \<le> concurrency_cap (config s)"
    using concurrency_cap_pos [of "config s"]
    by (auto simp: resolve_max_def Let_def split: option.split)
qed

context broker_queue
begin

lemma queue_ok_new [simp]: "queue_ok Q key (lq_new Q)"
  by (simp add: queue_ok_def lq.iter_new)

lemma queue_ok_push_back:
  "queue_ok Q key q \<Longrightarrow> pending_ok key (u, p) \<Longrightarrow> queue_ok Q key (snd (lq_push_back Q q u p))"
  using lq.distinct_push_back [of q u p] by (auto simp: queue_ok_def lq.iter_push_back)

lemma queue_ok_push_front:
  "queue_ok Q key q \<Longrightarrow> pending_ok key (u, p) \<Longrightarrow> queue_ok Q key (snd (lq_push_front Q q u p))"
  using lq.distinct_push_front [of q u p] by (auto simp: queue_ok_def lq.iter_push_front)

lemma queue_ok_remove: "queue_ok Q key q \<Longrightarrow> queue_ok Q key (snd (lq_remove Q q u))"
  using lq.distinct_remove [of q u] set_drop_key [of u "lq_iter Q q"]
  by (auto simp: queue_ok_def lq.iter_remove)

lemma queue_ok_tail:
  "queue_ok Q key q \<Longrightarrow> lq_iter Q q = x # lq_iter Q q' \<Longrightarrow> queue_ok Q key q'"
  by (simp add: queue_ok_def)

lemma fresh_lock_wf: "lock_wf Q (concurrency_cap (config s)) key (fresh_lock Q E s)"
  using concurrency_cap_pos [of "config s"]
  by (auto simp: lock_wf_def holders_ok_def max_def min_def)

lemma fresh_lock_parked: "parked_ok Q (fresh_lock Q E s)"
  by (simp add: parked_ok_def lq.iter_new)

text \<open>\<open>lock_or_default\<close> keeps the invariant, and the lock it returns is as good as any.\<close>

lemma lock_or_default_inv:
  assumes "broker_inv Q S s"
  shows "broker_inv Q S (snd (lock_or_default Q E s key))"
    and "lock_wf Q (concurrency_cap (config s)) key (fst (lock_or_default Q E s key))"
    and "key \<notin> S \<Longrightarrow> parked_ok Q (fst (lock_or_default Q E s key))"
  using assms fresh_lock_wf [of s key E] fresh_lock_parked [of E s]
  by (cases "fmlookup (locks s) key";
      auto simp: lock_or_default_fresh lock_or_default_known intro: broker_inv_put dest: broker_invD)+

lemma wf_grant_exclusive:
  assumes wf: "lock_wf Q cap key l" and free: "writer l = None" "readers l = fmempty"
    and room: "hm_len (exclusive_holders l) < unat cap" and q: "queue_ok Q key q"
    and mx: "1 \<le> m" "m \<le> cap"
  shows "lock_wf Q cap key (l\<lparr>queue := q, ls_max := m, fencing_counter := c,
    exclusive_holders := fmupd u h (exclusive_holders l)\<rparr>)"
  using assms hm_len_upd_le [of u h "exclusive_holders l"] by (auto simp: lock_wf_def holders_ok_def)

end

lemma not_free_parked: "\<not> all_free l \<Longrightarrow> parked_ok Q l"
  by (simp add: parked_ok_def)

lemma can_grant_exclusive_room:
  assumes "can_grant_exclusive l" and "holders_ok cap l"
  shows "writer l = None" "readers l = fmempty" "hm_len (exclusive_holders l) < unat cap"
proof -
  let ?n = "hm_len (exclusive_holders l)"
  from assms show "writer l = None" "readers l = fmempty" by (simp_all add: can_grant_exclusive_def)
  from assms have "(of_nat ?n :: u32) < cap" "?n \<le> unat cap"
    by (auto simp: can_grant_exclusive_def holders_ok_def)
  moreover have "unat cap < 2 ^ LENGTH(32)" by (rule unsigned_less)
  then have "unat (of_nat ?n :: u32) = ?n"
    using \<open>?n \<le> unat cap\<close> by (simp add: unat_of_nat)
  ultimately show "?n < unat cap" by (simp add: word_less_nat_alt)
qed

lemma free_fields:
  assumes "all_free l"
  shows "writer l = None" "readers l = fmempty" "exclusive_holders l = fmempty"
  using assms by (simp_all add: all_free_def)

lemma cap_pos_nat: "0 < unat (concurrency_cap cfg)"
  using concurrency_cap_pos [of cfg] by (metis gr0I unat_eq_zero word_not_simps(1) word_le_0_iff zero_neq_one)

lemma holders_ok_exclusive:
  "holders_ok cap l \<Longrightarrow> writer l = None \<Longrightarrow> readers l = fmempty \<Longrightarrow>
   hm_len (exclusive_holders l) < unat cap \<Longrightarrow>
   exclusive_holders l' = fmupd u h (exclusive_holders l) \<Longrightarrow> readers l' = readers l \<Longrightarrow>
   writer l' = writer l \<Longrightarrow> 1 \<le> ls_max l' \<Longrightarrow> ls_max l' \<le> cap \<Longrightarrow> holders_ok cap l'"
  using hm_len_upd_le [of u h "exclusive_holders l"] by (auto simp: holders_ok_def)

lemma holders_ok_reader:
  "holders_ok cap l \<Longrightarrow> writer l = None \<Longrightarrow> exclusive_holders l = fmempty \<Longrightarrow>
   holders_ok cap (l\<lparr>readers := r\<rparr>)"
  by (auto simp: holders_ok_def)

lemma holders_ok_writer:
  "holders_ok cap l \<Longrightarrow> readers l = fmempty \<Longrightarrow> exclusive_holders l = fmempty \<Longrightarrow>
   holders_ok cap (l\<lparr>writer := w\<rparr>)"
  by (auto simp: holders_ok_def)

lemma holders_ok_fields:
  "exclusive_holders l' = exclusive_holders l \<Longrightarrow> readers l' = readers l \<Longrightarrow> writer l' = writer l \<Longrightarrow>
   ls_max l' = ls_max l \<Longrightarrow> holders_ok cap l' = holders_ok cap l"
  by (simp add: holders_ok_def)

lemma holders_ok_queue [simp]: "holders_ok cap (l\<lparr>queue := q\<rparr>) = holders_ok cap l"
  by (simp add: holders_ok_def)

lemma holders_ok_tokened [simp]: "holders_ok cap (tokened l q f) = holders_ok cap l"
  by (simp add: holders_ok_def)

lemma broker_inv_locks_put:
  assumes "broker_inv Q S s" and "locks t = fmupd key l (locks s)" and "config t = config s"
    and "lock_wf Q (concurrency_cap (config s)) key l" and "key \<notin> S \<Longrightarrow> parked_ok Q l"
  shows "broker_inv Q S t"
proof -
  have "broker_inv Q S t = broker_inv Q S (put_lock s key l)"
    by (rule broker_inv_frame) (simp_all add: assms)
  with assms broker_inv_put show ?thesis by metis
qed

lemma pending_ok_requeued:
  assumes "pending_ok key (u, pop)"
    and "pr_kind pop = PendComposite all (key # nk # r) granted tokens cuuid"
  shows "pending_ok nk (pr_request_uuid pop, composite_requeued pop key token)"
  using assms by (auto simp: composite_requeued_def)

context broker_queue
begin

lemma head_ok:
  assumes "broker_inv Q S s" and "fmlookup (locks s) key = Some l"
    and "lq_iter Q (queue l) = (u, p) # lq_iter Q q"
  shows "holders_ok (concurrency_cap (config s)) l" "queue_ok Q key q" "pending_ok key (u, p)"
  using broker_invD(1) [OF assms(1,2)] assms(3)
  by (auto simp: lock_wf_def queue_ok_def)

lemma keep_exclusive_inv:
  assumes inv: "broker_inv Q (insert key S) s" and l: "fmlookup (locks s) key = Some l"
    and it: "lq_iter Q (queue l) = (u, head) # lq_iter Q q" and can: "can_grant_exclusive l"
  shows "broker_inv Q (insert key S) (grant_exclusive_head Q E s key l head q)"
proof -
  note ok = head_ok [OF inv l it] and room = can_grant_exclusive_room [OF can head_ok(1) [OF inv l it]]
  obtain v h where eff: "locks (grant_exclusive_head Q E s key l head q) =
     fmupd key ((tokened l q (pr_grant_fencing_seed head))
       \<lparr>exclusive_holders := fmupd v h (exclusive_holders l)\<rparr>) (locks s)"
    using grant_exclusive_head_effect by blast
  have "holders_ok (concurrency_cap (config s)) ((tokened l q (pr_grant_fencing_seed head))
       \<lparr>exclusive_holders := fmupd v h (exclusive_holders l)\<rparr>)"
    by (rule holders_ok_exclusive [OF ok(1) room]) (use ok(1) in \<open>auto simp: holders_ok_def\<close>)
  then show ?thesis
    using ok(2) by (intro broker_inv_locks_put [OF inv eff]) (simp_all add: lock_wf_def)
qed

lemma keep_reader_inv:
  assumes inv: "broker_inv Q (insert key S) s" and l: "fmlookup (locks s) key = Some l"
    and it: "lq_iter Q (queue l) = (u, head) # lq_iter Q q" and can: "can_grant_reader l"
  shows "broker_inv Q (insert key S) (grant_reader_head Q E s key l head q)"
proof -
  note ok = head_ok [OF inv l it]
  obtain v h where eff: "locks (grant_reader_head Q E s key l head q) =
     fmupd key ((tokened l q (pr_grant_fencing_seed head))\<lparr>readers := fmupd v h (readers l)\<rparr>) (locks s)"
    using grant_reader_head_effect by blast
  show ?thesis
    using ok can
    by (intro broker_inv_locks_put [OF inv eff])
      (simp_all add: lock_wf_def holders_ok_reader can_grant_reader_def)
qed

lemma keep_writer_inv:
  assumes inv: "broker_inv Q (insert key S) s" and l: "fmlookup (locks s) key = Some l"
    and it: "lq_iter Q (queue l) = (u, head) # lq_iter Q q" and can: "all_free l"
  shows "broker_inv Q (insert key S) (grant_writer_head Q E s key l head q)"
proof -
  note ok = head_ok [OF inv l it]
  obtain w where eff: "locks (grant_writer_head Q E s key l head q) =
     fmupd key ((tokened l q (pr_grant_fencing_seed head))\<lparr>writer := Some w\<rparr>) (locks s)"
    using grant_writer_head_effect by blast
  show ?thesis
    using ok free_fields [OF can]
    by (intro broker_inv_locks_put [OF inv eff]) (simp_all add: lock_wf_def holders_ok_writer)
qed

lemma composite_mid_inv:
  assumes inv: "broker_inv Q (insert key S) s" and l: "fmlookup (locks s) key = Some l"
    and it: "lq_iter Q (queue l) = (u, pop) # lq_iter Q q" and can: "all_free l"
  shows "broker_inv Q S (composite_mid Q E s key l pop q)"
proof -
  note ok = head_ok [OF inv l it] and free = free_fields [OF can]
  let ?l = "(tokened l q (composite_forced pop key))
       \<lparr>exclusive_holders := fmupd (composite_lock_uuid (pr_kind pop))
          \<lparr>eh_client = pr_client pop, eh_pid = pr_pid pop,
           eh_fencing_token = token_of l (composite_forced pop key),
           eh_keep_locks_after_death = False, eh_composite_member = True\<rparr>
          (exclusive_holders l)\<rparr>"
  have "holders_ok (concurrency_cap (config s)) ?l"
    by (rule holders_ok_exclusive [OF ok(1) free(1,2)])
      (use ok(1) free cap_pos_nat [of "config s"] in \<open>auto simp: holders_ok_def\<close>)
  then have wf: "lock_wf Q (concurrency_cap (config s)) key ?l"
    using ok(2) by (simp add: lock_wf_def)
  have "parked_ok Q ?l" by (rule not_free_parked) (simp add: all_free_def)
  with wf inv show ?thesis by (auto simp: broker_inv_def locks_sat_def)
qed

lemma keep_composite_last_inv:
  assumes inv: "broker_inv Q (insert key S) s" and l: "fmlookup (locks s) key = Some l"
    and it: "lq_iter Q (queue l) = (u, pop) # lq_iter Q q" and can: "all_free l"
    and last: "tl (remaining_keys (pr_kind pop)) = []"
  shows "broker_inv Q S (fst (advance_composite Q E s key l pop q))"
proof -
  have "broker_inv Q S (fst (advance_composite Q E s key l pop q)) =
        broker_inv Q S (composite_mid Q E s key l pop q)"
    by (rule broker_inv_frame) (simp_all add: advance_composite_last(2,3) [OF last])
  with composite_mid_inv [OF inv l it can] show ?thesis by metis
qed

lemma keep_composite_next_inv:
  assumes inv: "broker_inv Q (insert key S) s" and l: "fmlookup (locks s) key = Some l"
    and it: "lq_iter Q (queue l) = (u, pop) # lq_iter Q q" and can: "all_free l"
    and kind: "pr_kind pop = PendComposite all (key # nk # r) granted tokens cuuid"
  shows "broker_inv Q (insert nk S) (fst (advance_composite Q E s key l pop q))"
proof -
  let ?m = "composite_mid Q E s key l pop q"
  let ?t = "token_of l (composite_forced pop key)"
  from head_ok(3) [OF inv l it]
  have ok: "pending_ok nk (pr_request_uuid pop, composite_requeued pop key ?t)"
    using kind by (rule pending_ok_requeued)
  have "broker_inv Q (insert nk S) ?m"
    using composite_mid_inv [OF inv l it can] by (rule broker_inv_mono) blast
  note d = lock_or_default_inv [OF this, where E = E and key = nk]
  have "broker_inv Q (insert nk S) (put_lock (snd (lock_or_default Q E ?m nk)) nk
     ((fst (lock_or_default Q E ?m nk))\<lparr>queue := snd (lq_push_back Q
        (queue (fst (lock_or_default Q E ?m nk))) (pr_request_uuid pop)
        (composite_requeued pop key ?t))\<rparr>))"
    using d(2) by (intro broker_inv_put [OF d(1)]) (simp_all add: lock_wf_def queue_ok_push_back ok del: pending_ok.simps)
  then show ?thesis
    by (subst advance_composite_next [where nk = nk and rest = r])
      (simp_all add: kind split_beta Let_def)
qed

lemma keep_stop_inv:
  assumes inv: "broker_inv Q (insert key S) s" and blocked: "key_blocked Q s key"
  shows "broker_inv Q S (maybe_mark_idle Q E s key)"
proof -
  have "parked_ok Q l" if "fmlookup (locks s) key = Some l" for l
  proof -
    have "lq_iter Q (queue l) = []" if free: "all_free l"
    proof (cases "lq_iter Q (queue l)")
      case (Cons x xs)
      obtain u p where x: "x = (u, p)" by fastforce
      have "lock_wf Q (concurrency_cap (config s)) key l" by (rule broker_invD(1) [OF inv]) fact
      then have "pending_ok key (u, p)" "1 \<le> ls_max l"
        using Cons x by (auto simp: lock_wf_def queue_ok_def holders_ok_def)
      with blocked Cons x free \<open>fmlookup (locks s) key = Some l\<close> show ?thesis
        by (auto simp: key_blocked_def head_blocked_def can_grant_exclusive_def
            can_grant_reader_def all_free_def neq_Nil_conv word_one_le
            split: pending_kind.splits)
    qed simp
    then show ?thesis by (simp add: parked_ok_def)
  qed
  with inv have "broker_inv Q S s" by (auto simp: broker_inv_def locks_sat_def)
  then show ?thesis by simp
qed

end

locale broker_env = broker_queue Q + hash_host E
  for Q :: "'q pending_queue" and E :: host

sublocale broker_env \<subseteq> inv: grant_invariant Q E "broker_inv Q"
proof unfold_locales
  fix key S l and u :: string and pop q all granted tokens cuuid and s :: "'q broker_state"
  assume "broker_inv Q (insert key S) s" "fmlookup (locks s) key = Some l"
    "lq_iter Q (queue l) = (u, pop) # lq_iter Q q"
    "pr_kind pop = PendComposite all [key] granted tokens cuuid" "all_free l"
  then have "broker_inv Q S (fst (advance_composite Q E s key l pop q))"
    by (intro keep_composite_last_inv) simp_all
  then show "broker_inv Q (insert key S) (fst (advance_composite Q E s key l pop q))"
    by (rule broker_inv_mono) blast
next
  fix key S l and u :: string and pop q all nk r granted tokens cuuid and s :: "'q broker_state"
  assume "broker_inv Q (insert key S) s" "fmlookup (locks s) key = Some l"
    "lq_iter Q (queue l) = (u, pop) # lq_iter Q q"
    "pr_kind pop = PendComposite all (key # nk # r) granted tokens cuuid" "all_free l"
  then have "broker_inv Q (insert nk S) (fst (advance_composite Q E s key l pop q))"
    by (intro keep_composite_next_inv)
  then show "broker_inv Q (insert nk (insert key S)) (fst (advance_composite Q E s key l pop q))"
    by (rule broker_inv_mono) blast
qed (blast intro: keep_exclusive_inv keep_reader_inv keep_writer_inv keep_stop_inv)+

interpretation demo_env: broker_env vecdeque demo_host
  by unfold_locales

context broker_env
begin

lemma queue_ok_empty_parked: "lq_is_empty Q (queue l) \<Longrightarrow> parked_ok Q l"
  by (simp add: parked_ok_def lq.is_empty_iter)

lemma next_or_forced_wf [simp]:
  "lock_wf Q cap key (snd (next_or_forced_fencing_token l f)) = lock_wf Q cap key l"
  by (rule lock_wf_fields) simp_all

lemma handle_exclusive_lock_inv [keeps_inv]:
  assumes inv: "broker_inv Q {} s"
  shows "broker_inv Q {} (handle_exclusive_lock Q E s client uuid key pid ttl mx keep force wait go)"
proof -
  define cur where "cur = (case fmlookup (locks s) key of
                           Some l \<Rightarrow> ls_max l | None \<Rightarrow> max_lock_holders (config s))"
  define s1 where "s1 = snd (resolve_max s cur mx)"
  define m where "m = fst (resolve_max s cur mx)"
  obtain l s2 where d: "lock_or_default Q E s1 key = (l, s2)" by fastforce
  have inv1: "broker_inv Q {} s1" using inv by (simp add: s1_def)
  have c1: "config s1 = config s" by (simp add: s1_def)
  have c2: "config s2 = config s" using lock_or_default_frame(3) [of Q E s1 key] by (simp add: d c1)
  note d' = lock_or_default_inv [OF inv1, where key = key and E = E, unfolded d fst_conv snd_conv]
  have m: "1 \<le> m" "m \<le> concurrency_cap (config s)"
    using resolve_max_bounds unfolding m_def by metis+
  let ?cap = "concurrency_cap (config s)"
  have H: "holders_ok ?cap l" and Qk: "queue_ok Q key (queue l)"
    using d'(2) by (simp_all add: lock_wf_def c1)
  have park: "parked_ok Q l" using d'(3) by simp
  have wait_wf: "lock_wf Q ?cap key (l\<lparr>ls_max := m, queue := q\<rparr>)" if "queue_ok Q key q" for q
    using H m that by (auto simp: lock_wf_def holders_ok_def)
  show ?thesis
  proof (cases "writer l = None \<and> hm_is_empty (readers l) \<and> hm_len (exclusive_holders l) < unat m")
    case True
    let ?f = "next_or_forced_fencing_token (l\<lparr>ls_max := m\<rparr>) (grant_token go 0)"
    have "unat m \<le> unat ?cap" using m(2) by (simp add: word_le_nat_alt)
    then have "holders_ok ?cap ((snd ?f)\<lparr>exclusive_holders := fmupd v h (exclusive_holders l)\<rparr>)" for v h
      using True m by (intro holders_ok_exclusive [OF H, where u = v and h = h]) simp_all
    then have wf: "lock_wf Q ?cap key ((snd ?f)\<lparr>exclusive_holders := fmupd v h (exclusive_holders l)\<rparr>)" for v h
      using Qk by (simp add: lock_wf_def)
    have pk: "parked_ok Q ((snd ?f)\<lparr>exclusive_holders := fmupd v h (exclusive_holders l)\<rparr>)" for v h
      by (rule not_free_parked) (simp add: all_free_def)
    from True show ?thesis
      unfolding handle_exclusive_lock_def cur_def [symmetric] Let_def
      by (simp add: split_beta d d' c2 s1_def [symmetric] m_def [symmetric] broker_inv_put wf pk)
  next
    case False
    have nf: "\<not> all_free (l\<lparr>ls_max := m, queue := q\<rparr>)" for q
      using False m word_one_le [of m] by (auto simp: all_free_def unat_gt_0)
    from False show ?thesis
      unfolding handle_exclusive_lock_def cur_def [symmetric] Let_def
      using wait_wf [of "queue l"] not_free_parked [OF nf [of "queue l"]]
      by (auto simp: split_beta d d' c2 s1_def [symmetric] m_def [symmetric] broker_inv_put wait_wf
          queue_ok_push_back queue_ok_push_front Qk not_free_parked nf)
  qed
qed


lemma handle_register_read_inv [keeps_inv]:
  assumes inv: "broker_inv Q {} s"
  shows "broker_inv Q {} (handle_register_read Q E s client uuid key go)"
proof -
  let ?l = "fst (lock_or_default Q E s key)"
  note d = lock_or_default_inv [OF inv, where key = key and E = E]
  have H: "holders_ok (concurrency_cap (config s)) ?l" and Qk: "queue_ok Q key (queue ?l)"
    using d(2) by (simp_all add: lock_wf_def)
  show ?thesis
  proof (cases "writer ?l = None \<and> hm_is_empty (exclusive_holders ?l) \<and> lq_is_empty Q (queue ?l)")
    case True
    let ?r = "\<lambda>v h. (snd (next_or_forced_fencing_token ?l (grant_token go 0)))
      \<lparr>readers := fmupd v h (readers ?l)\<rparr>"
    have "lock_wf Q (concurrency_cap (config s)) key (?r v h)" for v h
      using H Qk True by (auto simp: lock_wf_def holders_ok_def)
    moreover have "parked_ok Q (?r v h)" for v h
      by (rule not_free_parked) (simp add: all_free_def)
    ultimately show ?thesis
      using True d(1) by (simp add: handle_register_read_def split_beta Let_def broker_inv_put)
  next
    case False
    then have "\<not> all_free ?l"
      using d(3) by (auto simp: all_free_def parked_ok_def lq.is_empty_iter)
    then have "\<not> all_free (?l\<lparr>queue := q\<rparr>)" for q by (simp add: all_free_def)
    with False show ?thesis using H Qk d(1)
      by (auto simp: handle_register_read_def split_beta Let_def lock_wf_def queue_ok_push_back
          intro!: broker_inv_mark_idle broker_inv_put not_free_parked)
  qed
qed

lemma handle_register_write_inv [keeps_inv]:
  assumes inv: "broker_inv Q {} s"
  shows "broker_inv Q {} (handle_register_write Q E s client uuid key go)"
proof -
  let ?l = "fst (lock_or_default Q E s key)"
  note d = lock_or_default_inv [OF inv, where key = key and E = E]
  have H: "holders_ok (concurrency_cap (config s)) ?l" and Qk: "queue_ok Q key (queue ?l)"
    using d(2) by (simp_all add: lock_wf_def)
  show ?thesis
  proof (cases "all_free ?l")
    case True
    let ?r = "\<lambda>w. (snd (next_or_forced_fencing_token ?l (grant_token go 0)))\<lparr>writer := Some w\<rparr>"
    have "lock_wf Q (concurrency_cap (config s)) key (?r w)" for w
      using H Qk free_fields [OF True] by (auto simp: lock_wf_def holders_ok_def)
    moreover have "parked_ok Q (?r w)" for w
      by (rule not_free_parked) (simp add: all_free_def)
    ultimately show ?thesis
      using free_fields [OF True] d(1)
      by (simp add: handle_register_write_def split_beta Let_def broker_inv_put)
  next
    case False
    then have "\<not> all_free (?l\<lparr>queue := q\<rparr>)" for q by (simp add: all_free_def)
    with False show ?thesis using H Qk d(1)
      by (auto simp: handle_register_write_def split_beta Let_def lock_wf_def queue_ok_push_back
          all_free_def intro!: broker_inv_mark_idle broker_inv_put not_free_parked)
  qed
qed

end

text \<open>Giving holders up keeps a lock well formed; its key has to be driven afterwards.\<close>

definition released :: "'q lock_state \<Rightarrow> 'q lock_state \<Rightarrow> bool" where
  "released l l' \<longleftrightarrow>
     ls_max l' = ls_max l \<and> queue l' = queue l \<and>
     hm_len (exclusive_holders l') \<le> hm_len (exclusive_holders l) \<and>
     (readers l = fmempty \<longrightarrow> readers l' = fmempty) \<and> (writer l = None \<longrightarrow> writer l' = None)"

lemma holders_ok_released: "holders_ok cap l \<Longrightarrow> released l l' \<Longrightarrow> holders_ok cap l'"
  unfolding holders_ok_def released_def
  by (metis hm_len_eq_0 le_zero_eq order_trans)

lemma released_refl [simp]: "released l l"
  by (simp add: released_def)

lemma released_trans: "released l l' \<Longrightarrow> released l' l'' \<Longrightarrow> released l l''"
  by (auto simp: released_def)

lemma released_drop [simp]:
  "released l (l\<lparr>exclusive_holders := fmdrop u (exclusive_holders l)\<rparr>)"
  "released l (l\<lparr>readers := fmdrop u (readers l)\<rparr>)"
  "released l (l\<lparr>readers := fold fmdrop us (readers l)\<rparr>)"
  "released l (l\<lparr>writer := None\<rparr>)"
  "released l (l\<lparr>exclusive_holders := fmempty, readers := fmempty, writer := None\<rparr>)"
  by (auto simp: released_def hm_len_drop_le)

lemma released_unlock_target [simp]: "released l (fst (unlock_target can t l a))"
  unfolding unlock_target_def Let_def
  by (simp add: split_beta released_def hm_len_drop_le)

lemma released_unlock_wipe [simp]: "released l (fst (unlock_wipe E n l a))"
  unfolding unlock_wipe_def Let_def by (simp add: split_beta)

lemma released_evict [simp]: "released l (evict_holder u kind l)"
  by (cases kind) (simp_all add: evict_holder_def)

lemma broker_inv_release:
  assumes inv: "broker_inv Q S s" and "key \<in> S" and "fmlookup (locks s) key = Some l"
    and rel: "released l l'"
  shows "broker_inv Q S (put_lock s key l')"
  using assms broker_invD(1) [OF inv assms(3)] holders_ok_released [OF _ rel]
  by (intro broker_inv_put) (auto simp: lock_wf_def released_def)

lemma unlock_keys_inv:
  "broker_inv Q S s \<Longrightarrow> set ks \<subseteq> S \<Longrightarrow> broker_inv Q S (snd (unlock_keys Q E can t ks a s))"
proof (induction ks arbitrary: a s)
  case (Cons k ks)
  show ?case
  proof (cases "fmlookup (locks s) k")
    case None
    with Cons show ?thesis by simp
  next
    case (Some l)
    have "broker_inv Q S (put_lock s k (fst (unlock_target can u l a)))" for u
      using Cons.prems Some by (intro broker_inv_release [where l = l]) auto
    moreover have "broker_inv Q S (put_lock (bump (bump s)) k (fst (unlock_wipe E (reads s) l a)))"
      using Cons.prems Some by (intro broker_inv_release [where l = l]) auto
    ultimately show ?thesis
      using Cons.prems Cons.IH Some by (cases t) (auto simp: split_beta Let_def)
  qed
qed simp

lemma fold_frame_locks:
  assumes "\<And>x s. locks (f x s) = locks s" "\<And>x s. config (f x s) = config s"
  shows "broker_inv Q S (fold f xs s) = broker_inv Q S s"
  by (rule broker_inv_frame) (simp_all add: fold_frame [of locks] fold_frame [of config] assms)

lemma untrack_fold_inv [simp]:
  "broker_inv Q S (fold (\<lambda>(c, lu) s. untrack_holder s c lu) xs s) = broker_inv Q S s"
  "broker_inv Q S (fold (\<lambda>lu s. untrack_holder s c lu) us s) = broker_inv Q S s"
  by (simp_all add: fold_frame_locks split_beta)

lemma unlock_untrack_inv [simp]: "broker_inv Q S (unlock_untrack lu a s) = broker_inv Q S s"
  by (simp add: unlock_untrack_def split: option.split)

context broker_env
begin

lemma drive_keys: "broker_inv Q (set ks) s \<Longrightarrow> broker_inv Q {} (fold (\<lambda>k s. run_grants Q E s k) ks s)"
  by (rule inv.fold_run_grants_invariant) simp

lemma handle_unlock_inv [keeps_inv]:
  assumes inv: "broker_inv Q {} s"
  shows "broker_inv Q {} (handle_unlock Q E s client uuid keys lock_uuid force)"
proof -
  have *: "broker_inv Q (set keys) (snd (unlock_keys Q E can t keys a s))" for can t a
    by (rule unlock_keys_inv [OF broker_inv_mono [OF inv]]) simp_all
  show ?thesis
    using inv * by (simp add: handle_unlock_def Let_def split_beta drive_keys)
qed

lemma handle_end_read_inv [keeps_inv]:
  assumes inv: "broker_inv Q {} s"
  shows "broker_inv Q {} (handle_end_read Q E s client uuid key)"
proof (cases "fmlookup (locks s) key")
  case None
  with inv show ?thesis by (simp add: handle_end_read_def)
next
  case (Some l)
  have "broker_inv Q {key} (put_lock (bump s) key (l\<lparr>readers := fold fmdrop us (readers l)\<rparr>))" for us
    using Some inv broker_inv_mono [OF inv] by (intro broker_inv_release [where l = l]) auto
  then show ?thesis
    using Some by (auto simp: handle_end_read_def Let_def fold_frame_locks intro!: inv.run_grants_invariant)
qed

lemma handle_end_write_inv [keeps_inv]:
  assumes inv: "broker_inv Q {} s"
  shows "broker_inv Q {} (handle_end_write Q E s client uuid key)"
proof (cases "fmlookup (locks s) key")
  case None
  with inv broker_inv_mono [OF inv] show ?thesis
    by (auto simp: handle_end_write_def intro!: inv.run_grants_invariant)
next
  case (Some l)
  have i: "broker_inv Q {key} s" using inv by (rule broker_inv_mono) simp
  have "broker_inv Q {key} (put_lock (untrack_holder s c u) key (l\<lparr>writer := None\<rparr>))"
       "broker_inv Q {key} (put_lock s key l)" for c u
    using Some i by (auto intro!: broker_inv_release [where l = l])
  then show ?thesis
    using Some by (auto simp: handle_end_write_def Let_def split_beta
        intro!: inv.run_grants_invariant split: option.split)
qed

end

definition key_free :: "'q broker_state \<Rightarrow> string \<Rightarrow> bool" where
  "key_free s k = (case fmlookup (locks s) k of Some l \<Rightarrow> all_free l | None \<Rightarrow> True)"

lemma sort_dedup_props:
  "set (sort_dedup ks) = set ks" "sorted_wrt (<) (sort_dedup ks)"
  "length (sort_dedup ks) \<le> length ks" "sort_dedup ks = [] \<longleftrightarrow> ks = []"
proof -
  show "set (sort_dedup ks) = set ks" by (simp add: sort_dedup_def)
  have "sorted (sort_dedup ks)" "distinct (sort_dedup ks)"
    by (simp_all add: sort_dedup_def sorted_remdups_adj distinct_remdups_adj)
  then show "sorted_wrt (<) (sort_dedup ks)" by (simp add: strict_sorted_iff)
  show "length (sort_dedup ks) \<le> length ks"
    unfolding sort_dedup_def by (metis length_sort remdups_adj_length)
  show "sort_dedup ks = [] \<longleftrightarrow> ks = []"
    using \<open>set (sort_dedup ks) = set ks\<close> by (metis set_empty)
qed

lemma key_free_default: "key_free s k \<Longrightarrow> all_free (fst (lock_or_default Q E s k))"
  by (cases "fmlookup (locks s) k")
    (auto simp: key_free_def lock_or_default_fresh lock_or_default_known all_free_def)

context broker_env
begin

lemma grant_composite_keys_inv:
  "broker_inv Q S s \<Longrightarrow> distinct ks \<Longrightarrow> \<forall>k \<in> set ks. key_free s k \<Longrightarrow>
   broker_inv Q S (snd (snd (grant_composite_keys Q E client pid cuuid go i ks tokens mt s)))"
proof (induction ks arbitrary: i tokens mt s)
  case (Cons k ks)
  let ?d = "lock_or_default Q E s k" and ?f = "grant_token go (of_nat i)"
  let ?n = "next_or_forced_fencing_token (fst ?d) ?f"
  let ?l = "(snd ?n)\<lparr>exclusive_holders := fmupd cuuid
     \<lparr>eh_client = client, eh_pid = pid, eh_fencing_token = fst ?n,
      eh_keep_locks_after_death = False, eh_composite_member = True\<rparr> (exclusive_holders (fst ?d))\<rparr>"
  note d = lock_or_default_inv [OF Cons.prems(1), where key = k and E = E]
  have free: "all_free (fst ?d)" using Cons.prems(3) by (simp add: key_free_default)
  note ff = free_fields [OF free]
  have "holders_ok (concurrency_cap (config s)) ?l"
    by (rule holders_ok_exclusive [where l = "fst ?d", OF _ ff(1,2)])
      (use d(2) ff cap_pos_nat [of "config s"] in \<open>auto simp: lock_wf_def holders_ok_def\<close>)
  then have "lock_wf Q (concurrency_cap (config s)) k ?l"
    using d(2) by (simp add: lock_wf_def)
  moreover have "parked_ok Q ?l" by (rule not_free_parked) (simp add: all_free_def)
  ultimately have "broker_inv Q S (put_lock (snd ?d) k ?l)"
    using d(1) by (simp add: broker_inv_put)
  moreover have "\<forall>j \<in> set ks. key_free (put_lock (snd ?d) k ?l) j"
    using Cons.prems(2,3) by (auto simp: key_free_def lock_or_default_other)
  ultimately show ?case
    using Cons.prems(2) by (simp add: split_beta Let_def Cons.IH key_free_def)
qed simp

lemma fold_mark_idle_inv: "broker_inv Q S s \<Longrightarrow> broker_inv Q S (fold (\<lambda>k s. maybe_mark_idle Q E s k) ks s)"
  by (rule fold_invariant_set) simp_all

lemma handle_composite_lock_inv [keeps_inv]:
  assumes inv: "broker_inv Q {} s"
  shows "broker_inv Q {} (handle_composite_lock Q E s client uuid keys pid ttl wait go)"
proof (cases "keys = [] \<or> MAX_COMPOSITE_KEYS < length keys")
  case True
  with inv show ?thesis by (simp add: handle_composite_lock_def)
next
  case False
  let ?ks = "sort_dedup keys" and ?s = "snd (uuid_or_new E s (go_lock_uuid go))"
  let ?cuuid = "fst (uuid_or_new E s (go_lock_uuid go))"
  have inv1: "broker_inv Q {} ?s" using inv by simp
  have dist: "distinct ?ks" using sort_dedup_props(2) strict_sorted_iff by blast
  let ?free = "list_all (\<lambda>k. case fmlookup (locks s) k of Some l \<Rightarrow> all_free l | None \<Rightarrow> True) ?ks"
  show ?thesis
  proof (cases "?free \<or> \<not> wait")
    case True
    have "?free \<Longrightarrow> \<forall>k \<in> set ?ks. key_free ?s k"
      by (simp add: list_all_iff key_free_def)
    with True grant_composite_keys_inv [OF inv1 dist] inv1 False show ?thesis
      by (auto simp: handle_composite_lock_def Let_def split_beta fold_mark_idle_inv)
  next
    case wait: False
    let ?k = "hd ?ks" and ?d = "lock_or_default Q E ?s (hd ?ks)"
    define p where "p = \<lparr>pr_request_uuid = uuid, pr_client = client, pr_pid = pid,
       pr_ttl = ttl, pr_grant_lock_uuid = None, pr_grant_fencing_seed = go_fencing_seed go,
       pr_keep_locks_after_death = False, pr_kind = PendComposite ?ks ?ks [] fmempty ?cuuid\<rparr>"
    have ok: "pending_ok ?k (uuid, p)"
      using False sort_dedup_props [of keys] by (simp add: p_def)
    have "broker_inv Q {?k} ?s" using inv1 by (rule broker_inv_mono) simp
    note d = lock_or_default_inv [OF this, where key = ?k and E = E]
    have "broker_inv Q {?k} (put_lock (snd ?d) ?k
            ((fst ?d)\<lparr>queue := snd (lq_push_back Q (queue (fst ?d)) uuid p)\<rparr>))"
      using d ok by (intro broker_inv_put)
        (simp_all add: lock_wf_def queue_ok_push_back del: pending_ok.simps)
    with wait False show ?thesis
      by (auto simp: handle_composite_lock_def Let_def split_beta p_def
          intro!: inv.run_grants_invariant)
  qed
qed

lemma handle_request_with_grant_overrides_inv [keeps_inv]:
  assumes "broker_inv Q {} s"
  shows "broker_inv Q {} (handle_request_with_grant_overrides Q E s client req go)"
  using assms
  by (cases req)
    (simp_all add: dispatch_lock_def dispatch_unlock_def dispatch_lock_info_def Let_def keeps_inv
      split: option.split)

end

text \<open>Updating the locks of open keys by a function that only gives holders up.\<close>

definition map_lock :: "('q lock_state \<Rightarrow> 'q lock_state) \<Rightarrow> string \<Rightarrow> 'q broker_state \<Rightarrow> 'q broker_state" where
  "map_lock f key s = (case fmlookup (locks s) key of None \<Rightarrow> s | Some l \<Rightarrow> put_lock s key (f l))"

lemma map_lock_inv:
  assumes "broker_inv Q S s" and "key \<in> S" and "\<And>l. released l (f l)"
  shows "broker_inv Q S (map_lock f key s)"
  using assms by (auto simp: map_lock_def split: option.split intro: broker_inv_release)

lemma release_held_key_inv:
  assumes "broker_inv Q S s"
  shows "broker_inv Q (if fst (release_held_key s u kind key) then insert key S else S)
    (snd (release_held_key s u kind key))"
proof -
  have "broker_inv Q (insert key S) s" using assms by (rule broker_inv_mono) blast
  note r = broker_inv_release [OF this]
  show ?thesis
    using assms \<open>broker_inv Q (insert key S) s\<close>
    by (cases kind) (auto simp: release_held_key_def split: option.split intro!: r)
qed

lemma release_held_keys_inv:
  "broker_inv Q (S \<union> fset (fst acc)) (snd acc) \<Longrightarrow>
   broker_inv Q (S \<union> fset (fst (release_held_keys u kind ks acc))) (snd (release_held_keys u kind ks acc))"
proof (induction ks arbitrary: acc)
  case (Cons k ks)
  let ?r = "release_held_key (snd acc) u kind k"
  have "broker_inv Q (S \<union> fset (if fst ?r then finsert k (fst acc) else fst acc)) (snd ?r)"
    using release_held_key_inv [OF Cons.prems, of u kind k] by (auto split: if_splits)
  from Cons.IH [of "(if fst ?r then finsert k (fst acc) else fst acc, snd ?r)"] this
  show ?case by (simp add: release_held_keys_def split_beta Let_def)
qed (simp add: release_held_keys_def)

lemma release_all_inv:
  "broker_inv Q (fset (fst acc)) (snd acc) \<Longrightarrow>
   broker_inv Q (fset (fst (fold (\<lambda>lu acc. release_held_keys lu (kd lu) (ks lu) acc) us acc)))
     (snd (fold (\<lambda>lu acc. release_held_keys lu (kd lu) (ks lu) acc) us acc))"
  using release_held_keys_inv [of Q "{}"] by (induction us arbitrary: acc) auto

context broker_env
begin

lemma remove_from_queue_inv:
  assumes "broker_inv Q S s" and "key \<in> S"
  shows "broker_inv Q S (remove_from_queue Q s key u)"
  using assms broker_invD(1) [OF assms(1)]
  by (auto simp: remove_from_queue_def lock_wf_def queue_ok_remove split: option.split
      intro!: broker_inv_put)

lemma drive_idle_keys:
  "broker_inv Q (set ks) s \<Longrightarrow>
   broker_inv Q {} (fold (\<lambda>k s. run_grants Q E (maybe_mark_idle Q E s k) k) ks s)"
proof (induction ks arbitrary: s)
  case (Cons k ks)
  then have "broker_inv Q (insert k (set ks)) (maybe_mark_idle Q E s k)" by simp
  then have "broker_inv Q (set ks) (run_grants Q E (maybe_mark_idle Q E s k) k)"
    by (rule inv.run_grants_invariant)
  then show ?case using Cons.IH by simp
qed simp

lemma remove_all_from_queues_inv:
  assumes "broker_inv Q S s" and "fst ` set xs \<subseteq> S"
  shows "broker_inv Q S (fold (\<lambda>(k, ru) s. remove_from_queue Q s k ru) xs s)"
  using assms by (intro fold_invariant_set [where P = "broker_inv Q S"]) (auto intro!: remove_from_queue_inv)

lemma drop_unregistered_client_inv:
  assumes inv: "broker_inv Q {} s"
  shows "broker_inv Q {} (drop_unregistered_client Q E s client)"
proof -
  have m: "broker_inv Q S (fold (\<lambda>(k, lu) s. case fmlookup (locks s) k of None \<Rightarrow> s
       | Some l \<Rightarrow> put_lock s k (g lu l)) xs t)"
    if "broker_inv Q S t" "fst ` set xs \<subseteq> S" "\<And>lu l. released l (g lu l)"
    for g :: "string \<Rightarrow> 'q lock_state \<Rightarrow> 'q lock_state" and xs S t
  proof (rule fold_invariant_set [where P = "broker_inv Q S"])
    fix x s assume "x \<in> set xs" "broker_inv Q S s"
    moreover from \<open>x \<in> set xs\<close> that(2) have "fst x \<in> S" by blast
    ultimately show "broker_inv Q S ((\<lambda>(k, lu) s. case fmlookup (locks s) k of None \<Rightarrow> s
       | Some l \<Rightarrow> put_lock s k (g lu l)) x s)"
      using broker_inv_release [where Q = Q and S = S and s = s and key = "fst x"] that(3)
      by (auto simp: split_beta split: option.split)
  qed (fact that(1))
  have w: "broker_inv Q S (fold (\<lambda>k s. case fmlookup (locks s) k of None \<Rightarrow> s
       | Some l \<Rightarrow> put_lock s k (l\<lparr>writer := None\<rparr>)) xs t)"
    if "broker_inv Q S t" "set xs \<subseteq> S" for xs S t
    using that by (intro fold_invariant_set [where P = "broker_inv Q S"])
      (auto split: option.split intro: broker_inv_release)
  have all: "broker_inv Q {} (let s = fold (\<lambda>(k, ru) s. remove_from_queue Q s k ru) qs t;
          s = fold (\<lambda>(k, lu) s. case fmlookup (locks s) k of None \<Rightarrow> s
                | Some l \<Rightarrow> put_lock s k (l\<lparr>exclusive_holders := fmdrop lu (exclusive_holders l)\<rparr>)) es s;
          s = fold (\<lambda>(k, lu) s. case fmlookup (locks s) k of None \<Rightarrow> s
                | Some l \<Rightarrow> put_lock s k (l\<lparr>readers := fmdrop lu (readers l)\<rparr>)) rs s;
          s = fold (\<lambda>k s. case fmlookup (locks s) k of None \<Rightarrow> s
                | Some l \<Rightarrow> put_lock s k (l\<lparr>writer := None\<rparr>)) ws s
      in fold (\<lambda>k s. run_grants Q E (maybe_mark_idle Q E s k) k)
           (hash_iter E (reads s) (fset_of_list (map fst qs @ map fst es @ map fst rs @ ws))) (bump s))"
    if "broker_inv Q {} t" for qs es rs ws t
  proof -
    let ?T = "fst ` set qs \<union> fst ` set es \<union> fst ` set rs \<union> set ws"
    have "broker_inv Q ?T t" using that by (rule broker_inv_mono) simp
    note 1 = remove_all_from_queues_inv [OF this, of qs]
    note 2 = m [OF 1, of es "\<lambda>lu l. l\<lparr>exclusive_holders := fmdrop lu (exclusive_holders l)\<rparr>"]
    note 3 = m [OF 2, of rs "\<lambda>lu l. l\<lparr>readers := fmdrop lu (readers l)\<rparr>"]
    note 4 = w [OF 3, of ws]
    have "fset (fset_of_list (map fst qs @ map fst es @ map fst rs @ ws)) = ?T"
      by (auto simp: fset_of_list.rep_eq)
    then show ?thesis
      unfolding Let_def by (intro drive_idle_keys) (simp add: set_hash_iter, intro 4; auto)
  qed
  show ?thesis
    unfolding drop_unregistered_client_def Let_def
    by (rule all [unfolded Let_def]) (simp add: inv)
qed

lemma drop_client_inv [keeps_inv]:
  assumes inv: "broker_inv Q {} s"
  shows "broker_inv Q {} (drop_client Q E s client)"
proof (cases "fmlookup (clients s) client")
  case None
  with inv show ?thesis by (simp add: drop_client_def drop_unregistered_client_inv)
next
  case (Some h)
  let ?T = "fset_of_list (map fst (pending_request_uuids h))"
  let ?s = "fold (\<lambda>(k, ru) s. remove_from_queue Q s k ru) (pending_request_uuids h)
     (s\<lparr>clients := fmdrop client (clients s)\<rparr>)"
  have "broker_inv Q (fset ?T) (s\<lparr>clients := fmdrop client (clients s)\<rparr>)"
    using broker_inv_mono [OF inv, of "fset ?T"] by (simp add: broker_inv_def locks_sat_def)
  then have "broker_inv Q (fset ?T) ?s"
    by (rule remove_all_from_queues_inv) (simp add: fset_of_list.rep_eq)
  then have "broker_inv Q (fset (fst (?T, bump ?s))) (snd (?T, bump ?s))" by simp
  from release_all_inv [OF this, where kd = "\<lambda>lu. kl_rw_kind (the (fmlookup (held_lock_uuids h) lu))"
      and ks = "\<lambda>lu. kl_keys (the (fmlookup (held_lock_uuids h) lu))"
      and us = "hash_iter E (reads ?s) (fmdom (held_lock_uuids h))"]
  show ?thesis
    using Some by (auto simp: drop_client_def Let_def split_beta set_hash_iter intro!: drive_keys)
qed

end

text \<open>The public operations of the broker; each runs to its end under the one mutex.\<close>

datatype broker_op =
    OpRequest client_id request grant_overrides
  | OpRegister
  | OpRegisterWithId client_id
  | OpDropClient client_id
  | OpDetachFromClient client_id string
  | OpDetachOwner string
  | OpTick instant

fun perform :: "'q pending_queue \<Rightarrow> host \<Rightarrow> broker_op \<Rightarrow> 'q broker_state \<Rightarrow> 'q broker_state option" where
  "perform Q E (OpRequest client req go) s =
     Some (handle_request_with_grant_overrides Q E s client req go)"
| "perform Q E OpRegister s = map_option snd (register_client s)"
| "perform Q E (OpRegisterWithId i) s = map_option snd (register_client_with_id s i)"
| "perform Q E (OpDropClient client) s = Some (drop_client Q E s client)"
| "perform Q E (OpDetachFromClient client u) s = Some (detach_lock_from_client s client u)"
| "perform Q E (OpDetachOwner u) s = Some (detach_lock_owner E s u)"
| "perform Q E (OpTick now) s = Some (snd (tick_ttl Q E s now))"

inductive reachable :: "'q pending_queue \<Rightarrow> host \<Rightarrow> broker_config \<Rightarrow> 'q broker_state \<Rightarrow> bool"
  for Q E cfg where
  start: "reachable Q E cfg (broker_state_new E cfg)"
| step: "reachable Q E cfg s \<Longrightarrow> perform Q E op s = Some t \<Longrightarrow> reachable Q E cfg t"

text \<open>A run is a sequence of operations; \<open>None\<close> when one of them does not return.\<close>

fun run_ops :: "'q pending_queue \<Rightarrow> host \<Rightarrow> broker_op list \<Rightarrow> 'q broker_state \<Rightarrow> 'q broker_state option" where
  "run_ops Q E [] s = Some s"
| "run_ops Q E (op # ops) s = Option.bind (perform Q E op s) (run_ops Q E ops)"

lemma reachable_run:
  assumes "reachable Q E cfg s" and "run_ops Q E ops s = Some t"
  shows "reachable Q E cfg t"
  using assms by (induction ops arbitrary: s) (auto simp: bind_eq_Some_conv intro: reachable.step)

lemma run_ops_append:
  "run_ops Q E (xs @ ys) s = Option.bind (run_ops Q E xs s) (run_ops Q E ys)"
  by (induction xs arbitrary: s) (auto split: bind_splits)

lemma reachable_iff_run:
  "reachable Q E cfg s \<longleftrightarrow> (\<exists>ops. run_ops Q E ops (broker_state_new E cfg) = Some s)"
proof
  assume "reachable Q E cfg s"
  then show "\<exists>ops. run_ops Q E ops (broker_state_new E cfg) = Some s"
  proof (induction rule: reachable.induct)
    case start
    show ?case by (rule exI [of _ "[]"]) simp
  next
    case (step s op t)
    then obtain ops where "run_ops Q E ops (broker_state_new E cfg) = Some s" by blast
    with step.hyps(2) have "run_ops Q E (ops @ [op]) (broker_state_new E cfg) = Some t"
      by (simp add: run_ops_append)
    then show ?case by blast
  qed
qed (blast intro: reachable_run reachable.start)

lemma broker_inv_new: "broker_inv Q S (broker_state_new E cfg)"
  by (simp add: broker_inv_def locks_sat_def broker_state_new_def)

lemma register_inv [keeps_inv]:
  "register_client s = Some (i, t) \<Longrightarrow> broker_inv Q S t = broker_inv Q S s"
  "register_client_with_id s p = Some (i, t) \<Longrightarrow> broker_inv Q S t = broker_inv Q S s"
  by (auto simp: register_client_def register_client_with_id_def Let_def insert_client_handle_def
      intro!: broker_inv_frame)

lemma detach_holders_inv:
  "lock_wf Q cap k (detach_holders u l) = lock_wf Q cap k l"
  "parked_ok Q (detach_holders u l) = parked_ok Q l"
  by (auto simp: detach_holders_def Let_def lock_wf_def holders_ok_def parked_ok_def all_free_def
      hm_len_upd fmlookup_dom_iff split: option.split)

lemma detach_lock_owner_inv [keeps_inv]:
  assumes "broker_inv Q S s"
  shows "broker_inv Q S (detach_lock_owner E s u)"
proof -
  have 1: "broker_inv Q S (s\<lparr>locks := fmmap (detach_holders u) (locks s)\<rparr>)"
    using assms by (auto simp: broker_inv_def locks_sat_def detach_holders_inv)
  show ?thesis
    unfolding detach_lock_owner_def Let_def
    by (subst fold_frame_locks) (simp_all add: 1 split: option.split)
qed

lemma evict_deadline_inv:
  assumes "broker_inv Q (fset (fst acc)) (snd (snd acc))"
  shows "broker_inv Q (fset (fst (evict_deadline dk acc))) (snd (snd (evict_deadline dk acc)))"
proof -
  obtain ev c s where acc: "acc = (ev, c, s)" by (metis prod.collapse)
  have inv: "broker_inv Q (fset ev \<union> T) (s\<lparr>deadlines := d\<rparr>)" for d T
    using broker_inv_mono [of Q "fset ev" s "fset ev \<union> T"] assms
    by (simp add: acc broker_inv_def locks_sat_def)
  show ?thesis
  proof (cases "fmlookup (deadlines s) dk")
    case None
    with assms show ?thesis by (simp add: evict_deadline_def acc)
  next
    case (Some e)
    let ?T = "set (de_keys e)"
    let ?f = "\<lambda>key s. case fmlookup (locks s) key of None \<Rightarrow> s
        | Some l \<Rightarrow> put_lock s key (evict_holder (de_lock_uuid e) (de_kind e) l)"
    have 1: "broker_inv Q (fset ev \<union> ?T) (fold ?f (de_keys e) (s\<lparr>deadlines := d\<rparr>))" for d
    proof (rule fold_invariant_set [where P = "broker_inv Q (fset ev \<union> ?T)"])
      fix x t assume "x \<in> ?T" "broker_inv Q (fset ev \<union> ?T) t"
      then show "broker_inv Q (fset ev \<union> ?T) (?f x t)"
        using broker_inv_release [where Q = Q and S = "fset ev \<union> ?T" and s = t and key = x]
        by (auto split: option.split)
    qed (rule inv)
    have upd: "broker_inv Q S (t\<lparr>ttl_evictions_total := n\<rparr>) = broker_inv Q S t" for S t n
      by (rule broker_inv_frame) simp_all
    from 1 inv [of "{}"] Some show ?thesis
      by (simp add: evict_deadline_def acc Let_def upd fset_of_list.rep_eq)
  qed
qed

lemma evict_all_inv:
  "broker_inv Q (fset (fst acc)) (snd (snd acc)) \<Longrightarrow>
   broker_inv Q (fset (fst (fold evict_deadline ds acc))) (snd (snd (fold evict_deadline ds acc)))"
  by (induction ds arbitrary: acc) (simp_all add: evict_deadline_inv)

lemma prune_idle_keys_inv:
  assumes "broker_inv Q S s"
  shows "broker_inv Q S (prune_idle_keys Q E s now)"
  using assms
  by (auto simp: prune_idle_keys_def Let_def broker_inv_def locks_sat_def lookup_fold_fmdrop
      split: option.split if_splits)

context broker_env
begin

lemma tick_ttl_inv [keeps_inv]:
  assumes "broker_inv Q {} s"
  shows "broker_inv Q {} (snd (tick_ttl Q E s now))"
proof -
  have "broker_inv Q (fset (fst ({||}, 0 :: nat, s))) (snd (snd ({||} :: string fset, 0 :: nat, s)))"
    using assms by simp
  from evict_all_inv [OF this]
  show ?thesis
    by (auto simp: tick_ttl_def sweep_expired_def Let_def split_beta set_hash_iter intro!: prune_idle_keys_inv drive_keys)
qed

lemma perform_inv: "broker_inv Q {} s \<Longrightarrow> perform Q E op s = Some t \<Longrightarrow> broker_inv Q {} t"
  by (cases op) (auto simp: detach_lock_from_client_def keeps_inv)

lemma reachable_inv: "reachable Q E cfg s \<Longrightarrow> broker_inv Q {} s"
  by (induction rule: reachable.induct) (auto intro: perform_inv simp: broker_inv_new)

end

end
