(* ===== verification/Broker_Fencing.thy ===== *)
theory Broker_Fencing
  imports Broker_Invariants
begin

text \<open>
  Fencing tokens.  The model keeps the history \<open>issued\<close> of the tokens given out, as pairs of
  key and token in the order of the grants.  While the 64-bit counter has not reached its
  maximum and no token is dictated from outside (a \<open>grant_fencing_seed\<close>), the tokens of one
  key strictly increase, also across the pruning of the key: a key that is created again
  starts from the broker-wide watermark.

  \<open>fenced Q w s\<close> is the invariant.  The parameter \<open>w\<close> bounds every issued token; between
  operations it is the watermark, inside the loop of the composite fast path it runs ahead of
  it, because that loop records its largest token only at the end.
\<close>

section \<open>The invariant\<close>

definition tokens_of :: "string \<Rightarrow> 'q broker_state \<Rightarrow> u64 list" where
  "tokens_of key s = map snd (filter (\<lambda>x. fst x = key) (issued s))"

definition unseeded_queue :: "'q pending_queue \<Rightarrow> 'q linked_queue \<Rightarrow> bool" where
  "unseeded_queue Q q \<longleftrightarrow> (\<forall>x \<in> set (lq_iter Q q). pr_grant_fencing_seed (snd x) = None)"

definition unseeded :: "'q pending_queue \<Rightarrow> 'q broker_state \<Rightarrow> bool" where
  "unseeded Q s \<longleftrightarrow> locks_sat (\<lambda>k l. unseeded_queue Q (queue l)) s"

definition floor_of :: "'q broker_state \<Rightarrow> string \<Rightarrow> u64" where
  "floor_of s k = (case fmlookup (locks s) k of
     Some l \<Rightarrow> fencing_counter l | None \<Rightarrow> fencing_watermark s)"

definition fenced :: "'q pending_queue \<Rightarrow> u64 \<Rightarrow> 'q broker_state \<Rightarrow> bool" where
  "fenced Q w s \<longleftrightarrow> unseeded Q s \<and> fencing_watermark s \<le> w \<and>
     (w < - 1 \<longrightarrow>
        (\<forall>k. floor_of s k < - 1) \<and>
        (\<forall>(k, t) \<in> set (issued s). t \<le> floor_of s k \<and> t \<le> w) \<and>
        (\<forall>k. sorted_wrt (<) (tokens_of k s)))"

definition fencing_ok :: "'q pending_queue \<Rightarrow> 'q broker_state \<Rightarrow> bool" where
  "fencing_ok Q s \<longleftrightarrow> fenced Q (fencing_watermark s) s"

lemma unseeded_cong: "locks s = locks t \<Longrightarrow> unseeded Q s = unseeded Q t"
  by (simp add: unseeded_def locks_sat_def)

lemma fenced_frame:
  assumes "locks t = locks s" "issued t = issued s" "fencing_watermark t = fencing_watermark s"
  shows "fenced Q w t = fenced Q w s"
  using assms
  by (simp add: fenced_def floor_of_def tokens_of_def unseeded_cong [of t s] cong: option.case_cong)

lemma fenced_frames [simp]:
  "fenced Q w (bump s) = fenced Q w s"
  "fenced Q w (upd_client s c f) = fenced Q w s"
  "fenced Q w (track_holder s c u ks kd) = fenced Q w s"
  "fenced Q w (untrack_holder s c u) = fenced Q w s"
  "fenced Q w (track_pending s c k u) = fenced Q w s"
  "fenced Q w (untrack_pending s c k u) = fenced Q w s"
  "fenced Q w (send s c r) = fenced Q w s"
  "fenced Q w (snd (uuid_or_new E s forced)) = fenced Q w s"
  "fenced Q w (snd (resolve_max s cur req)) = fenced Q w s"
  "fenced Q w (schedule_deadline E s ttl u ks kd c) = fenced Q w s"
  by (rule fenced_frame; simp)+

lemma fencing_ok_frame:
  assumes "locks t = locks s" "issued t = issued s" "fencing_watermark t = fencing_watermark s"
  shows "fencing_ok Q t = fencing_ok Q s"
  using fenced_frame [OF assms] assms(3) by (simp add: fencing_ok_def)

lemma fencing_ok_frames [simp]:
  "fencing_ok Q (bump s) = fencing_ok Q s"
  "fencing_ok Q (upd_client s c f) = fencing_ok Q s"
  "fencing_ok Q (track_holder s c u ks kd) = fencing_ok Q s"
  "fencing_ok Q (untrack_holder s c u) = fencing_ok Q s"
  "fencing_ok Q (track_pending s c k u) = fencing_ok Q s"
  "fencing_ok Q (untrack_pending s c k u) = fencing_ok Q s"
  "fencing_ok Q (send s c r) = fencing_ok Q s"
  "fencing_ok Q (snd (uuid_or_new E s forced)) = fencing_ok Q s"
  "fencing_ok Q (snd (resolve_max s cur req)) = fencing_ok Q s"
  "fencing_ok Q (schedule_deadline E s ttl u ks kd c) = fencing_ok Q s"
  by (rule fencing_ok_frame; simp)+

lemma fenced_raise:
  assumes inv: "fenced Q w s" and un: "unseeded Q t" and wm: "fencing_watermark t \<le> w"
    and iss: "issued t = issued s" and up: "\<And>k. floor_of s k \<le> floor_of t k"
    and low: "\<And>k. w < - 1 \<Longrightarrow> floor_of s k < - 1 \<Longrightarrow> floor_of t k < - 1"
  shows "fenced Q w t"
proof (cases "w < - 1")
  case False
  with un wm show ?thesis by (simp add: fenced_def)
next
  case True
  with inv have old: "floor_of s k < - 1" "(k, v) \<in> set (issued s) \<Longrightarrow> v \<le> floor_of s k \<and> v \<le> w"
    "sorted_wrt (<) (tokens_of k s)" for k v
    by (auto simp: fenced_def)
  have "v \<le> floor_of t k \<and> v \<le> w" if "(k, v) \<in> set (issued t)" for k v
    using old(2) [of k v] that order_trans [OF _ up [of k]] by (simp add: iss)
  moreover have "tokens_of k t = tokens_of k s" for k by (simp add: tokens_of_def iss)
  ultimately show ?thesis
    using old(1,3) un wm low [OF True] unfolding fenced_def by auto
qed

text \<open>Replacing a lock by one with the same counter and an unseeded queue.\<close>

lemma fenced_put:
  assumes "fenced Q w s" and "fmlookup (locks s) key = Some l"
    and "fencing_counter l' = fencing_counter l" and "unseeded_queue Q (queue l')"
  shows "fenced Q w (put_lock s key l')"
proof -
  have "floor_of (put_lock s key l') = floor_of s"
    using assms by (auto simp: floor_of_def fun_eq_iff cong: option.case_cong)
  moreover have "tokens_of k (put_lock s key l') = tokens_of k s" for k by (simp add: tokens_of_def)
  moreover have "unseeded Q (put_lock s key l')"
    using assms by (auto simp: fenced_def unseeded_def locks_sat_def)
  ultimately show ?thesis using assms(1) by (simp add: fenced_def)
qed

lemma fenced_mark_idle [simp]:
  assumes "fenced Q w s"
  shows "fenced Q w (maybe_mark_idle Q E s key)"
proof -
  have "fenced Q w (put_lock s key (l\<lparr>timestamp_emptied := t\<rparr>))"
    if "fmlookup (locks s) key = Some l" for l t
    using assms that by (intro fenced_put) (auto simp: fenced_def unseeded_def locks_sat_def)
  then show ?thesis using assms by (auto simp: maybe_mark_idle_def split: option.split)
qed

lemma mark_idle_watermark [simp]:
  "fencing_watermark (maybe_mark_idle Q E s key) = fencing_watermark s"
  by (simp add: maybe_mark_idle_def split: option.split)

lemma fencing_ok_mark_idle [simp]:
  "fencing_ok Q s \<Longrightarrow> fencing_ok Q (maybe_mark_idle Q E s key)"
  by (simp add: fencing_ok_def)

lemma fencing_ok_put:
  "fencing_ok Q s \<Longrightarrow> fmlookup (locks s) key = Some l \<Longrightarrow> fencing_counter l' = fencing_counter l \<Longrightarrow>
   unseeded_queue Q (queue l') \<Longrightarrow> fencing_ok Q (put_lock s key l')"
  by (simp add: fencing_ok_def fenced_put)

text \<open>Issuing the next token of a key.\<close>

lemma fenced_issue:
  assumes inv: "fenced Q w s" and l: "fmlookup (locks s) key = Some l"
    and c: "fencing_counter l' = token_of l None" and q: "unseeded_queue Q (queue l')"
  shows "fenced Q (max w (token_of l None)) (note_issued (put_lock s key l') key (token_of l None))"
    (is "fenced Q ?w ?s")
proof -
  let ?t = "token_of l None"
  have un: "unseeded Q ?s"
    using inv q by (auto simp: fenced_def unseeded_def locks_sat_def)
  have wm: "fencing_watermark ?s \<le> ?w"
    using inv by (auto simp: fenced_def le_max_iff_disj)
  {
    assume "?w < - 1"
    then have w: "w < - 1" and t: "?t < - 1" by auto
    from inv w have old: "floor_of s k < - 1" "(k, v) \<in> set (issued s) \<Longrightarrow> v \<le> floor_of s k \<and> v \<le> w"
      "sorted_wrt (<) (tokens_of k s)" for k v
      by (auto simp: fenced_def)
    have "fencing_counter l < - 1" using old(1) [of key] l by (simp add: floor_of_def)
    from next_token_fresh(1) [OF this] have fresh: "floor_of s key < ?t"
      using l by (simp add: floor_of_def token_of_def)
    have fl: "floor_of ?s k = (if k = key then ?t else floor_of s k)" for k
      using c by (simp add: floor_of_def cong: option.case_cong)
    have below: "v < ?t" if "v \<in> set (tokens_of key s)" for v
    proof -
      from that have "(key, v) \<in> set (issued s)" by (auto simp: tokens_of_def)
      with old(2) fresh show ?thesis by (meson le_less_trans)
    qed
    have "tokens_of k ?s = (if k = key then tokens_of key s @ [?t] else tokens_of k s)" for k
      by (simp add: tokens_of_def)
    then have "sorted_wrt (<) (tokens_of k ?s)" for k
      using old(3) below by (simp add: sorted_wrt_append)
    moreover have "v \<le> floor_of ?s k \<and> v \<le> ?w" if "(k, v) \<in> set (issued ?s)" for k v
      using that old(2) [of k v] fresh by (auto simp: fl le_max_iff_disj)
    moreover have "floor_of ?s k < - 1" for k using old(1) t by (simp add: fl)
    ultimately have "(\<forall>k. floor_of ?s k < - 1) \<and>
        (\<forall>(k, v) \<in> set (issued ?s). v \<le> floor_of ?s k \<and> v \<le> ?w) \<and>
        (\<forall>k. sorted_wrt (<) (tokens_of k ?s))"
      by blast
  }
  with un wm show ?thesis unfolding fenced_def by blast
qed

lemma fenced_observe:
  assumes "fenced Q w s" and "w = max (fencing_watermark s) t"
  shows "fencing_ok Q (observe_fencing_token s t)"
proof -
  let ?o = "observe_fencing_token s t"
  have w: "fencing_watermark ?o = w" using assms(2) by (auto simp: observe_fencing_token_def max_def)
  have "fenced Q w ?o"
  proof (rule fenced_raise [OF assms(1)])
    show "unseeded Q ?o" using assms(1) by (simp add: fenced_def unseeded_cong [of ?o s])
    show "floor_of s k \<le> floor_of ?o k" for k
      using assms(2) w by (auto simp: floor_of_def split: option.split)
    show "floor_of ?o k < - 1" if "w < - 1" "floor_of s k < - 1" for k
      using that w by (auto simp: floor_of_def split: option.splits)
  qed (use w in \<open>simp_all add: assms(2)\<close>)
  with w show ?thesis by (simp add: fencing_ok_def)
qed

lemma fenced_grant:
  assumes "fencing_ok Q s" and "fmlookup (locks s) key = Some l"
    and "fencing_counter l' = token_of l None" and "unseeded_queue Q (queue l')"
  shows "fencing_ok Q (observe_fencing_token
    (note_issued (put_lock s key l') key (token_of l None)) (token_of l None))"
  by (rule fenced_observe [OF fenced_issue [OF assms(1) [unfolded fencing_ok_def] assms(2-4)]]) simp

section \<open>The scheduler\<close>

lemma tokened_counter_None [simp]: "fencing_counter (tokened l q None) = token_of l None"
  by (simp add: tokened_counter token_of_def next_or_forced_fencing_token_def next_fencing_token_def Let_def)

lemma fencedD:
  assumes "fenced Q w s" and "fmlookup (locks s) key = Some l"
  shows "unseeded_queue Q (queue l)"
  using assms by (simp add: fenced_def unseeded_def locks_sat_def)

lemma unseeded_head:
  assumes "fenced Q w s" and "fmlookup (locks s) key = Some l"
    and "lq_iter Q (queue l) = (u, p) # lq_iter Q q"
  shows "pr_grant_fencing_seed p = None" and "unseeded_queue Q q"
  using fencedD [OF assms(1,2)] assms(3) by (simp_all add: unseeded_queue_def)

text \<open>Any state with the locks, history and watermark of a grant is fenced.\<close>

lemma fenced_grant_like:
  assumes "fencing_ok Q s" and "fmlookup (locks s) key = Some l"
    and "fencing_counter l' = token_of l None" and "unseeded_queue Q (queue l')"
    and "locks t = fmupd key l' (locks s)" and "issued t = issued s @ [(key, token_of l None)]"
    and "fencing_watermark t = max (fencing_watermark s) (token_of l None)"
  shows "fencing_ok Q t"
proof -
  let ?g = "observe_fencing_token (note_issued (put_lock s key l') key (token_of l None)) (token_of l None)"
  have wm: "fencing_watermark ?g = max (fencing_watermark s) (token_of l None)"
    by (auto simp: observe_fencing_token_def max_def)
  have "fencing_ok Q t = fencing_ok Q ?g"
    by (rule fencing_ok_frame) (simp_all add: assms(5,6,7) wm)
  with fenced_grant [OF assms(1-4)] show ?thesis by simp
qed

locale fencing_env = broker_env Q E
  for Q :: "'q pending_queue" and E :: host +
  assumes clock_below_max: "wall_ms E n < - 1"
begin

lemma lock_or_default_fenced:
  assumes "fenced Q w s"
  shows "fenced Q w (snd (lock_or_default Q E s key))"
proof (cases "fmlookup (locks s) key")
  case (Some l)
  with assms show ?thesis by (simp add: lock_or_default_known)
next
  case None
  let ?t = "put_lock s key (fresh_lock Q E s)"
  have "fenced Q w ?t"
  proof (rule fenced_raise [OF assms])
    show "unseeded Q ?t"
      using assms by (auto simp: fenced_def unseeded_def locks_sat_def unseeded_queue_def lq.iter_new)
    show "floor_of s k \<le> floor_of ?t k" for k
      using None by (cases "k = key") (simp_all add: floor_of_def cong: option.case_cong)
    show "floor_of ?t k < - 1" if "floor_of s k < - 1" for k
      using that None clock_below_max
      by (cases "k = key") (simp_all add: floor_of_def cong: option.case_cong)
  qed (use assms in \<open>simp_all add: fenced_def\<close>)
  with None show ?thesis by (simp add: lock_or_default_fresh)
qed

lemma composite_mid_fenced:
  assumes inv: "fencing_ok Q s" and l: "fmlookup (locks s) key = Some l"
    and it: "lq_iter Q (queue l) = (u, pop) # lq_iter Q q"
  shows "fencing_ok Q (composite_mid Q E s key l pop q)"
  using unseeded_head [OF inv [unfolded fencing_ok_def] l it]
  by (intro fenced_grant_like [OF inv l]) (simp_all add: composite_forced_def)

lemma composite_next_fenced:
  assumes inv: "fencing_ok Q s" and l: "fmlookup (locks s) key = Some l"
    and it: "lq_iter Q (queue l) = (u, pop) # lq_iter Q q"
    and kind: "pr_kind pop = PendComposite all (key # nk # r) granted tokens cuuid"
  shows "fencing_ok Q (fst (advance_composite Q E s key l pop q))"
proof -
  let ?m = "composite_mid Q E s key l pop q" and ?t = "token_of l (composite_forced pop key)"
  let ?d = "lock_or_default Q E ?m nk"
  have d: "fenced Q (fencing_watermark ?m) (snd ?d)"
    by (rule lock_or_default_fenced [OF composite_mid_fenced [OF inv l it, unfolded fencing_ok_def]])
  have lk: "fmlookup (locks (snd ?d)) nk = Some (fst ?d)"
    by (rule lock_or_default_lookup) simp
  have "unseeded_queue Q (snd (lq_push_back Q (queue (fst ?d)) (pr_request_uuid pop)
          (composite_requeued pop key ?t)))"
    using fencedD [OF d lk] unseeded_head(1) [OF inv [unfolded fencing_ok_def] l it]
    by (auto simp: unseeded_queue_def lq.iter_push_back composite_requeued_def)
  then have "fenced Q (fencing_watermark ?m) (put_lock (snd ?d) nk
     ((fst ?d)\<lparr>queue := snd (lq_push_back Q (queue (fst ?d)) (pr_request_uuid pop)
        (composite_requeued pop key ?t))\<rparr>))"
    by (intro fenced_put [OF d lk]) simp_all
  then show ?thesis
    by (subst advance_composite_next [where nk = nk and rest = r])
      (simp_all add: kind split_beta Let_def fencing_ok_def)
qed

end

sublocale fencing_env \<subseteq> fencing: grant_invariant Q E "\<lambda>_. fencing_ok Q"
proof unfold_locales
  fix key and S :: "string set" and l and u :: string and p q and s :: "'q broker_state"
  assume a: "fencing_ok Q s" "fmlookup (locks s) key = Some l"
    "lq_iter Q (queue l) = (u, p) # lq_iter Q q"
  note h = unseeded_head [OF a(1) [unfolded fencing_ok_def] a(2,3)]
  have g: "fencing_ok Q t" if "locks t = fmupd key l' (locks s)"
    "fencing_counter l' = token_of l None" "queue l' = q"
    "issued t = issued s @ [(key, token_of l None)]"
    "fencing_watermark t = max (fencing_watermark s) (token_of l None)" for t l'
    using that h(2) by (intro fenced_grant_like [OF a(1,2)]) simp_all
  show "fencing_ok Q (grant_exclusive_head Q E s key l p q)"
  proof -
    obtain v h where "locks (grant_exclusive_head Q E s key l p q) = fmupd key ((tokened l q None)
        \<lparr>exclusive_holders := fmupd v h (exclusive_holders l)\<rparr>) (locks s)"
      using grant_exclusive_head_effect [of Q E s key l p q] unfolding h(1) by blast
    then show ?thesis by (rule g) (simp_all add: grant_head_tokens h(1))
  qed
  show "fencing_ok Q (grant_reader_head Q E s key l p q)"
  proof -
    obtain v h where "locks (grant_reader_head Q E s key l p q) = fmupd key ((tokened l q None)
        \<lparr>readers := fmupd v h (readers l)\<rparr>) (locks s)"
      using grant_reader_head_effect [of Q E s key l p q] unfolding h(1) by blast
    then show ?thesis by (rule g) (simp_all add: grant_head_tokens h(1))
  qed
  show "fencing_ok Q (grant_writer_head Q E s key l p q)"
  proof -
    obtain w where "locks (grant_writer_head Q E s key l p q) =
        fmupd key ((tokened l q None)\<lparr>writer := Some w\<rparr>) (locks s)"
      using grant_writer_head_effect [of Q E s key l p q] unfolding h(1) by blast
    then show ?thesis by (rule g) (simp_all add: grant_head_tokens h(1))
  qed
next
  fix key and S :: "string set" and l and u :: string and p q all granted tokens cuuid
    and s :: "'q broker_state"
  assume a: "fencing_ok Q s" "fmlookup (locks s) key = Some l"
    "lq_iter Q (queue l) = (u, p) # lq_iter Q q"
    "pr_kind p = PendComposite all [key] granted tokens cuuid"
  have "tl (remaining_keys (pr_kind p)) = []" by (simp add: a(4))
  note last = advance_composite_last [OF this, of Q E s key l q]
  have "fencing_ok Q (fst (advance_composite Q E s key l p q)) =
     fencing_ok Q (composite_mid Q E s key l p q)"
    by (rule fencing_ok_frame) (simp_all only: last)
  with composite_mid_fenced [OF a(1-3)] show "fencing_ok Q (fst (advance_composite Q E s key l p q))"
    by simp
next
  fix key and S :: "string set" and l and u :: string and p q all nk r granted tokens cuuid
    and s :: "'q broker_state"
  assume "fencing_ok Q s" "fmlookup (locks s) key = Some l"
    "lq_iter Q (queue l) = (u, p) # lq_iter Q q"
    "pr_kind p = PendComposite all (key # nk # r) granted tokens cuuid"
  then show "fencing_ok Q (fst (advance_composite Q E s key l p q))"
    by (rule composite_next_fenced)
next
  fix key and S :: "string set" and s :: "'q broker_state"
  assume "fencing_ok Q s"
  then show "fencing_ok Q (maybe_mark_idle Q E s key)"
    by (rule fencing_ok_mark_idle)
qed

section \<open>The handlers\<close>

lemma next_token_counter [simp]:
  "fencing_counter (snd (next_or_forced_fencing_token l None)) = token_of l None"
  "fst (next_or_forced_fencing_token l None) = token_of l None"
  by (simp_all add: token_of_def next_or_forced_fencing_token_def next_fencing_token_def Let_def)

lemma token_of_max [simp]: "token_of (l\<lparr>ls_max := m\<rparr>) f = token_of l f"
  by (simp add: token_of_def next_or_forced_fencing_token_def next_fencing_token_def Let_def
      split: option.split)

lemma grant_token_None: "go_fencing_seed go = None \<Longrightarrow> grant_token go n = None"
  by (simp add: grant_token_def)

lemma lookup_default: "fmlookup (locks (snd (lock_or_default Q E s key))) key = Some (fst (lock_or_default Q E s key))"
  by (rule lock_or_default_lookup) simp

lemma fencing_okD: "fencing_ok Q s \<Longrightarrow> fmlookup (locks s) key = Some l \<Longrightarrow> unseeded_queue Q (queue l)"
  unfolding fencing_ok_def by (rule fencedD)

context fencing_env
begin

lemma lock_or_default_fencing_ok: "fencing_ok Q s \<Longrightarrow> fencing_ok Q (snd (lock_or_default Q E s key))"
  by (simp add: fencing_ok_def lock_or_default_fenced)

lemma unseeded_push [simp]:
  "unseeded_queue Q q \<Longrightarrow> pr_grant_fencing_seed p = None \<Longrightarrow> unseeded_queue Q (snd (lq_push_back Q q u p))"
  "unseeded_queue Q q \<Longrightarrow> pr_grant_fencing_seed p = None \<Longrightarrow> unseeded_queue Q (snd (lq_push_front Q q u p))"
  "unseeded_queue Q q \<Longrightarrow> unseeded_queue Q (snd (lq_remove Q q u))"
  using set_drop_key [of u "lq_iter Q q"]
  by (auto simp: unseeded_queue_def lq.iter_push_back lq.iter_push_front lq.iter_remove)

text \<open>A grant and an enqueue on the lock that \<open>lock_or_default\<close> returns.\<close>

lemma default_fenced:
  fixes key :: string
  assumes "fencing_ok Q s"
  defines "d \<equiv> lock_or_default Q E s key"
  shows "fencing_counter l' = token_of (fst d) None \<Longrightarrow> queue l' = queue (fst d) \<Longrightarrow>
      fencing_ok Q (observe_fencing_token (note_issued (put_lock (snd d) key l') key
        (token_of (fst d) None)) (token_of (fst d) None))"
    and "fencing_counter l' = fencing_counter (fst d) \<Longrightarrow> unseeded_queue Q (queue l') \<Longrightarrow>
      fencing_ok Q (put_lock (snd d) key l')"
    and "unseeded_queue Q (queue (fst d))"
proof -
  have ok: "fencing_ok Q (snd d)" unfolding d_def by (rule lock_or_default_fencing_ok [OF assms(1)])
  have lk: "fmlookup (locks (snd d)) key = Some (fst d)" unfolding d_def by (rule lookup_default)
  show "fencing_counter l' = token_of (fst d) None \<Longrightarrow> queue l' = queue (fst d) \<Longrightarrow>
      fencing_ok Q (observe_fencing_token (note_issued (put_lock (snd d) key l') key
        (token_of (fst d) None)) (token_of (fst d) None))"
    using fencing_okD [OF ok lk] by (intro fenced_grant [OF ok lk]) simp_all
  show "fencing_counter l' = fencing_counter (fst d) \<Longrightarrow> unseeded_queue Q (queue l') \<Longrightarrow>
      fencing_ok Q (put_lock (snd d) key l')"
    by (rule fencing_ok_put [OF ok lk])
  show "unseeded_queue Q (queue (fst d))" by (rule fencing_okD [OF ok lk])
qed

lemma put_bump: "put_lock (bump s) key l = bump (put_lock s key l)"
  by (simp add: put_lock_def bump_def)

lemma uuid_put:
  "fencing_ok Q (observe_fencing_token (note_issued (put_lock (snd (uuid_or_new E s f)) key l) key t) t) =
   fencing_ok Q (observe_fencing_token (note_issued (put_lock s key l) key t) t)"
  by (rule fencing_ok_frame) (simp_all add: uuid_or_new_def split: option.split)

lemma handle_register_read_fencing [keeps_fencing]:
  assumes "fencing_ok Q s" and "go_fencing_seed go = None"
  shows "fencing_ok Q (handle_register_read Q E s client uuid key go)"
  using default_fenced [where key = key, OF assms(1)] assms(2)
  by (simp add: handle_register_read_def split_beta Let_def grant_token_None uuid_put)

lemma handle_register_write_fencing [keeps_fencing]:
  assumes "fencing_ok Q s" and "go_fencing_seed go = None"
  shows "fencing_ok Q (handle_register_write Q E s client uuid key go)"
  using default_fenced [where key = key, OF assms(1)] assms(2)
  by (simp add: handle_register_write_def split_beta Let_def grant_token_None uuid_put)

lemma handle_exclusive_lock_fencing [keeps_fencing]:
  assumes "fencing_ok Q s" and "go_fencing_seed go = None"
  shows "fencing_ok Q (handle_exclusive_lock Q E s client uuid key pid ttl mx keep force wait go)"
proof -
  define cur where "cur = (case fmlookup (locks s) key of
                           Some l \<Rightarrow> ls_max l | None \<Rightarrow> max_lock_holders (config s))"
  have "fencing_ok Q (snd (resolve_max s cur mx))" using assms by simp
  from default_fenced [where key = key, OF this] show ?thesis
    using assms(2)
    by (simp add: handle_exclusive_lock_def cur_def [symmetric] split_beta Let_def grant_token_None uuid_put)
qed

end

lemma fencing_ok_keep:
  assumes "fencing_ok Q s" and "fmlookup (locks s) key = Some l"
    and "fencing_counter l' = fencing_counter l" and "queue l' = queue l"
  shows "fencing_ok Q (put_lock s key l')"
  using fencing_okD [OF assms(1,2)] by (intro fencing_ok_put [OF assms(1-3)]) (simp add: assms(4))

lemma holders_only [simp]:
  "fencing_counter (fst (unlock_target can t l a)) = fencing_counter l"
  "queue (fst (unlock_target can t l a)) = queue l"
  "fencing_counter (fst (unlock_wipe E n l a)) = fencing_counter l"
  "queue (fst (unlock_wipe E n l a)) = queue l"
  "fencing_counter (evict_holder u kind l) = fencing_counter l"
  "queue (evict_holder u kind l) = queue l"
  "fencing_counter (detach_holders u l) = fencing_counter l"
  "queue (detach_holders u l) = queue l"
  by (simp_all add: unlock_target_def unlock_wipe_def evict_holder_def detach_holders_def Let_def
      split_beta split: rw_hold_kind.split option.split)

lemma unlock_keys_fencing:
  "fencing_ok Q s \<Longrightarrow> fencing_ok Q (snd (unlock_keys Q E can t ks a s))"
proof (induction ks arbitrary: a s)
  case (Cons k ks)
  show ?case
  proof (cases "fmlookup (locks s) k")
    case None
    with Cons show ?thesis by simp
  next
    case (Some l)
    have "fencing_ok Q (put_lock s k (fst (unlock_target can u l a)))" for u
      by (rule fencing_ok_keep [OF Cons.prems Some]) simp_all
    moreover have "fencing_ok Q (put_lock (bump (bump s)) k (fst (unlock_wipe E (reads s) l a)))"
      using Cons.prems Some by (intro fencing_ok_keep [where l = l]) simp_all
    ultimately show ?thesis
      using Cons.prems Cons.IH Some by (cases t) (auto simp: split_beta Let_def)
  qed
qed simp

lemma fold_frame_fencing:
  assumes "\<And>x s. fencing_ok Q (f x s) = fencing_ok Q s"
  shows "fencing_ok Q (fold f xs s) = fencing_ok Q s"
  using assms by (rule fold_frame)

lemma untrack_fold_fencing [simp]:
  "fencing_ok Q (fold (\<lambda>(c, lu) s. untrack_holder s c lu) xs s) = fencing_ok Q s"
  "fencing_ok Q (fold (\<lambda>lu s. untrack_holder s c lu) us s) = fencing_ok Q s"
  by (simp_all add: fold_frame_fencing split_beta)

lemma unlock_untrack_fencing [simp]: "fencing_ok Q (unlock_untrack lu a s) = fencing_ok Q s"
  by (simp add: unlock_untrack_def split: option.split)

lemma put_locks_fencing:
  assumes "fencing_ok Q s" and "\<And>x l. fencing_counter (g x l) = fencing_counter l"
    and "\<And>x l. queue (g x l) = queue l"
  shows "fencing_ok Q (fold (\<lambda>x s. case fmlookup (locks s) (k x) of None \<Rightarrow> s
       | Some l \<Rightarrow> put_lock s (k x) (g x l)) xs s)"
proof (rule fold_invariant_set [where P = "fencing_ok Q"])
  fix x s assume "fencing_ok Q s"
  with assms(2,3) show "fencing_ok Q (case fmlookup (locks s) (k x) of None \<Rightarrow> s
       | Some l \<Rightarrow> put_lock s (k x) (g x l))"
    using fencing_ok_keep [of Q s "k x"] by (auto split: option.split)
qed (fact assms(1))

lemma release_held_keys_fencing:
  "fencing_ok Q (snd acc) \<Longrightarrow> fencing_ok Q (snd (release_held_keys u kind ks acc))"
proof (induction ks arbitrary: acc)
  case (Cons k ks)
  let ?r = "release_held_key (snd acc) u kind k"
  have "fencing_ok Q (snd ?r)"
    using Cons.prems fencing_ok_keep [of Q "snd acc" k]
    by (cases kind) (auto simp: release_held_key_def split: option.split)
  from Cons.IH [of "(if fst ?r then finsert k (fst acc) else fst acc, snd ?r)"] this
  show ?case by (simp add: release_held_keys_def split_beta Let_def)
qed (simp add: release_held_keys_def)

lemma release_all_fencing:
  "fencing_ok Q (snd acc) \<Longrightarrow>
   fencing_ok Q (snd (fold (\<lambda>lu acc. release_held_keys lu (kd lu) (ks lu) acc) us acc))"
  by (induction us arbitrary: acc) (auto simp: release_held_keys_fencing)

lemma evict_deadline_fencing:
  assumes "fencing_ok Q (snd (snd acc))"
  shows "fencing_ok Q (snd (snd (evict_deadline dk acc)))"
proof -
  obtain ev c s where acc: "acc = (ev, c, s)" by (metis prod.collapse)
  have d: "fencing_ok Q (t\<lparr>deadlines := d\<rparr>) = fencing_ok Q t" for t d
    by (rule fencing_ok_frame) simp_all
  have u: "fencing_ok Q (t\<lparr>ttl_evictions_total := n\<rparr>) = fencing_ok Q t" for t n
    by (rule fencing_ok_frame) simp_all
  have "fencing_ok Q (fold (\<lambda>key s. case fmlookup (locks s) key of None \<Rightarrow> s
        | Some l \<Rightarrow> put_lock s key (evict_holder (de_lock_uuid e) (de_kind e) l)) ks (s\<lparr>deadlines := d\<rparr>))" for e ks d
    using assms by (intro put_locks_fencing) (simp_all add: acc d)
  then show ?thesis
    using assms by (auto simp: evict_deadline_def acc Let_def d u split: option.split)
qed

lemma evict_all_fencing:
  "fencing_ok Q (snd (snd acc)) \<Longrightarrow> fencing_ok Q (snd (snd (fold evict_deadline ds acc)))"
  by (induction ds arbitrary: acc) (simp_all add: evict_deadline_fencing)

text \<open>Dropping locks: what was issued for their keys stays below the watermark.\<close>

lemma fencing_ok_drop:
  assumes "fencing_ok Q s"
  shows "fencing_ok Q (s\<lparr>locks := fold fmdrop ks (locks s)\<rparr>)" (is "fencing_ok Q ?t")
proof -
  have fl: "floor_of ?t k = (if k \<in> set ks then fencing_watermark s else floor_of s k)" for k
    by (simp add: floor_of_def lookup_fold_fmdrop cong: option.case_cong)
  have un: "unseeded Q ?t"
    using assms by (auto simp: fencing_ok_def fenced_def unseeded_def locks_sat_def lookup_fold_fmdrop
        split: if_splits)
  have tk: "tokens_of k ?t = tokens_of k s" for k by (simp add: tokens_of_def)
  show ?thesis
    using assms un unfolding fencing_ok_def fenced_def fl tk by (auto split: if_splits)
qed

lemma prune_idle_keys_fencing:
  assumes "fencing_ok Q s"
  shows "fencing_ok Q (prune_idle_keys Q E s now)"
proof -
  have u: "fencing_ok Q (t\<lparr>idle_keys_pruned_total := n\<rparr>) = fencing_ok Q t" for t n
    by (rule fencing_ok_frame) simp_all
  have "fencing_ok Q ((bump s)\<lparr>locks := fold fmdrop ks (locks s)\<rparr>)" for ks
    using fencing_ok_drop [of Q "bump s" ks] assms by simp
  with assms show ?thesis by (simp add: prune_idle_keys_def Let_def u split: option.split)
qed

lemma fencing_ok_new: "fencing_ok Q (broker_state_new E cfg)"
  by (simp add: fencing_ok_def fenced_def unseeded_def locks_sat_def broker_state_new_def floor_of_def tokens_of_def)

lemma register_fencing [keeps_fencing]:
  "register_client s = Some (i, t) \<Longrightarrow> fencing_ok Q t = fencing_ok Q s"
  "register_client_with_id s p = Some (i, t) \<Longrightarrow> fencing_ok Q t = fencing_ok Q s"
  by (rule fencing_ok_frame;
      auto simp: register_client_def register_client_with_id_def Let_def insert_client_handle_def)+

lemma detach_lock_owner_fencing [keeps_fencing]:
  assumes "fencing_ok Q s"
  shows "fencing_ok Q (detach_lock_owner E s u)"
proof -
  let ?t = "s\<lparr>locks := fmmap (detach_holders u) (locks s)\<rparr>"
  have "floor_of ?t k = floor_of s k" "tokens_of k ?t = tokens_of k s" for k
    by (simp_all add: floor_of_def tokens_of_def split: option.split)
  moreover have "unseeded Q ?t"
    using assms by (auto simp: fencing_ok_def fenced_def unseeded_def locks_sat_def)
  ultimately have 1: "fencing_ok Q ?t" using assms by (simp add: fencing_ok_def fenced_def)
  have c: "fencing_ok Q (t\<lparr>clients := n\<rparr>) = fencing_ok Q t" for t n
    by (rule fencing_ok_frame) simp_all
  show ?thesis
    unfolding detach_lock_owner_def Let_def
    by (subst fold_frame_fencing) (simp_all add: 1 c split: option.split)
qed

context fencing_env
begin

lemma run_grants_fencing: "fencing_ok Q s \<Longrightarrow> fencing_ok Q (run_grants Q E s key)"
  by (rule fencing.run_grants_invariant)

lemma fold_run_grants_fencing: "fencing_ok Q s \<Longrightarrow> fencing_ok Q (fold (\<lambda>k s. run_grants Q E s k) ks s)"
  by (rule fencing.fold_run_grants_invariant)

lemma handle_unlock_fencing [keeps_fencing]:
  assumes "fencing_ok Q s"
  shows "fencing_ok Q (handle_unlock Q E s client uuid keys lock_uuid force)"
  using assms
  by (simp add: handle_unlock_def Let_def split_beta fold_run_grants_fencing unlock_keys_fencing)

lemma handle_end_read_fencing [keeps_fencing]:
  assumes "fencing_ok Q s"
  shows "fencing_ok Q (handle_end_read Q E s client uuid key)"
proof -
  have "fencing_ok Q (put_lock (bump s) key (l\<lparr>readers := r\<rparr>))"
    if "fmlookup (locks s) key = Some l" for l r
    using assms that by (intro fencing_ok_keep [where l = l]) simp_all
  with assms show ?thesis
    by (simp add: handle_end_read_def Let_def run_grants_fencing split: option.split)
qed

lemma handle_end_write_fencing [keeps_fencing]:
  assumes "fencing_ok Q s"
  shows "fencing_ok Q (handle_end_write Q E s client uuid key)"
proof -
  have "fencing_ok Q (put_lock t key (l\<lparr>writer := w\<rparr>))" "fencing_ok Q (put_lock t key l)"
    if "fmlookup (locks t) key = Some l" "fencing_ok Q t" for l w t
    using that by (auto intro!: fencing_ok_keep [where l = l])
  with assms show ?thesis
    by (auto simp: handle_end_write_def Let_def run_grants_fencing split_beta split: option.split)
qed

lemma remove_from_queue_fencing:
  assumes "fencing_ok Q s"
  shows "fencing_ok Q (remove_from_queue Q s key u)"
  using assms fencing_okD [OF assms]
  by (auto simp: remove_from_queue_def split: option.split intro!: fencing_ok_put)

lemma remove_all_from_queues_fencing:
  "fencing_ok Q s \<Longrightarrow> fencing_ok Q (fold (\<lambda>(k, ru) s. remove_from_queue Q s k ru) xs s)"
  by (rule fold_invariant_set [where P = "fencing_ok Q"]) (auto simp: remove_from_queue_fencing)

lemma drop_unregistered_client_fencing:
  assumes "fencing_ok Q s"
  shows "fencing_ok Q (drop_unregistered_client Q E s client)"
proof -
  have r: "fencing_ok Q t \<Longrightarrow> fencing_ok Q (fold (\<lambda>k s. run_grants Q E (maybe_mark_idle Q E s k) k) xs t)" for xs t
    by (rule fold_invariant_set [where P = "fencing_ok Q"]) (auto simp: run_grants_fencing)
  have p: "fencing_ok Q (fold (\<lambda>(k, lu) s. case fmlookup (locks s) k of None \<Rightarrow> s
       | Some l \<Rightarrow> put_lock s k (g lu l)) xs t)"
    if "fencing_ok Q t" "\<And>x l. fencing_counter (g x l) = fencing_counter l" "\<And>x l. queue (g x l) = queue l"
    for g :: "string \<Rightarrow> 'q lock_state \<Rightarrow> 'q lock_state" and xs t
    using put_locks_fencing [OF that(1), of "\<lambda>x. g (snd x)" fst xs] that(2,3) by (simp add: case_prod_unfold)
  show ?thesis
    unfolding drop_unregistered_client_def Let_def
    by (rule r) (simp add: assms remove_all_from_queues_fencing p put_locks_fencing)
qed

lemma drop_client_fencing [keeps_fencing]:
  assumes "fencing_ok Q s"
  shows "fencing_ok Q (drop_client Q E s client)"
proof (cases "fmlookup (clients s) client")
  case None
  with assms show ?thesis by (simp add: drop_client_def drop_unregistered_client_fencing)
next
  case (Some h)
  have c: "fencing_ok Q (t\<lparr>clients := n\<rparr>) = fencing_ok Q t" for t n
    by (rule fencing_ok_frame) simp_all
  show ?thesis
    using Some assms
    by (simp add: drop_client_def Let_def split_beta fold_run_grants_fencing
        release_all_fencing remove_all_from_queues_fencing c)
qed

lemma tick_ttl_fencing [keeps_fencing]:
  assumes "fencing_ok Q s"
  shows "fencing_ok Q (snd (tick_ttl Q E s now))"
  using assms
  by (simp add: tick_ttl_def sweep_expired_def Let_def split_beta prune_idle_keys_fencing fold_run_grants_fencing evict_all_fencing)

end

section \<open>Composite locks and runs\<close>

definition no_seed :: "broker_op \<Rightarrow> bool" where
  "no_seed op = (case op of OpRequest _ _ go \<Rightarrow> go_fencing_seed go = None | _ \<Rightarrow> True)"

context fencing_env
begin

lemma grant_composite_keys_fenced:
  assumes seed: "go_fencing_seed go = None"
  shows "fenced Q (max (fencing_watermark s) mt) s \<Longrightarrow>
   (case grant_composite_keys Q E client pid cuuid go i ks tokens mt s of
      (_, mt', s') \<Rightarrow> fencing_watermark s' = fencing_watermark s \<and>
        fenced Q (max (fencing_watermark s) mt') s')"
proof (induction ks arbitrary: i tokens mt s)
  case (Cons k ks)
  let ?d = "lock_or_default Q E s k"
  let ?n = "next_or_forced_fencing_token (fst ?d) None"
  let ?t = "token_of (fst ?d) None"
  let ?l = "(snd ?n)\<lparr>exclusive_holders := fmupd cuuid
     \<lparr>eh_client = client, eh_pid = pid, eh_fencing_token = ?t,
      eh_keep_locks_after_death = False, eh_composite_member = True\<rparr> (exclusive_holders (fst ?d))\<rparr>"
  let ?s = "note_issued (put_lock (snd ?d) k ?l) k ?t"
  have mx: "(if mt < ?t then fst ?n else mt) = max mt ?t" by (auto simp: max_def)
  have d: "fenced Q (max (fencing_watermark s) mt) (snd ?d)"
    by (rule lock_or_default_fenced [OF Cons.prems])
  have "fenced Q (max (max (fencing_watermark s) mt) ?t) ?s"
    using fencedD [OF d lookup_default] by (intro fenced_issue [OF d lookup_default]) simp_all
  then have "fenced Q (max (fencing_watermark ?s) (max mt ?t)) ?s" by (simp add: max.assoc)
  from Cons.IH [OF this] show ?case
    by (simp add: split_beta Let_def grant_token_None [OF seed] mx split del: if_split)
qed simp

lemma handle_composite_lock_fencing [keeps_fencing]:
  assumes ok: "fencing_ok Q s" and seed: "go_fencing_seed go = None"
  shows "fencing_ok Q (handle_composite_lock Q E s client uuid keys pid ttl wait go)"
proof -
  let ?s = "snd (uuid_or_new E s (go_lock_uuid go))" and ?ks = "sort_dedup keys"
  let ?c = "fst (uuid_or_new E s (go_lock_uuid go))"
  let ?g = "grant_composite_keys Q E client pid ?c go 0 ?ks fmempty 0 ?s"
  have s: "fencing_ok Q ?s" using ok by simp
  then have "fenced Q (max (fencing_watermark ?s) 0) ?s" by (simp add: fencing_ok_def)
  from grant_composite_keys_fenced [OF seed this, of client pid ?c 0 ?ks fmempty]
  have "fenced Q (max (fencing_watermark (snd (snd ?g))) (fst (snd ?g))) (snd (snd ?g))"
    by (auto simp: split_beta)
  then have fast: "fencing_ok Q (observe_fencing_token (snd (snd ?g)) (fst (snd ?g)))"
    by (rule fenced_observe) simp
  have idle: "fencing_ok Q t \<Longrightarrow> fencing_ok Q (fold (\<lambda>k s. maybe_mark_idle Q E s k) ks t)" for ks t
    by (rule fold_invariant_set [where P = "fencing_ok Q"]) simp_all
  note slow = default_fenced(2,3) [where key = "hd ?ks", OF s]
  show ?thesis
    using ok s fast slow seed
    by (simp add: handle_composite_lock_def Let_def split_beta idle run_grants_fencing)
qed

lemma perform_fencing:
  assumes "fencing_ok Q s" and "perform Q E op s = Some t" and "no_seed op"
  shows "fencing_ok Q t"
proof (cases op)
  case (OpRequest client req go)
  with assms show ?thesis
    by (cases req) (auto simp: no_seed_def dispatch_lock_def dispatch_unlock_def
        dispatch_lock_info_def Let_def keeps_fencing split: option.split)
qed (use assms in \<open>auto simp: detach_lock_from_client_def keeps_fencing\<close>)

lemma run_ops_fencing:
  "fencing_ok Q s \<Longrightarrow> run_ops Q E ops s = Some t \<Longrightarrow> list_all no_seed ops \<Longrightarrow> fencing_ok Q t"
  by (induction ops arbitrary: s) (auto simp: bind_eq_Some_conv dest: perform_fencing)

lemma tokens_increase:
  assumes "run_ops Q E ops (broker_state_new E cfg) = Some s" and "list_all no_seed ops"
    and "fencing_watermark s < - 1"
  shows "sorted_wrt (<) (tokens_of key s)"
  using run_ops_fencing [OF fencing_ok_new assms(1,2)] assms(3) by (simp add: fencing_ok_def fenced_def)

end

interpretation demo_fencing: fencing_env vecdeque demo_host
  by unfold_locales (simp add: wall_ms_def demo_host_def as_millis_def)

end
