(* ===== verification/Broker_Behaviour.thy ===== *)
theory Broker_Behaviour
  imports Broker_Fencing "HOL-Library.Sublist"
begin

text \<open>
  Lemmas on what the operations do, beyond what they preserve: the scheduler unfolded one
  grant at a time, the history of responses and the set of registered clients (which the
  scheduler only extends and does not touch, respectively), and what the loops of \<open>unlock\<close>
  and of the composite fast path leave behind.
\<close>

section \<open>History and clients under the scheduler\<close>

definition history_ok :: "(client_id \<times> response) list \<Rightarrow> client_id fset \<Rightarrow> 'q broker_state \<Rightarrow> bool" where
  "history_ok xs C s \<longleftrightarrow> prefix xs (outbox s) \<and> fmdom (clients s) = C"

lemma outbox_send:
  "outbox (send s c r) = (if c |\<in>| fmdom (clients s) then outbox s @ [(c, r)] else outbox s)"
  by (auto simp: send_def fmlookup_dom_iff split: option.split)

lemma clients_dom_frames [simp]:
  "fmdom (clients (upd_client s c f)) = fmdom (clients s)"
  "fmdom (clients (track_holder s c u ks kd)) = fmdom (clients s)"
  "fmdom (clients (untrack_holder s c u)) = fmdom (clients s)"
  "fmdom (clients (track_pending s c k u)) = fmdom (clients s)"
  "fmdom (clients (untrack_pending s c k u)) = fmdom (clients s)"
  by (simp_all add: upd_client_def track_holder_def untrack_holder_def track_pending_def
      untrack_pending_def finsert_absorb fmlookup_dom_iff split: option.split)

lemma history_grant_heads:
  assumes "history_ok xs C s"
  shows "history_ok xs C (grant_exclusive_head Q E s key l p q)"
    and "history_ok xs C (grant_reader_head Q E s key l p q)"
    and "history_ok xs C (grant_writer_head Q E s key l p q)"
    and "history_ok xs C (fst (advance_composite Q E s key l p q))"
    and "history_ok xs C (maybe_mark_idle Q E s key)"
  using assms
  by (simp_all add: history_ok_def outbox_send grant_head_defs advance_composite_def Let_def split_beta
      split: list.split)

sublocale broker_env \<subseteq> history: grant_invariant Q E "\<lambda>_. history_ok xs C" for xs C
  by unfold_locales (auto intro: history_grant_heads)

context broker_env
begin

lemma run_grants_history:
  shows "prefix (outbox s) (outbox (run_grants Q E s key))"
    and "fmdom (clients (run_grants Q E s key)) = fmdom (clients s)"
  using history.run_grants_invariant [of "outbox s" "fmdom (clients s)" s key]
  by (simp_all add: history_ok_def)

lemma fold_run_grants_history:
  shows "prefix (outbox s) (outbox (fold (\<lambda>k s. run_grants Q E s k) ks s))"
    and "fmdom (clients (fold (\<lambda>k s. run_grants Q E s k) ks s)) = fmdom (clients s)"
  using history.fold_run_grants_invariant [of "outbox s" "fmdom (clients s)" s ks]
  by (simp_all add: history_ok_def)

end

text \<open>Some message sent to \<open>c\<close> between \<open>s\<close> and \<open>t\<close> carries the request UUID \<open>u\<close>.\<close>

definition answered :: "'q broker_state \<Rightarrow> 'q broker_state \<Rightarrow> client_id \<Rightarrow> string \<Rightarrow> bool" where
  "answered s t c u \<longleftrightarrow> prefix (outbox s) (outbox t) \<and>
     list_ex (\<lambda>(d, r). d = c \<and> correlation_uuid r = u) (drop (length (outbox s)) (outbox t))"

lemma history_frames [simp]:
  "history_ok xs C (bump s) = history_ok xs C s"
  "history_ok xs C (put_lock s k l) = history_ok xs C s"
  "history_ok xs C (note_issued s k t) = history_ok xs C s"
  "history_ok xs C (observe_fencing_token s t) = history_ok xs C s"
  "history_ok xs C (track_holder s c u ks kd) = history_ok xs C s"
  "history_ok xs C (untrack_holder s c u) = history_ok xs C s"
  "history_ok xs C (track_pending s c k u) = history_ok xs C s"
  "history_ok xs C (maybe_mark_idle Q E s k) = history_ok xs C s"
  "history_ok xs C (snd (uuid_or_new E s forced)) = history_ok xs C s"
  "history_ok xs C (snd (resolve_max s cur req)) = history_ok xs C s"
  "history_ok xs C (schedule_deadline E s ttl u ks kd c) = history_ok xs C s"
  "history_ok xs C (snd (lock_or_default Q E s k)) = history_ok xs C s"
  by (simp_all add: history_ok_def)

lemma history_send: "history_ok xs C s \<Longrightarrow> history_ok xs C (send s c r)"
  by (simp add: history_ok_def outbox_send)

lemma history_folds [simp]:
  "history_ok xs C (fold (\<lambda>(c, lu) s. untrack_holder s c lu) ys s) = history_ok xs C s"
  "history_ok xs C (fold (\<lambda>lu s. untrack_holder s c lu) us s) = history_ok xs C s"
  "history_ok xs C (fold (\<lambda>k s. maybe_mark_idle Q E s k) ks s) = history_ok xs C s"
  by (rule fold_frame; simp add: split_beta)+

lemma history_untrack [simp]: "history_ok xs C (unlock_untrack lu a s) = history_ok xs C s"
  by (simp add: unlock_untrack_def split: option.split)

lemma history_loops [simp]:
  "history_ok xs C (snd (unlock_keys Q E can t ks a s)) = history_ok xs C s"
  "history_ok xs C (snd (snd (grant_composite_keys Q E client pid cuuid go i ks tokens mt s))) =
     history_ok xs C s"
proof -
  show "history_ok xs C (snd (unlock_keys Q E can t ks a s)) = history_ok xs C s"
    by (induction ks arbitrary: a s) (auto simp: split_beta Let_def split: option.split)
  show "history_ok xs C (snd (snd (grant_composite_keys Q E client pid cuuid go i ks tokens mt s))) =
     history_ok xs C s"
    by (induction ks arbitrary: i tokens mt s) (simp_all add: split_beta Let_def)
qed

lemma answered_send:
  assumes "c |\<in>| fmdom (clients s)" and "history_ok (outbox s) (fmdom (clients s)) t"
    and "correlation_uuid r = u"
  shows "answered s (send t c r) c u"
  using assms by (auto simp: answered_def history_ok_def outbox_send prefix_def)

lemma answered_later:
  assumes "answered s t c u" and "prefix (outbox t) (outbox t')"
  shows "answered s t' c u"
  using assms by (auto simp: answered_def prefix_def list_ex_iff)

context broker_env
begin

lemma handle_unlock_answered:
  assumes "client |\<in>| fmdom (clients s)"
  shows "answered s (handle_unlock Q E s client u ks t force) client u"
proof -
  have "history_ok (outbox s) (fmdom (clients s)) s" by (simp add: history_ok_def)
  then show ?thesis
    by (auto simp: handle_unlock_def Let_def split_beta
        intro!: answered_send [OF assms] history.fold_run_grants_invariant)
qed

lemma handle_composite_lock_answered:
  assumes "client |\<in>| fmdom (clients s)"
  shows "answered s (handle_composite_lock Q E s client u ks pid ttl wait go) client u"
proof -
  have "history_ok (outbox s) (fmdom (clients s)) s" by (simp add: history_ok_def)
  then show ?thesis
    by (auto simp: handle_composite_lock_def Let_def split_beta
        intro!: answered_send [OF assms] answered_later [OF _ run_grants_history(1)])
qed

lemma handle_exclusive_lock_answered:
  assumes "client |\<in>| fmdom (clients s)"
  shows "answered s (handle_exclusive_lock Q E s client u key pid ttl mx keep force wait go) client u"
proof -
  have "history_ok (outbox s) (fmdom (clients s)) s" by (simp add: history_ok_def)
  then show ?thesis
    by (auto simp: handle_exclusive_lock_def Let_def split_beta intro!: answered_send [OF assms])
qed

lemma rw_handlers_answered:
  assumes c: "client |\<in>| fmdom (clients s)"
  shows "answered s (handle_register_read Q E s client u key go) client u"
    and "answered s (handle_register_write Q E s client u key go) client u"
    and "answered s (handle_end_read Q E s client u key) client u"
    and "fmlookup (locks s) key \<noteq> None \<Longrightarrow> answered s (handle_end_write Q E s client u key) client u"
proof -
  have h: "history_ok (outbox s) (fmdom (clients s)) s" by (simp add: history_ok_def)
  note intros = answered_send [OF c] answered_later [OF _ run_grants_history(1)]
  from h show "answered s (handle_register_read Q E s client u key go) client u"
    "answered s (handle_register_write Q E s client u key go) client u"
    by (auto simp: handle_register_read_def handle_register_write_def Let_def split_beta intro!: intros)
  from h show "answered s (handle_end_read Q E s client u key) client u"
    by (auto simp: handle_end_read_def Let_def split: option.split intro!: intros)
  from h c show "fmlookup (locks s) key \<noteq> None \<Longrightarrow> answered s (handle_end_write Q E s client u key) client u"
    by (auto simp: handle_end_write_def Let_def split_beta split: option.split
        intro!: answered_send answered_later [OF _ run_grants_history(1)])
qed

lemma handle_request_answered:
  assumes c: "client |\<in>| fmdom (clients s)"
    and "\<And>u k. req = ReqEndWrite u k \<Longrightarrow> fmlookup (locks s) k \<noteq> None"
  shows "answered s (handle_request_with_grant_overrides Q E s client req go) client
    (request_uuid_of req)"
proof -
  have h: "history_ok (outbox s) (fmdom (clients s)) s" by (simp add: history_ok_def)
  note direct = answered_send [OF c]
  show ?thesis
    using assms h
    by (cases req)
      (auto simp: dispatch_lock_def dispatch_unlock_def dispatch_lock_info_def Let_def
        handle_unlock_answered handle_composite_lock_answered handle_exclusive_lock_answered
        rw_handlers_answered split: option.split intro!: direct)
qed

end

section \<open>One grant at a time\<close>

context broker_queue
begin

lemma run_grants_fuel:
  assumes "grant_fuel Q s \<le> n"
  shows "try_grant_next n Q E s key = Some (run_grants Q E s key)"
  using assms by (rule try_grant_next_total)

lemma run_grants_step:
  assumes "\<And>n. try_grant_once (Suc n) Q E s key = Some (True, t)"
  shows "run_grants Q E s key = run_grants Q E t key"
proof -
  let ?n = "Suc (grant_fuel Q s + grant_fuel Q t)"
  have "try_grant_next (Suc ?n) Q E s key = Some (run_grants Q E s key)"
    by (rule run_grants_fuel) simp
  moreover have "try_grant_next ?n Q E t key = Some (run_grants Q E t key)"
    by (rule run_grants_fuel) simp
  ultimately show ?thesis
    using assms [of "grant_fuel Q s + grant_fuel Q t"] by (simp add: try_grant_next.simps)
qed

lemma run_grants_exclusive:
  assumes "fmlookup (locks s) key = Some l" and "lq_iter Q (queue l) = (u, p) # rest"
    and "pr_kind p = PendExclusive" and "can_grant_exclusive l"
  shows "\<exists>q. lq_iter Q q = rest \<and>
    run_grants Q E s key = run_grants Q E (grant_exclusive_head Q E s key l p q) key"
proof -
  have "lq_front Q (queue l) = Some (u, p)" using assms(2) by (simp add: lq.front_iter)
  then obtain q where pop: "lq_pop_front Q (queue l) = (Some (u, p), q)"
    and it: "lq_iter Q (queue l) = (u, p) # lq_iter Q q" by (rule front_pop)
  have "try_grant_once (Suc n) Q E s key = Some (True, grant_exclusive_head Q E s key l p q)" for n
    using assms pop \<open>lq_front Q (queue l) = Some (u, p)\<close> by (simp add: try_grant_once.simps)
  from run_grants_step [OF this] it assms(2) show ?thesis by auto
qed

lemma run_grants_unknown:
  assumes "fmlookup (locks s) key = None"
  shows "run_grants Q E s key = s"
proof -
  have "try_grant_next (Suc (Suc (grant_fuel Q s))) Q E s key = Some (run_grants Q E s key)"
    by (rule run_grants_fuel) simp
  with assms show ?thesis
    by (simp add: try_grant_next.simps try_grant_once.simps maybe_mark_idle_def)
qed

end

section \<open>Queues under a request\<close>

definition waiting :: "'q pending_queue \<Rightarrow> 'q broker_state \<Rightarrow> string \<Rightarrow> (string \<times> pending_request) list" where
  "waiting Q s key = (case fmlookup (locks s) key of Some l \<Rightarrow> lq_iter Q (queue l) | None \<Rightarrow> [])"

lemma waiting_frame: "locks t = locks s \<Longrightarrow> waiting Q t key = waiting Q s key"
  by (simp add: waiting_def)

lemma waiting_frames [simp]:
  "waiting Q (bump s) key = waiting Q s key"
  "waiting Q (note_issued s k t) key = waiting Q s key"
  "waiting Q (observe_fencing_token s t) key = waiting Q s key"
  "waiting Q (track_holder s c u ks kd) key = waiting Q s key"
  "waiting Q (untrack_holder s c u) key = waiting Q s key"
  "waiting Q (track_pending s c k u) key = waiting Q s key"
  "waiting Q (send s c r) key = waiting Q s key"
  "waiting Q (snd (uuid_or_new E s forced)) key = waiting Q s key"
  "waiting Q (snd (resolve_max s cur req)) key = waiting Q s key"
  "waiting Q (schedule_deadline E s ttl u ks kd c) key = waiting Q s key"
  by (rule waiting_frame; simp)+

lemma waiting_put:
  "waiting Q (put_lock s k l) key = (if key = k then lq_iter Q (queue l) else waiting Q s key)"
  by (simp add: waiting_def)

lemma waiting_mark_idle [simp]: "waiting Q (maybe_mark_idle Q E s k) key = waiting Q s key"
  by (auto simp: maybe_mark_idle_def waiting_def split: option.split)

lemma waiting_fold_mark_idle [simp]:
  "waiting Q (fold (\<lambda>k s. maybe_mark_idle Q E s k) ks s) key = waiting Q s key"
  by (rule fold_frame) simp

context broker_queue
begin

lemma waiting_default [simp]:
  "waiting Q (snd (lock_or_default Q E s k)) key = waiting Q s key"
  "lq_iter Q (queue (fst (lock_or_default Q E s k))) = waiting Q s k"
  by (cases "fmlookup (locks s) k"; auto simp: lock_or_default_fresh lock_or_default_known
      waiting_def lq.iter_new)+

lemma grant_composite_keys_waiting:
  "waiting Q (snd (snd (grant_composite_keys Q E client pid cuuid go i ks tokens mt s))) key =
   waiting Q s key"
  by (induction ks arbitrary: i tokens mt s) (simp_all add: split_beta Let_def waiting_put)

end

section \<open>The loop of \<open>unlock\<close>\<close>

definition drop_target :: "string \<Rightarrow> 'q lock_state \<Rightarrow> 'q lock_state" where
  "drop_target t l = l\<lparr>exclusive_holders := fmdrop t (exclusive_holders l),
     readers := fmdrop t (readers l),
     writer := (case writer l of Some w \<Rightarrow> if rh_lock_uuid w = t then None else Some w | None \<Rightarrow> None)\<rparr>"

lemma drop_target_idem [simp]: "drop_target t (drop_target t l) = drop_target t l"
  by (auto simp: drop_target_def split: option.split)

lemma holder_clients_drop [simp]: "holder_clients t (drop_target t l) = []"
  by (auto simp: holder_clients_def drop_target_def split: option.split)

lemma drop_target_none: "holder_clients t l = [] \<Longrightarrow> drop_target t l = l"
  by (auto simp: holder_clients_def drop_target_def fmdrop_absent split: option.splits if_splits)

lemma unlock_target_refused:
  assumes "\<And>c. c \<in> set (holder_clients t l) \<Longrightarrow> \<not> can c"
  shows "fst (unlock_target can t l a) = l"
    and "ua_total_unlocked (snd (unlock_target can t l a)) = ua_total_unlocked a"
    and "ua_removed (snd (unlock_target can t l a)) = ua_removed a"
    and "ua_ownership_denied (snd (unlock_target can t l a)) =
         (ua_ownership_denied a \<or> holder_clients t l \<noteq> [])"
  using assms
  by (auto simp: unlock_target_def unlock_owner_def holder_clients_def Let_def split_beta
      split: option.splits if_splits)

lemma unlock_target_allowed:
  assumes "\<And>c. c \<in> set (holder_clients t l) \<Longrightarrow> can c"
  shows "fst (unlock_target can t l a) = drop_target t l"
    and "ua_total_unlocked (snd (unlock_target can t l a)) =
         (ua_total_unlocked a \<or> holder_clients t l \<noteq> [])"
    and "ua_ownership_denied (snd (unlock_target can t l a)) = ua_ownership_denied a"
  using assms
  by (auto simp: unlock_target_def unlock_owner_def holder_clients_def Let_def split_beta
      drop_target_def fmdrop_absent split: option.splits if_splits)

text \<open>Who holds the lock UUID \<open>t\<close> at a key.\<close>

definition owners_at :: "'q broker_state \<Rightarrow> string \<Rightarrow> string \<Rightarrow> client_id list" where
  "owners_at s t k = (case fmlookup (locks s) k of Some l \<Rightarrow> holder_clients t l | None \<Rightarrow> [])"

lemma put_lock_same: "fmlookup (locks s) k = Some l \<Longrightarrow> put_lock s k l = s"
proof -
  assume "fmlookup (locks s) k = Some l"
  then have "fmupd k l (locks s) = locks s" by (intro fmap_ext) auto
  then show ?thesis by (simp add: put_lock_def)
qed

lemma unlock_keys_refused:
  assumes "\<forall>k \<in> set ks. \<forall>c \<in> set (owners_at s t k). \<not> can c"
  shows "snd (unlock_keys Q E can (Some t) ks a s) = s \<and>
    ua_total_unlocked (fst (unlock_keys Q E can (Some t) ks a s)) = ua_total_unlocked a \<and>
    ua_ownership_denied (fst (unlock_keys Q E can (Some t) ks a s)) =
      (ua_ownership_denied a \<or> (\<exists>k \<in> set ks. owners_at s t k \<noteq> []))"
  using assms
proof (induction ks arbitrary: a)
  case (Cons k ks)
  have rest: "\<forall>k \<in> set ks. \<forall>c \<in> set (owners_at s t k). \<not> can c" using Cons.prems by simp
  show ?case
  proof (cases "fmlookup (locks s) k")
    case None
    with Cons.IH [OF rest, of a] show ?thesis by (simp add: owners_at_def)
  next
    case (Some l)
    then have "\<And>c. c \<in> set (holder_clients t l) \<Longrightarrow> \<not> can c"
      using Cons.prems by (simp add: owners_at_def)
    note u = unlock_target_refused [where a = a and t = t and l = l and can = can, OF this]
    have "owners_at s t k = holder_clients t l" using Some by (simp add: owners_at_def)
    with Cons.IH [OF rest] Some u show ?thesis by (simp add: split_beta Let_def put_lock_same)
  qed
qed simp

definition drop_at :: "string \<Rightarrow> string list \<Rightarrow> 'q broker_state \<Rightarrow> string \<Rightarrow> 'q lock_state option" where
  "drop_at t ks s k = (if k \<in> set ks then map_option (drop_target t) (fmlookup (locks s) k)
     else fmlookup (locks s) k)"

lemma unlock_keys_allowed:
  assumes "\<forall>k \<in> set ks. \<forall>c \<in> set (owners_at s t k). can c"
  shows "(\<forall>k. fmlookup (locks (snd (unlock_keys Q E can (Some t) ks a s))) k = drop_at t ks s k) \<and>
    ua_total_unlocked (fst (unlock_keys Q E can (Some t) ks a s)) =
      (ua_total_unlocked a \<or> (\<exists>k \<in> set ks. owners_at s t k \<noteq> [])) \<and>
    ua_ownership_denied (fst (unlock_keys Q E can (Some t) ks a s)) = ua_ownership_denied a"
  using assms
proof (induction ks arbitrary: a s)
  case Nil
  show ?case by (simp add: drop_at_def)
next
  case (Cons k ks)
  have rest: "\<forall>k \<in> set ks. \<forall>c \<in> set (owners_at s t k). can c" using Cons.prems by simp
  show ?case
  proof (cases "fmlookup (locks s) k")
    case None
    then have "owners_at s t k = []" "drop_at t (k # ks) s = drop_at t ks s"
      by (auto simp: drop_at_def owners_at_def)
    with None Cons.IH [OF rest, of a] show ?thesis by simp
  next
    case (Some l)
    then have "\<And>c. c \<in> set (holder_clients t l) \<Longrightarrow> can c"
      using Cons.prems by (simp add: owners_at_def)
    note u = unlock_target_allowed [where a = a and t = t and l = l and can = can, OF this]
    let ?s = "put_lock s k (drop_target t l)"
    have own: "owners_at ?s t j = (if j = k then [] else owners_at s t j)" for j
      by (simp add: owners_at_def)
    have ownk: "owners_at s t k = holder_clients t l" using Some by (simp add: owners_at_def)
    have "\<forall>j \<in> set ks. \<forall>c \<in> set (owners_at ?s t j). can c" using rest by (simp add: own)
    note IH = Cons.IH [OF this]
    have da: "drop_at t ks ?s = drop_at t (k # ks) s"
      using Some by (auto simp: drop_at_def fun_eq_iff)
    have ex: "(holder_clients t l \<noteq> [] \<or> (\<exists>j \<in> set ks. owners_at ?s t j \<noteq> [])) =
        (\<exists>j \<in> set (k # ks). owners_at s t j \<noteq> [])"
      using ownk by (auto simp: own)
    show ?thesis
      using IH [of "(snd (unlock_target can t l a))\<lparr>ua_last_depth := lq_len Q (queue (drop_target t l))\<rparr>"]
        Some u ex da by (simp add: split_beta Let_def) blast
  qed
qed

section \<open>The composite fast path\<close>

lemma grant_composite_keys_other:
  "k \<notin> set ks \<Longrightarrow>
   fmlookup (locks (snd (snd (grant_composite_keys Q E client pid cuuid go i ks tokens mt s)))) k =
     fmlookup (locks s) k \<and>
   fmlookup (fst (grant_composite_keys Q E client pid cuuid go i ks tokens mt s)) k = fmlookup tokens k"
  by (induction ks arbitrary: i tokens mt s)
    (auto simp: split_beta Let_def lock_or_default_other)

text \<open>Every requested key ends up held under the one lock UUID, with the token reported for it.\<close>

definition holds_with_token ::
  "'q broker_state \<Rightarrow> client_id \<Rightarrow> string \<Rightarrow> (string, u64) fmap \<Rightarrow> string \<Rightarrow> bool" where
  "holds_with_token s client cuuid tokens k =
     (case fmlookup (locks s) k of
        None \<Rightarrow> False
      | Some l \<Rightarrow>
          (case fmlookup (exclusive_holders l) cuuid of
             None \<Rightarrow> False
           | Some h \<Rightarrow> eh_client h = client \<and> eh_composite_member h \<and>
               fmlookup tokens k = Some (eh_fencing_token h)))"

lemma grant_composite_keys_holds:
  "distinct ks \<Longrightarrow> \<forall>k \<in> set ks.
     holds_with_token (snd (snd (grant_composite_keys Q E client pid cuuid go i ks tokens mt s)))
       client cuuid (fst (grant_composite_keys Q E client pid cuuid go i ks tokens mt s)) k"
proof (induction ks arbitrary: i tokens mt s)
  case (Cons k ks)
  then have k: "k \<notin> set ks" and d: "distinct ks" by simp_all
  show ?case
    using Cons.IH [OF d]
    by (simp add: split_beta Let_def holds_with_token_def grant_composite_keys_other [OF k]
        split del: if_split)
qed simp

lemma grant_composite_keys_dom:
  "fmdom (fst (grant_composite_keys Q E client pid cuuid go i ks tokens mt s)) =
   fmdom tokens |\<union>| fset_of_list ks"
  by (induction ks arbitrary: i tokens mt s) (simp_all add: split_beta Let_def)

lemma holds_mark_idle [simp]:
  "holds_with_token (maybe_mark_idle Q E s j) client cuuid tokens k = holds_with_token s client cuuid tokens k"
  by (auto simp: holds_with_token_def maybe_mark_idle_def split: option.split)

lemma holds_frame:
  "locks t = locks s \<Longrightarrow> holds_with_token t client cuuid tokens k = holds_with_token s client cuuid tokens k"
  by (simp add: holds_with_token_def)

lemma holds_fold_mark_idle [simp]:
  "holds_with_token (fold (\<lambda>k s. maybe_mark_idle Q E s k) ks s) client cuuid tokens k =
   holds_with_token s client cuuid tokens k"
  by (rule fold_frame) simp

lemma composite_granted:
  assumes "keys \<noteq> []" and "length keys \<le> MAX_COMPOSITE_KEYS" and "\<forall>k \<in> set keys. key_free s k"
  shows "\<exists>cuuid tokens. observed (handle_composite_lock Q E s client uuid keys pid ttl wait go) =
      observed s @ [RespCompositeLock \<lparr>cr_uuid = uuid, cr_keys = sort_dedup keys, cr_acquired = True,
        cr_lock_uuid = Some cuuid, cr_fencing_tokens = Some tokens, cr_error = None\<rparr>] \<and>
    fmdom tokens = fset_of_list keys \<and>
    (\<forall>k \<in> set keys. holds_with_token (handle_composite_lock Q E s client uuid keys pid ttl wait go)
       client cuuid tokens k)"
proof -
  let ?u = "uuid_or_new E s (go_lock_uuid go)" and ?ks = "sort_dedup keys"
  let ?g = "grant_composite_keys Q E client pid (fst ?u) go 0 ?ks fmempty 0 (snd ?u)"
  have free: "list_all (\<lambda>k. case fmlookup (locks s) k of Some l \<Rightarrow> all_free l | None \<Rightarrow> True) ?ks"
    using assms(3) sort_dedup_props(1) [of keys] by (simp add: list_all_iff key_free_def)
  have dist: "distinct ?ks" using sort_dedup_props(2) strict_sorted_iff by blast
  have obs: "observed (snd (snd (grant_composite_keys Q E client pid c go i ks tk mt t))) = observed t" for c i ks tk mt t
    by (induction ks arbitrary: i tk mt t) (simp_all add: split_beta Let_def)
  have obs2: "observed (fold (\<lambda>k s. maybe_mark_idle Q E s k) ks t) = observed t" for ks t
    by (rule fold_frame) simp
  have holds: "holds_with_token (snd (snd ?g)) client (fst ?u) (fst ?g) k" if "k \<in> set keys" for k
    using grant_composite_keys_holds [OF dist] that sort_dedup_props(1) [of keys] by blast
  have dom: "fmdom (fst ?g) = fset_of_list keys"
    using sort_dedup_props(1) [of keys]
    by (simp add: grant_composite_keys_dom fset_eq_iff fset_of_list_elem)
  define t where "t = handle_composite_lock Q E s client uuid keys pid ttl wait go"
  have t: "observed t = observed s @ [RespCompositeLock \<lparr>cr_uuid = uuid, cr_keys = ?ks,
        cr_acquired = True, cr_lock_uuid = Some (fst ?u), cr_fencing_tokens = Some (fst ?g),
        cr_error = None\<rparr>]"
    "\<And>c tk k. holds_with_token t client c tk k = holds_with_token (snd (snd ?g)) client c tk k"
    using assms(1,2) free unfolding t_def
    by (simp_all add: handle_composite_lock_def Let_def split_beta obs obs2
        holds_frame [OF send_frame(1)] holds_frame [OF schedule_deadline_frame(1)]
        holds_frame [OF observe_frame(1)] holds_frame [OF track_holder_frame(1)])
  from t dom holds show ?thesis unfolding t_def [symmetric] by blast
qed

lemma composite_refused:
  assumes "keys \<noteq> []" and "length keys \<le> MAX_COMPOSITE_KEYS" and "k \<in> set keys" and "\<not> key_free s k"
  shows "locks (handle_composite_lock Q E s client uuid keys pid ttl False go) = locks s"
    and "observed (handle_composite_lock Q E s client uuid keys pid ttl False go) =
      observed s @ [RespCompositeLock \<lparr>cr_uuid = uuid, cr_keys = sort_dedup keys, cr_acquired = False,
        cr_lock_uuid = None, cr_fencing_tokens = None, cr_error = None\<rparr>]"
proof -
  have "\<not> list_all (\<lambda>k. case fmlookup (locks s) k of Some l \<Rightarrow> all_free l | None \<Rightarrow> True) (sort_dedup keys)"
    using assms(3,4) sort_dedup_props(1) [of keys] by (auto simp: list_all_iff key_free_def)
  then show "locks (handle_composite_lock Q E s client uuid keys pid ttl False go) = locks s"
    "observed (handle_composite_lock Q E s client uuid keys pid ttl False go) =
      observed s @ [RespCompositeLock \<lparr>cr_uuid = uuid, cr_keys = sort_dedup keys, cr_acquired = False,
        cr_lock_uuid = None, cr_fencing_tokens = None, cr_error = None\<rparr>]"
    using assms(1,2) by (auto simp: handle_composite_lock_def Let_def split_beta)
qed

section \<open>Requests that do not wait\<close>

context broker_queue
begin

lemma no_wait_exclusive:
  "waiting Q (handle_exclusive_lock Q E s client uuid key pid ttl mx keep force False go) k = waiting Q s k"
  by (simp add: handle_exclusive_lock_def Let_def split_beta waiting_put)

lemma no_wait_composite:
  "waiting Q (handle_composite_lock Q E s client uuid keys pid ttl False go) k = waiting Q s k"
  by (simp add: handle_composite_lock_def Let_def split_beta grant_composite_keys_waiting)

lemma no_wait_dispatch:
  "lk_wait r = Some False \<Longrightarrow> waiting Q (dispatch_lock Q E s client r go) k = waiting Q s k"
  by (auto simp: dispatch_lock_def Let_def no_wait_exclusive no_wait_composite split: option.split)

end

section \<open>Client ids\<close>

lemma search_client_id:
  assumes "next_available_client_id n s i = Some j"
  shows "j \<noteq> SNAPSHOT_DETACHED_CLIENT" and "j |\<notin>| fmdom (clients s)"
  using assms by (induction n arbitrary: i) (auto split: if_splits)

text \<open>The ids the search visits, in order.\<close>

definition succ_id :: "client_id \<Rightarrow> client_id" where
  "succ_id i = max (i + 1) 1"

lemma search_visits:
  "next_available_client_id n s i = None \<Longrightarrow> k < n \<Longrightarrow>
   (succ_id ^^ k) i = SNAPSHOT_DETACHED_CLIENT \<or> (succ_id ^^ k) i |\<in>| fmdom (clients s)"
proof (induction n arbitrary: i k)
  case (Suc n)
  then show ?case
    by (cases k) (auto simp: succ_id_def funpow_Suc_right split: if_splits simp del: funpow.simps)
qed simp

lemma unat_succ_id: "unat (succ_id i) = (if unat i = 2 ^ 64 - 1 then 1 else unat i + 1)"
proof -
  have "unat i < 2 ^ 64" using unsigned_less [of i] by simp
  moreover have "unat (succ_id i) = max ((unat i + 1) mod 2 ^ 64) 1"
    by (simp add: succ_id_def max_def word_le_nat_alt unat_word_ariths)
  ultimately show ?thesis by auto
qed

lemma succ_id_orbit:
  assumes "i \<noteq> 0"
  shows "unat ((succ_id ^^ k) i) = (unat i - 1 + k) mod (2 ^ 64 - 1) + 1"
proof (induction k)
  case 0
  have "unat i < 2 ^ 64" using unsigned_less [of i] by simp
  moreover have "0 < unat i" using assms by (simp add: unat_gt_0)
  ultimately show ?case by simp
next
  case (Suc k)
  show ?case by (simp add: unat_succ_id Suc mod_Suc)
qed

lemma succ_id_inj:
  assumes "i \<noteq> 0" and "n \<le> 2 ^ 64 - 1"
  shows "inj_on (\<lambda>k. (succ_id ^^ k) i) {..<n}"
proof (rule inj_onI)
  fix x y assume "x \<in> {..<n}" "y \<in> {..<n}" "(succ_id ^^ x) i = (succ_id ^^ y) i"
  then have *: "(unat i - 1 + x) mod (2 ^ 64 - 1) = (unat i - 1 + y) mod (2 ^ 64 - 1)"
    "x < 2 ^ 64 - 1" "y < 2 ^ 64 - 1"
    using succ_id_orbit [OF assms(1), of x] succ_id_orbit [OF assms(1), of y] assms(2) by simp_all
  from *(1) have "(unat i - 1 + x - (unat i - 1)) mod (2 ^ 64 - 1) = (unat i - 1 + y - (unat i - 1)) mod (2 ^ 64 - 1)"
    by (simp add: nat_mod_eq_iff)
  with *(2,3) show "x = y" by simp
qed

lemma search_succeeds:
  assumes "hm_len (clients s) < 2 ^ 64 - 1" and "i \<noteq> 0"
  shows "\<exists>j. next_available_client_id (Suc (hm_len (clients s))) s i = Some j"
proof (rule ccontr)
  let ?n = "Suc (hm_len (clients s))"
  assume "\<nexists>j. next_available_client_id ?n s i = Some j"
  then have none: "next_available_client_id ?n s i = None" by (simp del: next_available_client_id.simps)
  have "(succ_id ^^ k) i \<noteq> SNAPSHOT_DETACHED_CLIENT" for k
    using succ_id_orbit [OF assms(2), of k] by (auto simp: SNAPSHOT_DETACHED_CLIENT_def)
  with search_visits [OF none] have "(\<lambda>k. (succ_id ^^ k) i) ` {..<?n} \<subseteq> fset (fmdom (clients s))"
    by auto
  then have "card ((\<lambda>k. (succ_id ^^ k) i) ` {..<?n}) \<le> card (fset (fmdom (clients s)))"
    by (rule card_mono [rotated]) simp
  moreover have "card ((\<lambda>k. (succ_id ^^ k) i) ` {..<?n}) = ?n"
    using succ_id_inj [OF assms(2), of ?n] assms(1) by (simp add: card_image)
  ultimately show False by (simp add: hm_len_def fcard.rep_eq)
qed

lemma max_one_nonzero: "max (i :: client_id) 1 \<noteq> 0"
  by (auto simp: max_def)

lemma registered:
  assumes "hm_len (clients s) < 2 ^ 64 - 1"
  shows "\<exists>i t. register_client s = Some (i, t) \<and> i \<noteq> SNAPSHOT_DETACHED_CLIENT \<and>
      i |\<notin>| fmdom (clients s) \<and> locks t = locks s \<and>
      clients t = fmupd i \<lparr>sender = reads s, held_lock_uuids = fmempty, pending_request_uuids = []\<rparr> (clients s)"
proof -
  have "hm_len (clients (bump s)) < 2 ^ 64 - 1" using assms by simp
  from search_succeeds [OF this max_one_nonzero [of "next_client_id (bump s)"]] obtain j
    where j: "next_available_client_id (Suc (hm_len (clients (bump s)))) (bump s)
      (max (next_client_id (bump s)) 1) = Some j" by blast
  from search_client_id [OF j] j show ?thesis
    by (simp add: register_client_def Let_def insert_client_handle_def del: next_available_client_id.simps)
qed

section \<open>Handing a key over\<close>

context broker_env
begin

lemma head_granted:
  assumes "fmlookup (locks s) key = Some l" and "lq_iter Q (queue l) = (u, p) # rest"
    and "pr_kind p = PendExclusive" and "can_grant_exclusive l"
    and c: "pr_client p |\<in>| fmdom (clients s)"
  shows "\<exists>r. (pr_client p, RespLock r) \<in> set (drop (length (outbox s)) (outbox (run_grants Q E s key))) \<and>
    lr_uuid r = pr_request_uuid p \<and> lr_key r = key \<and> lr_acquired r \<and> lr_lock_uuid r \<noteq> None \<and>
    lr_fencing_token r = Some (token_of l (pr_grant_fencing_seed p))"
proof -
  from run_grants_exclusive [OF assms(1-4)] obtain q
    where run: "run_grants Q E s key = run_grants Q E (grant_exclusive_head Q E s key l p q) key" by blast
  let ?g = "grant_exclusive_head Q E s key l p q"
  have "\<exists>r. outbox ?g = outbox s @ [(pr_client p, RespLock r)] \<and> lr_uuid r = pr_request_uuid p \<and>
     lr_key r = key \<and> lr_acquired r \<and> lr_lock_uuid r \<noteq> None \<and>
     lr_fencing_token r = Some (token_of l (pr_grant_fencing_seed p))"
    using c by (simp add: grant_exclusive_head_def Let_def split_beta outbox_send flip: token_of_def)
  moreover have "prefix (outbox ?g) (outbox (run_grants Q E ?g key))" by (rule run_grants_history)
  ultimately show ?thesis unfolding run by (auto simp: prefix_def)
qed

end

end
