(* ===== verification/Broker_Reclaim.thy ===== *)
theory Broker_Reclaim
  imports Broker_Behaviour
begin

text \<open>
  How the broker takes locks back: the TTL sweep, the pruning of idle keys, the forced
  \<open>unlock\<close> without a lock UUID, and a replica dropping a client it has no handle for.
\<close>

section \<open>The TTL sweep\<close>

definition held_at :: "'q broker_state \<Rightarrow> deadline_entry \<Rightarrow> string \<Rightarrow> bool" where
  "held_at s e k = (case fmlookup (locks s) k of
     Some l \<Rightarrow> lock_contains_uuid_for_kind l (de_lock_uuid e) (de_kind e) | None \<Rightarrow> False)"

lemma still_held_iff: "deadline_entry_is_still_held s e \<longleftrightarrow> (\<exists>k \<in> set (de_keys e). held_at s e k)"
  by (simp add: deadline_entry_is_still_held_def held_at_def list_ex_iff)

text \<open>Evicting a holder never brings another one back.\<close>

lemma evict_holder_gone [simp]: "\<not> lock_contains_uuid_for_kind (evict_holder u kind l) u kind"
  by (cases kind) (auto simp: lock_contains_uuid_for_kind_def evict_holder_def split: option.split)

lemma evict_holder_mono:
  "lock_contains_uuid_for_kind (evict_holder u kind l) v kd \<Longrightarrow> lock_contains_uuid_for_kind l v kd"
  by (cases kind; cases kd)
    (auto simp: lock_contains_uuid_for_kind_def evict_holder_def split: option.splits if_splits)

lemma evict_keys_held:
  assumes "held_at (fold (\<lambda>key s. case fmlookup (locks s) key of None \<Rightarrow> s
      | Some l \<Rightarrow> put_lock s key (evict_holder u kind l)) ks s) e k"
  shows "held_at s e k"
proof -
  let ?f = "\<lambda>key s. case fmlookup (locks s) key of None \<Rightarrow> s
      | Some l \<Rightarrow> put_lock s key (evict_holder u kind l)"
  have "held_at (?f key t) e k \<Longrightarrow> held_at t e k" for key t
    using evict_holder_mono [of u kind]
    by (cases "fmlookup (locks t) key") (auto simp: held_at_def split: if_splits)
  with assms show ?thesis by (induction ks arbitrary: s) auto
qed

lemma evict_keys_gone:
  assumes "k \<in> set ks"
  shows "\<not> held_at (fold (\<lambda>key s. case fmlookup (locks s) key of None \<Rightarrow> s
      | Some l \<Rightarrow> put_lock s key (evict_holder (de_lock_uuid e) (de_kind e) l)) ks s) e k"
  using assms
proof (induction ks arbitrary: s)
  case (Cons j ks)
  show ?case
  proof (cases "k = j")
    case True
    have "\<not> held_at (case fmlookup (locks s) j of None \<Rightarrow> s
       | Some l \<Rightarrow> put_lock s j (evict_holder (de_lock_uuid e) (de_kind e) l)) e k"
      using True by (auto simp: held_at_def split: option.split)
    then show ?thesis using evict_keys_held by fastforce
  next
    case False
    with Cons show ?thesis by simp
  qed
qed simp

lemma held_at_frame: "locks t = locks s \<Longrightarrow> held_at t e k = held_at s e k"
  by (simp add: held_at_def)

lemma held_frames [simp]:
  "held_at (untrack_holder s c u) e k = held_at s e k"
  "held_at (s\<lparr>deadlines := d\<rparr>) e k = held_at s e k"
  "held_at (s\<lparr>ttl_evictions_total := n\<rparr>) e k = held_at s e k"
  by (simp_all add: held_at_def)

text \<open>One expired deadline: its entry goes, and so does everything it protects.\<close>

lemma evict_deadline_held:
  assumes "held_at (snd (snd (evict_deadline dk acc))) e k"
  shows "held_at (snd (snd acc)) e k"
  using assms evict_keys_held
  by (fastforce simp: evict_deadline_def Let_def split_beta split: option.splits if_splits)

lemma fold_put_deadlines:
  "deadlines (fold (\<lambda>key s. case fmlookup (locks s) key of None \<Rightarrow> s
      | Some l \<Rightarrow> put_lock s key (g l)) ks s) = deadlines s"
  by (rule fold_frame) (simp split: option.split)

lemma evict_deadline_deadlines [simp]:
  "deadlines (snd (snd (evict_deadline dk acc))) = fmdrop dk (deadlines (snd (snd acc)))"
  by (auto simp: evict_deadline_def Let_def split_beta fold_put_deadlines fmdrop_absent
      split: option.split)

lemma evict_deadline_gone:
  assumes "fmlookup (deadlines (snd (snd acc))) dk = Some e" and "k \<in> set (de_keys e)"
  shows "\<not> held_at (snd (snd (evict_deadline dk acc))) e k"
  using assms evict_keys_gone [OF assms(2)]
  by (auto simp: evict_deadline_def Let_def split_beta still_held_iff)

lemma evict_fold_held:
  "held_at (snd (snd (fold evict_deadline ds acc))) e k \<Longrightarrow> held_at (snd (snd acc)) e k"
proof (induction ds arbitrary: acc)
  case (Cons d ds)
  then have "held_at (snd (snd (evict_deadline d acc))) e k" by simp
  then show ?case by (rule evict_deadline_held)
qed simp

lemma evict_fold_deadlines:
  "fmlookup (deadlines (snd (snd (fold evict_deadline ds acc)))) dk =
   (if dk \<in> set ds then None else fmlookup (deadlines (snd (snd acc))) dk)"
  by (induction ds arbitrary: acc) auto

lemma evict_fold_gone:
  assumes "dk \<in> set ds" and "fmlookup (deadlines (snd (snd acc))) dk = Some e" and "k \<in> set (de_keys e)"
  shows "\<not> held_at (snd (snd (fold evict_deadline ds acc))) e k"
  using assms(1,2)
proof (induction ds arbitrary: acc)
  case (Cons d ds)
  show ?case
  proof (cases "d = dk")
    case True
    then have "\<not> held_at (snd (snd (evict_deadline d acc))) e k"
      using evict_deadline_gone [OF _ assms(3)] Cons.prems(2) by blast
    then show ?thesis using evict_fold_held by fastforce
  next
    case False
    with Cons show ?thesis by simp
  qed
qed simp

lemma sweep_deadlines:
  "fmlookup (deadlines (snd (snd (sweep_expired s now)))) dk =
   (if dk \<le> (now, - 1) then None else fmlookup (deadlines s) dk)"
proof -
  have "fmlookup (deadlines s) dk = None" if "dk |\<notin>| fmdom (deadlines s)"
    using that by (simp add: fmdom_notD)
  then show ?thesis
    by (auto simp: sweep_expired_def Let_def evict_fold_deadlines)
qed

lemma sweep_gone:
  assumes "fmlookup (deadlines s) dk = Some e" and "dk \<le> (now, - 1)" and "k \<in> set (de_keys e)"
  shows "\<not> held_at (snd (snd (sweep_expired s now))) e k"
  unfolding sweep_expired_def Let_def
  using assms by (intro evict_fold_gone [where dk = dk]) (auto simp: fmdomI)

text \<open>
  What the sweep leaves of a lock, exactly: \<open>cleared\<close> takes out the holders that a set of
  lock UUIDs and kinds names and leaves the lock as it is otherwise; one eviction clears one pair,
  and the sweep clears what the expired deadlines of the key name.
\<close>

definition cleared :: "(string \<Rightarrow> rw_hold_kind \<Rightarrow> bool) \<Rightarrow> 'q lock_state \<Rightarrow> 'q lock_state" where
  "cleared D l = l\<lparr>exclusive_holders := fmfilter (\<lambda>u. \<not> D u HoldExclusive) (exclusive_holders l),
     readers := fmfilter (\<lambda>u. \<not> D u HoldRead) (readers l),
     writer := (case writer l of None \<Rightarrow> None
       | Some w \<Rightarrow> if D (rh_lock_uuid w) HoldWrite then None else Some w)\<rparr>"

definition names_hold :: "'q broker_state \<Rightarrow> instant \<times> u64 \<Rightarrow> string \<Rightarrow> string \<Rightarrow> rw_hold_kind \<Rightarrow> bool" where
  "names_hold s dk k u kind = (case fmlookup (deadlines s) dk of
     None \<Rightarrow> False | Some e \<Rightarrow> k \<in> set (de_keys e) \<and> de_lock_uuid e = u \<and> de_kind e = kind)"

definition expired_hold :: "'q broker_state \<Rightarrow> instant \<Rightarrow> string \<Rightarrow> string \<Rightarrow> rw_hold_kind \<Rightarrow> bool" where
  "expired_hold s now k u kind = fBex (fmdom (deadlines s)) (\<lambda>dk. fst dk \<le> now \<and> names_hold s dk k u kind)"

lemma cleared_none [simp]: "cleared (\<lambda>_ _. False) l = l" "map_option (cleared (\<lambda>_ _. False)) x = x"
  by (cases x; simp add: cleared_def split: option.split)+

lemma cleared_cleared: "cleared D (cleared D' l) = cleared (\<lambda>u kd. D u kd \<or> D' u kd) l"
  by (rule lock_state.equality) (auto simp: cleared_def intro!: fmap_ext split: option.split)

lemma evict_holder_cleared: "evict_holder u kind l = cleared (\<lambda>v kd. v = u \<and> kd = kind) l"
  by (rule lock_state.equality; cases kind)
    (auto simp: evict_holder_def cleared_def intro!: fmap_ext split: option.split)

lemma cleared_not_held:
  assumes "\<not> lock_contains_uuid_for_kind l u kind"
  shows "cleared (\<lambda>v kd. v = u \<and> kd = kind) l = l"
  unfolding evict_holder_cleared [symmetric] using assms
  by (cases kind) (auto simp: evict_holder_def lock_contains_uuid_for_kind_def hm_contains_key_def fmdrop_absent
      split: option.splits)

lemma evict_keys_locks:
  "fmlookup (locks (fold (\<lambda>key s. case fmlookup (locks s) key of None \<Rightarrow> s
      | Some l \<Rightarrow> put_lock s key (evict_holder u kind l)) ks s)) k =
   map_option (cleared (\<lambda>v kd. k \<in> set ks \<and> v = u \<and> kd = kind)) (fmlookup (locks s) k)"
proof (induction ks arbitrary: s)
  case (Cons j ks)
  have once: "(\<lambda>v kd. k \<in> set ks \<and> v = u \<and> kd = kind \<or> v = u \<and> kd = kind) = (\<lambda>v kd. v = u \<and> kd = kind)"
    by (auto simp: fun_eq_iff)
  show ?case
  proof (cases "fmlookup (locks s) j")
    case None
    then show ?thesis using Cons.IH [of s] by (cases "k = j") simp_all
  next
    case (Some l)
    then show ?thesis using Cons.IH [of "put_lock s j (evict_holder u kind l)"] once
      by (cases "k = j") (simp_all add: evict_holder_cleared cleared_cleared)
  qed
qed simp

lemma evict_deadline_locks:
  "fmlookup (locks (snd (snd (evict_deadline dk acc)))) k =
   map_option (cleared (names_hold (snd (snd acc)) dk k)) (fmlookup (locks (snd (snd acc))) k)"
proof (cases "fmlookup (deadlines (snd (snd acc))) dk")
  case None
  then have "names_hold (snd (snd acc)) dk k = (\<lambda>_ _. False)" by (simp add: names_hold_def fun_eq_iff)
  with None show ?thesis by (simp add: evict_deadline_def split_beta)
next
  case (Some e)
  have n: "names_hold (snd (snd acc)) dk k =
      (\<lambda>v kd. k \<in> set (de_keys e) \<and> v = de_lock_uuid e \<and> kd = de_kind e)"
    by (auto simp: names_hold_def Some fun_eq_iff)
  show ?thesis
  proof (cases "deadline_entry_is_still_held (snd (snd acc)) e")
    case True
    then show ?thesis
      by (auto simp: evict_deadline_def split_beta Let_def Some n evict_keys_locks still_held_iff)
  next
    case False
    then have "cleared (names_hold (snd (snd acc)) dk k) l = l" if "fmlookup (locks (snd (snd acc))) k = Some l" for l
      using that cleared_not_held [of l "de_lock_uuid e" "de_kind e"]
      by (cases "k \<in> set (de_keys e)") (auto simp: n still_held_iff held_at_def)
    with False show ?thesis
      by (cases "fmlookup (locks (snd (snd acc))) k") (simp_all add: evict_deadline_def split_beta Let_def Some still_held_iff)
  qed
qed

lemma evict_fold_locks:
  "fmlookup (locks (snd (snd (fold evict_deadline ds acc)))) k =
   map_option (cleared (\<lambda>u kd. \<exists>dk \<in> set ds. names_hold (snd (snd acc)) dk k u kd)) (fmlookup (locks (snd (snd acc))) k)"
proof (induction ds arbitrary: acc)
  case (Cons d ds)
  let ?a = "evict_deadline d acc"
  have "names_hold (snd (snd ?a)) dk k u kd \<longleftrightarrow> dk \<noteq> d \<and> names_hold (snd (snd acc)) dk k u kd" for dk u kd
    by (simp add: names_hold_def)
  then have "(\<lambda>u kd. (\<exists>dk \<in> set ds. names_hold (snd (snd ?a)) dk k u kd) \<or> names_hold (snd (snd acc)) d k u kd) =
      (\<lambda>u kd. \<exists>dk \<in> set (d # ds). names_hold (snd (snd acc)) dk k u kd)"
    unfolding fun_eq_iff by (metis (no_types, lifting) list.set_intros(1,2) set_ConsD)
  then show ?case
    by (simp add: Cons.IH evict_deadline_locks option.map_comp comp_def cleared_cleared)
qed simp

lemma sweep_locks:
  "fmlookup (locks (snd (snd (sweep_expired s now)))) k =
   map_option (cleared (expired_hold s now k)) (fmlookup (locks s) k)"
proof -
  have le: "dk \<le> (now, - 1) \<longleftrightarrow> fst dk \<le> now" for dk :: "instant \<times> u64"
    by (cases dk) (auto simp: less_eq_prod_def)
  have "(\<lambda>u kd. \<exists>dk \<in> set (filter (\<lambda>dk. dk \<le> (now, - 1)) (sorted_list_of_fset (fmdom (deadlines s)))).
      names_hold s dk k u kd) = expired_hold s now k"
    unfolding fun_eq_iff expired_hold_def set_filter le sorted_list_of_fset_simps by blast
  then show ?thesis by (simp add: sweep_expired_def Let_def evict_fold_locks)
qed

section \<open>Pruning idle keys\<close>

context hash_host
begin

lemma prune_lookup:
  "fmlookup (locks (prune_idle_keys Q E s now)) k =
   (case fmlookup (locks s) k of
      None \<Rightarrow> None
    | Some l \<Rightarrow>
        if idle_key_grace (config s) \<noteq> 0 \<and> instant_min E \<le> now - idle_key_grace (config s) \<and>
           is_idle Q l \<and> (\<exists>t. timestamp_emptied l = Some t \<and> t \<le> now - idle_key_grace (config s))
        then None else Some l)"
  by (auto simp: prune_idle_keys_def Let_def lookup_fold_fmdrop set_hash_iter checked_sub_instant_def
      fmdomI split: option.splits if_splits)

end

section \<open>Forced unlock without a lock UUID\<close>

definition wiped :: "'q lock_state \<Rightarrow> 'q lock_state" where
  "wiped l = l\<lparr>exclusive_holders := fmempty, readers := fmempty, writer := None\<rparr>"

lemma unlock_wipe_result:
  "fst (unlock_wipe E n l a) = wiped l"
  "ua_total_unlocked (snd (unlock_wipe E n l a)) = (ua_total_unlocked a \<or> \<not> all_free l)"
  by (auto simp: unlock_wipe_def Let_def wiped_def all_free_def)

lemma wiped_free [simp]: "all_free (wiped l)" "wiped (wiped l) = wiped l"
  by (simp_all add: wiped_def all_free_def)

lemma unlock_keys_wipe:
  "(\<forall>k. fmlookup (locks (snd (unlock_keys Q E can None ks a s))) k =
      (if k \<in> set ks then map_option wiped (fmlookup (locks s) k) else fmlookup (locks s) k)) \<and>
   ua_total_unlocked (fst (unlock_keys Q E can None ks a s)) =
     (ua_total_unlocked a \<or> (\<exists>k \<in> set ks. \<not> key_free s k))"
proof (induction ks arbitrary: a s)
  case (Cons k ks)
  show ?case
  proof (cases "fmlookup (locks s) k")
    case None
    with Cons.IH [of a s] show ?thesis by (auto simp: key_free_def)
  next
    case (Some l)
    let ?s = "put_lock (bump (bump s)) k (wiped l)"
    have "key_free ?s j = (j = k \<or> key_free s j)" for j by (simp add: key_free_def)
    moreover have "key_free s k = all_free l" using Some by (simp add: key_free_def)
    ultimately show ?thesis
      using Cons.IH [of "(snd (unlock_wipe E (reads s) l a))\<lparr>ua_last_depth := lq_len Q (queue (wiped l))\<rparr>" ?s]
        Some by (auto simp: split_beta Let_def unlock_wipe_result)
  qed
qed simp

section \<open>Dropping a client without a handle\<close>

definition absent_lock :: "'q pending_queue \<Rightarrow> client_id \<Rightarrow> 'q lock_state \<Rightarrow> bool" where
  "absent_lock Q c l \<longleftrightarrow>
     (\<forall>x \<in> set (lq_iter Q (queue l)). pr_client (snd x) \<noteq> c) \<and>
     (\<forall>u h. fmlookup (exclusive_holders l) u = Some h \<longrightarrow> eh_client h \<noteq> c) \<and>
     (\<forall>u h. fmlookup (readers l) u = Some h \<longrightarrow> rh_client h \<noteq> c) \<and>
     (\<forall>w. writer l = Some w \<longrightarrow> rh_client w \<noteq> c)"

definition absent :: "'q pending_queue \<Rightarrow> client_id \<Rightarrow> 'q broker_state \<Rightarrow> bool" where
  "absent Q c s \<longleftrightarrow> locks_sat (\<lambda>_. absent_lock Q c) s"

lemma absent_put:
  "absent Q c s \<Longrightarrow> absent_lock Q c l \<Longrightarrow> locks t = fmupd k l (locks s) \<Longrightarrow> absent Q c t"
  by (auto simp: absent_def locks_sat_def)

lemma absent_mark_idle: "absent Q c s \<Longrightarrow> absent Q c (maybe_mark_idle Q E s key)"
  unfolding absent_def by (rule locks_sat_mark_idle) (simp_all add: absent_lock_def)

lemma absent_head:
  assumes "absent Q c s" and "fmlookup (locks s) key = Some l"
    and "lq_iter Q (queue l) = (u, p) # lq_iter Q q"
  shows "absent_lock Q c l" and "pr_client p \<noteq> c" and "absent_lock Q c (tokened l q f)"
proof -
  show l: "absent_lock Q c l" using assms(1,2) by (simp add: absent_def locks_sat_def)
  then show "pr_client p \<noteq> c" "absent_lock Q c (tokened l q f)"
    using assms(3) by (simp_all add: absent_lock_def)
qed

lemma absent_holder:
  "absent_lock Q c l \<Longrightarrow> eh_client h \<noteq> c \<Longrightarrow>
     absent_lock Q c (l\<lparr>exclusive_holders := fmupd u h (exclusive_holders l)\<rparr>)"
  "absent_lock Q c l \<Longrightarrow> rh_client r \<noteq> c \<Longrightarrow> absent_lock Q c (l\<lparr>readers := fmupd u r (readers l)\<rparr>)"
  "absent_lock Q c l \<Longrightarrow> rh_client r \<noteq> c \<Longrightarrow> absent_lock Q c (l\<lparr>writer := Some r\<rparr>)"
  by (auto simp: absent_lock_def)

lemma grant_heads_absent:
  assumes "absent Q c s" and "fmlookup (locks s) key = Some l"
    and "lq_iter Q (queue l) = (u, p) # lq_iter Q q"
  shows "absent Q c (grant_exclusive_head Q E s key l p q)"
    and "absent Q c (grant_reader_head Q E s key l p q)"
    and "absent Q c (grant_writer_head Q E s key l p q)"
    and "absent Q c (composite_mid Q E s key l p q)"
proof -
  note h = absent_head [OF assms]
  have "absent Q c t" if "absent_lock Q c l'" "locks t = fmupd key l' (locks s)" for t l'
    using absent_put [OF assms(1)] that by blast
  note put = this
  show "absent Q c (grant_exclusive_head Q E s key l p q)"
    by (rule put [OF absent_holder(1) [OF h(3) [of "pr_grant_fencing_seed p"]]])
      (auto simp: grant_exclusive_head_def Let_def split_beta tokened_def h(2))
  show "absent Q c (grant_reader_head Q E s key l p q)"
    by (rule put [OF absent_holder(2) [OF h(3) [of "pr_grant_fencing_seed p"]]])
      (auto simp: grant_reader_head_def Let_def split_beta tokened_def h(2))
  show "absent Q c (grant_writer_head Q E s key l p q)"
    by (rule put [OF absent_holder(3) [OF h(3) [of "pr_grant_fencing_seed p"]]])
      (auto simp: grant_writer_head_def Let_def split_beta tokened_def h(2))
  show "absent Q c (composite_mid Q E s key l p q)"
    by (rule put [OF absent_holder(1) [OF h(3) [of "composite_forced p key"]]]) (auto simp: h(2))
qed

context broker_queue
begin

lemma absent_default:
  assumes "absent Q c s"
  shows "absent Q c (snd (lock_or_default Q E s key))" and "absent_lock Q c (fst (lock_or_default Q E s key))"
  using assms
  by (cases "fmlookup (locks s) key";
      auto simp: lock_or_default_fresh lock_or_default_known absent_def locks_sat_def absent_lock_def lq.iter_new)+

lemma composite_next_absent:
  assumes "absent Q c s" and "fmlookup (locks s) key = Some l"
    and "lq_iter Q (queue l) = (u, p) # lq_iter Q q"
    and kind: "pr_kind p = PendComposite all (key # nk # r) granted tokens cuuid"
  shows "absent Q c (fst (advance_composite Q E s key l p q))"
proof -
  let ?m = "composite_mid Q E s key l p q"
  let ?d = "lock_or_default Q E ?m nk"
  note d = absent_default [OF grant_heads_absent(4) [OF assms(1-3)], where E = E and key = nk]
  let ?q = "snd (lq_push_back Q (queue (fst ?d)) (pr_request_uuid p)
      (composite_requeued p key (token_of l (composite_forced p key))))"
  have "absent_lock Q c ((fst ?d)\<lparr>queue := ?q\<rparr>)"
    using d(2) absent_head(2) [OF assms(1-3)]
    by (auto simp: absent_lock_def lq.iter_push_back composite_requeued_def)
  from absent_put [OF d(1) this] show ?thesis
    by (subst advance_composite_next [where nk = nk and rest = r]) (simp_all add: kind split_beta Let_def)
qed

end

sublocale broker_env \<subseteq> purge: grant_invariant Q E "\<lambda>_. absent Q c" for c
proof unfold_locales
  fix key and S :: "string set" and l and u :: string and p q all granted tokens cuuid
    and s :: "'q broker_state"
  assume a: "absent Q c s" "fmlookup (locks s) key = Some l"
    "lq_iter Q (queue l) = (u, p) # lq_iter Q q"
    "pr_kind p = PendComposite all [key] granted tokens cuuid"
  have "tl (remaining_keys (pr_kind p)) = []" by (simp add: a(4))
  from advance_composite_last(2) [OF this, of Q E s key l q] grant_heads_absent(4) [OF a(1-3)]
  show "absent Q c (fst (advance_composite Q E s key l p q))" by (simp add: absent_def locks_sat_def)
qed (blast intro: grant_heads_absent composite_next_absent absent_mark_idle)+

text \<open>A loop that updates the locks of a list of keys, seen from one key.\<close>

lemma fold_locks_lookup:
  "fmlookup (locks (fold (\<lambda>(k, x) s. case fmlookup (locks s) k of None \<Rightarrow> s
      | Some l \<Rightarrow> put_lock s k (g x l)) xs s)) k =
   map_option (fold g (map snd (filter (\<lambda>p. fst p = k) xs))) (fmlookup (locks s) k)"
proof (induction xs arbitrary: s)
  case Nil
  then show ?case by (simp add: option.map_ident id_def)
next
  case (Cons p xs)
  obtain j x where p: "p = (j, x)" by fastforce
  show ?case
    using Cons.IH by (cases "fmlookup (locks s) j"; cases "j = k") (simp_all add: p)
qed

lemma fold_drop_fields:
  "fold (\<lambda>u l. l\<lparr>exclusive_holders := fmdrop u (exclusive_holders l)\<rparr>) us l =
     l\<lparr>exclusive_holders := fold fmdrop us (exclusive_holders l)\<rparr>"
  "fold (\<lambda>u l. l\<lparr>readers := fmdrop u (readers l)\<rparr>) us l = l\<lparr>readers := fold fmdrop us (readers l)\<rparr>"
  by (induction us arbitrary: l) simp_all

lemma fold_locks_idem:
  assumes "\<And>l. f (f l) = f l"
  shows "fmlookup (locks (fold (\<lambda>k s. case fmlookup (locks s) k of None \<Rightarrow> s
      | Some l \<Rightarrow> put_lock s k (f l)) ks s)) k =
   (if k \<in> set ks then map_option f (fmlookup (locks s) k) else fmlookup (locks s) k)"
proof (induction ks arbitrary: s)
  case (Cons j ks)
  show ?case
    using Cons.IH assms by (cases "fmlookup (locks s) j"; cases "j = k") auto
qed simp

context broker_queue
begin

lemma fold_remove:
  defines "g \<equiv> \<lambda>u l. l\<lparr>queue := snd (lq_remove Q (queue l) u)\<rparr>"
  assumes "distinct (map fst (lq_iter Q (queue l)))"
  shows "set (lq_iter Q (queue (fold g us l))) \<subseteq> {x \<in> set (lq_iter Q (queue l)). fst x \<notin> set us} \<and>
    exclusive_holders (fold g us l) = exclusive_holders l \<and> readers (fold g us l) = readers l \<and>
    writer (fold g us l) = writer l"
  using assms(2)
proof (induction us arbitrary: l)
  case (Cons u us)
  have d: "distinct (map fst (lq_iter Q (queue (g u l))))"
    using lq.distinct_remove Cons.prems by (simp add: g_def)
  have "set (lq_iter Q (queue (g u l))) = {x \<in> set (lq_iter Q (queue l)). fst x \<noteq> u}"
    using Cons.prems by (auto simp: g_def lq.iter_remove drop_key_filter)
  with Cons.IH [OF d] show ?case by (auto simp: g_def)
qed simp

end

text \<open>After the removals of \<open>drop_client\<close> nothing of the client is left at a key.\<close>

context broker_env
begin

lemma removals_absent:
  assumes wf: "queue_ok Q k (queue l)"
    and q: "\<And>u p. (u, p) \<in> set (lq_iter Q (queue l)) \<Longrightarrow> pr_client p = c \<Longrightarrow> u \<in> set qs"
    and e: "\<And>u h. fmlookup (exclusive_holders l) u = Some h \<Longrightarrow> eh_client h = c \<Longrightarrow> u \<in> set es"
    and r: "\<And>u h. fmlookup (readers l) u = Some h \<Longrightarrow> rh_client h = c \<Longrightarrow> u \<in> set rs"
    and w: "\<And>h. writer l = Some h \<Longrightarrow> rh_client h = c \<Longrightarrow> b"
  shows "absent_lock Q c ((if b then \<lambda>l. l\<lparr>writer := None\<rparr> else id)
    (fold (\<lambda>u l. l\<lparr>readers := fmdrop u (readers l)\<rparr>) rs
    (fold (\<lambda>u l. l\<lparr>exclusive_holders := fmdrop u (exclusive_holders l)\<rparr>) es
    (fold (\<lambda>u l. l\<lparr>queue := snd (lq_remove Q (queue l) u)\<rparr>) qs l))))"
proof -
  let ?l = "fold (\<lambda>u l. l\<lparr>queue := snd (lq_remove Q (queue l) u)\<rparr>) qs l"
  have "distinct (map fst (lq_iter Q (queue l)))" using wf by (simp add: queue_ok_def)
  note f = fold_remove [OF this, of qs]
  have "pr_client (snd x) \<noteq> c" if "x \<in> set (lq_iter Q (queue ?l))" for x
    using f that q [of "fst x" "snd x"] by auto
  then show ?thesis
    using f e r w by (auto simp: absent_lock_def fold_drop_fields lookup_fold_fmdrop)
qed

lemma drop_unregistered_purges:
  assumes inv: "broker_inv Q {} s"
  shows "absent Q c (drop_unregistered_client Q E s c)"
proof -
  define ks where "ks = hash_iter E (reads s) (fmdom (locks s))"
  define lk where "lk = (\<lambda>k. the (fmlookup (locks s) k))"
  define qs where "qs = concat (map (\<lambda>k. map (\<lambda>(ru, _). (k, ru))
            (filter (\<lambda>(_, p). pr_client p = c) (lq_iter Q (queue (lk k))))) ks)"
  define es where "es = concat (map (\<lambda>k. map (\<lambda>lu. (k, lu))
            (filter (\<lambda>lu. eh_client (the (fmlookup (exclusive_holders (lk k)) lu)) = c)
              (hash_iter E (Suc (reads s)) (fmdom (exclusive_holders (lk k)))))) ks)"
  define rs where "rs = concat (map (\<lambda>k. map (\<lambda>lu. (k, lu))
            (filter (\<lambda>lu. rh_client (the (fmlookup (readers (lk k)) lu)) = c)
              (hash_iter E (Suc (reads s)) (fmdom (readers (lk k)))))) ks)"
  define ws where "ws = filter (\<lambda>k. case writer (lk k) of
              Some w \<Rightarrow> rh_client w = c | None \<Rightarrow> False) ks"
  define s1 where "s1 = fold (\<lambda>(k, ru) s. case fmlookup (locks s) k of None \<Rightarrow> s
      | Some l \<Rightarrow> put_lock s k (l\<lparr>queue := snd (lq_remove Q (queue l) ru)\<rparr>)) qs (bump s)"
  define s2 where "s2 = fold (\<lambda>(k, lu) s. case fmlookup (locks s) k of None \<Rightarrow> s
      | Some l \<Rightarrow> put_lock s k (l\<lparr>exclusive_holders := fmdrop lu (exclusive_holders l)\<rparr>)) es s1"
  define s3 where "s3 = fold (\<lambda>(k, lu) s. case fmlookup (locks s) k of None \<Rightarrow> s
      | Some l \<Rightarrow> put_lock s k (l\<lparr>readers := fmdrop lu (readers l)\<rparr>)) rs s2"
  define s4 where "s4 = fold (\<lambda>k s. case fmlookup (locks s) k of None \<Rightarrow> s
      | Some l \<Rightarrow> put_lock s k (l\<lparr>writer := None\<rparr>)) ws s3"
  have "absent_lock Q c l'" if l': "fmlookup (locks s4) k = Some l'" for k l'
  proof -
    let ?at = "\<lambda>xs. map snd (filter (\<lambda>p. fst p = k) xs)"
    from l' obtain l where l: "fmlookup (locks s) k = Some l"
      and eq: "l' = (if k \<in> set ws then \<lambda>l. l\<lparr>writer := None\<rparr> else id)
        (fold (\<lambda>u l. l\<lparr>readers := fmdrop u (readers l)\<rparr>) (?at rs)
        (fold (\<lambda>u l. l\<lparr>exclusive_holders := fmdrop u (exclusive_holders l)\<rparr>) (?at es)
        (fold (\<lambda>u l. l\<lparr>queue := snd (lq_remove Q (queue l) u)\<rparr>) (?at qs) l)))"
      unfolding s4_def s3_def s2_def s1_def
      by (auto simp: fold_locks_idem fold_locks_lookup split: if_splits)
    have k: "k \<in> set ks" "lk k = l" using l by (auto simp: ks_def lk_def set_hash_iter fmdomI)
    show ?thesis
      unfolding eq
    proof (rule removals_absent)
      show "queue_ok Q k (queue l)" using broker_invD(1) [OF inv l] by (simp add: lock_wf_def)
    qed (use k in \<open>force simp: qs_def es_def rs_def ws_def set_hash_iter fmdomI image_iff\<close>)+
  qed
  then have "absent Q c s4" by (simp add: absent_def locks_sat_def)
  then have "absent Q c (bump s4)" by (simp add: absent_def locks_sat_def)
  moreover have "absent Q c (fold (\<lambda>k s. run_grants Q E (maybe_mark_idle Q E s k) k) xs t)"
    if "absent Q c t" for xs t
    using that by (intro fold_invariant_set [where P = "absent Q c"])
      (auto intro!: purge.run_grants_invariant absent_mark_idle)
  ultimately show ?thesis
    unfolding drop_unregistered_client_def Let_def remove_from_queue_def bump_frame
    by (simp add: s4_def s3_def s2_def s1_def qs_def es_def rs_def ws_def ks_def lk_def bump_def)
qed

end

end
