(* ===== verification/Broker_Samples.thy ===== *)
theory Broker_Samples
  imports Broker_Reclaim
begin

text \<open>
  Concrete runs of the model, over the \<open>vecdeque\<close> queue and the demonstration host, that the
  properties of the broker are applied to.
\<close>

section \<open>Sample requests and states\<close>

type_synonym deque = "(string \<times> pending_request) list"

definition plain_lock :: "string \<Rightarrow> string \<Rightarrow> lock_fields" where
  "plain_lock u k =
     \<lparr>lk_uuid = u, lk_key = Some k, lk_keys = None, lk_pid = None, lk_ttl = Some 100,
      lk_max = None, lk_force = False, lk_retry_count = 0, lk_keep_locks_after_death = False,
      lk_wait = None\<rparr>"

definition many_lock :: "string \<Rightarrow> string list \<Rightarrow> lock_fields" where
  "many_lock u ks = (plain_lock u [])\<lparr>lk_key := None, lk_keys := Some ks\<rparr>"

definition no_override :: grant_overrides where
  "no_override = \<lparr>go_lock_uuid = None, go_fencing_seed = None\<rparr>"

definition sample_0 :: "deque broker_state" where
  "sample_0 = broker_state_new demo_host broker_config_default"

definition run_op :: "broker_op \<Rightarrow> deque broker_state \<Rightarrow> deque broker_state" where
  "run_op op s = the (perform vecdeque demo_host op s)"

text \<open>Two clients; the first holds \<open>k\<close>, the second waits for \<open>a\<close>, \<open>k\<close> and \<open>z\<close> and holds \<open>a\<close>.\<close>

definition sample_1 :: "deque broker_state" where
  "sample_1 = run_op (OpRequest 1 (ReqLock (plain_lock ''r1'' ''k'')) no_override)
     (run_op OpRegister (run_op OpRegister sample_0))"

definition sample_2 :: "deque broker_state" where
  "sample_2 = run_op (OpRequest 2 (ReqLock (many_lock ''r2'' [''z'', ''k'', ''a''])) no_override) sample_1"

text \<open>The first client leaves before the second asks for anything: \<open>k\<close> is free.\<close>

definition sample_3 :: "deque broker_state" where
  "sample_3 = run_op (OpDropClient 1) sample_1"

text \<open>One client takes \<open>k\<close>, gives it back by force and takes it again.\<close>

definition force_unlock :: "string \<Rightarrow> string \<Rightarrow> unlock_fields" where
  "force_unlock u k = \<lparr>ul_uuid = u, ul_key = Some k, ul_keys = None, ul_lock_uuid = None, ul_force = True\<rparr>"

definition sample_run :: "broker_op list" where
  "sample_run =
     [OpRegister, OpRequest 1 (ReqLock (plain_lock ''r1'' ''k'')) no_override,
      OpRequest 1 (ReqUnlock (force_unlock ''r2'' ''k'')) no_override,
      OpRequest 1 (ReqLock (plain_lock ''r3'' ''k'')) no_override]"

text \<open>The second client waits for \<open>k\<close>, which the first one holds.\<close>

definition sample_4 :: "deque broker_state" where
  "sample_4 = run_op (OpRequest 2 (ReqLock (plain_lock ''r3'' ''k'')) no_override) sample_1"

lemmas sample_defs = sample_4_def sample_3_def sample_run_def force_unlock_def sample_0_def sample_1_def sample_2_def run_op_def plain_lock_def many_lock_def
  no_override_def

section \<open>Their values\<close>

lemma sample_1_value:
  "sample_1 =
    \<lparr>locks =
        fmap_of_list
         [(''k'',
           \<lparr>exclusive_holders =
              fmap_of_list
               [(''u||||'',
                 \<lparr>eh_client = 1, eh_pid = None, eh_fencing_token = 6,
                    eh_keep_locks_after_death = False,
                    eh_composite_member = False\<rparr>)],
              ls_max = 1, readers = fmap_of_list [], writer = None,
              queue = LinkedQueue [], fencing_counter = 6,
              timestamp_emptied = None\<rparr>)],
        clients =
          fmap_of_list
           [(1, \<lparr>sender = 1,
                   held_lock_uuids =
                     fmap_of_list
                      [(''u||||'',
                        \<lparr>kl_keys = [''k''], kl_rw_kind = HoldExclusive\<rparr>)],
                   pending_request_uuids = []\<rparr>),
            (2, \<lparr>sender = 2, held_lock_uuids = fmap_of_list [],
                   pending_request_uuids = []\<rparr>)],
        next_client_id = 3,
        config =
          \<lparr>default_ttl = 4000000000, max_lock_holders = 1,
             ttl_sweep_interval = 10000000, max_concurrency_cap = 1000,
             idle_key_grace = 60000000000\<rparr>,
        deadlines =
          fmap_of_list
           [((100001000, 1),
             \<lparr>de_lock_uuid = ''u||||'', de_keys = [''k''],
                de_kind = HoldExclusive, de_client = 1\<rparr>)],
        deadline_seq = 1, ttl_evictions_total = 0, started_at = 1000,
        concurrency_cap_clamps_total = 0, fencing_watermark = 6,
        idle_keys_pruned_total = 0, reads = 6,
        observed =
          [RespLock
            \<lparr>lr_uuid = ''r1'', lr_key = ''k'', lr_acquired = True,
               lr_lock_request_count = 0, lr_lock_uuid = Some ''u||||'',
               lr_fencing_token = Some 6, lr_readers_count = Some 0,
               lr_error = None\<rparr>],
        outbox =
          [(1, RespLock
                \<lparr>lr_uuid = ''r1'', lr_key = ''k'', lr_acquired = True,
                   lr_lock_request_count = 0, lr_lock_uuid = Some ''u||||'',
                   lr_fencing_token = Some 6, lr_readers_count = Some 0,
                   lr_error = None\<rparr>)],
        issued = [(''k'', 6)]\<rparr>"
  unfolding sample_1_def sample_0_def run_op_def plain_lock_def many_lock_def no_override_def by code_simp

lemma sample_2_value:
  "sample_2 =
    \<lparr>locks =
        fmap_of_list
         [(''k'',
           \<lparr>exclusive_holders =
              fmap_of_list
               [(''u||||'',
                 \<lparr>eh_client = 1, eh_pid = None, eh_fencing_token = 6,
                    eh_keep_locks_after_death = False,
                    eh_composite_member = False\<rparr>)],
              ls_max = 1, readers = fmap_of_list [], writer = None,
              queue =
                LinkedQueue
                 [(''r2'',
                   \<lparr>pr_request_uuid = ''r2'', pr_client = 2, pr_pid = None,
                      pr_ttl = Some 100000000, pr_grant_lock_uuid = None,
                      pr_grant_fencing_seed = None,
                      pr_keep_locks_after_death = False,
                      pr_kind =
                        PendComposite [''a'', ''k'', ''z''] [''k'', ''z'']
                         [''a''] (fmap_of_list [(''a'', 7)]) ''u||||||''\<rparr>)],
              fencing_counter = 6, timestamp_emptied = None\<rparr>),
          (''a'',
           \<lparr>exclusive_holders =
              fmap_of_list
               [(''u||||||'',
                 \<lparr>eh_client = 2, eh_pid = None, eh_fencing_token = 7,
                    eh_keep_locks_after_death = False,
                    eh_composite_member = True\<rparr>)],
              ls_max = 1, readers = fmap_of_list [], writer = None,
              queue = LinkedQueue [], fencing_counter = 7,
              timestamp_emptied = None\<rparr>)],
        clients =
          fmap_of_list
           [(1, \<lparr>sender = 1,
                   held_lock_uuids =
                     fmap_of_list
                      [(''u||||'',
                        \<lparr>kl_keys = [''k''], kl_rw_kind = HoldExclusive\<rparr>)],
                   pending_request_uuids = []\<rparr>),
            (2, \<lparr>sender = 2,
                   held_lock_uuids =
                     fmap_of_list
                      [(''u||||||'',
                        \<lparr>kl_keys = [''a'', ''k'', ''z''],
                           kl_rw_kind = HoldExclusive\<rparr>)],
                   pending_request_uuids = [(''k'', ''r2'')]\<rparr>)],
        next_client_id = 3,
        config =
          \<lparr>default_ttl = 4000000000, max_lock_holders = 1,
             ttl_sweep_interval = 10000000, max_concurrency_cap = 1000,
             idle_key_grace = 60000000000\<rparr>,
        deadlines =
          fmap_of_list
           [((100001000, 1),
             \<lparr>de_lock_uuid = ''u||||'', de_keys = [''k''],
                de_kind = HoldExclusive, de_client = 1\<rparr>)],
        deadline_seq = 1, ttl_evictions_total = 0, started_at = 1000,
        concurrency_cap_clamps_total = 0, fencing_watermark = 7,
        idle_keys_pruned_total = 0, reads = 8,
        observed =
          [RespLock
            \<lparr>lr_uuid = ''r1'', lr_key = ''k'', lr_acquired = True,
               lr_lock_request_count = 0, lr_lock_uuid = Some ''u||||'',
               lr_fencing_token = Some 6, lr_readers_count = Some 0,
               lr_error = None\<rparr>,
           RespCompositeLock
            \<lparr>cr_uuid = ''r2'', cr_keys = [''a'', ''k'', ''z''],
               cr_acquired = False, cr_lock_uuid = Some ''u||||||'',
               cr_fencing_tokens = None, cr_error = None\<rparr>],
        outbox =
          [(1, RespLock
                \<lparr>lr_uuid = ''r1'', lr_key = ''k'', lr_acquired = True,
                   lr_lock_request_count = 0, lr_lock_uuid = Some ''u||||'',
                   lr_fencing_token = Some 6, lr_readers_count = Some 0,
                   lr_error = None\<rparr>),
           (2, RespCompositeLock
                \<lparr>cr_uuid = ''r2'', cr_keys = [''a'', ''k'', ''z''],
                   cr_acquired = False, cr_lock_uuid = Some ''u||||||'',
                   cr_fencing_tokens = None, cr_error = None\<rparr>)],
        issued = [(''k'', 6), (''a'', 7)]\<rparr>"
  unfolding sample_2_def sample_1_value run_op_def plain_lock_def many_lock_def no_override_def by code_simp

lemma sample_3_value:
  "sample_3 =
    \<lparr>locks =
        fmap_of_list
         [(''k'',
           \<lparr>exclusive_holders = fmap_of_list [], ls_max = 1,
              readers = fmap_of_list [], writer = None, queue = LinkedQueue [],
              fencing_counter = 6, timestamp_emptied = Some 1000\<rparr>)],
        clients =
          fmap_of_list
           [(2, \<lparr>sender = 2, held_lock_uuids = fmap_of_list [],
                   pending_request_uuids = []\<rparr>)],
        next_client_id = 3,
        config =
          \<lparr>default_ttl = 4000000000, max_lock_holders = 1,
             ttl_sweep_interval = 10000000, max_concurrency_cap = 1000,
             idle_key_grace = 60000000000\<rparr>,
        deadlines =
          fmap_of_list
           [((100001000, 1),
             \<lparr>de_lock_uuid = ''u||||'', de_keys = [''k''],
                de_kind = HoldExclusive, de_client = 1\<rparr>)],
        deadline_seq = 1, ttl_evictions_total = 0, started_at = 1000,
        concurrency_cap_clamps_total = 0, fencing_watermark = 6,
        idle_keys_pruned_total = 0, reads = 9,
        observed =
          [RespLock
            \<lparr>lr_uuid = ''r1'', lr_key = ''k'', lr_acquired = True,
               lr_lock_request_count = 0, lr_lock_uuid = Some ''u||||'',
               lr_fencing_token = Some 6, lr_readers_count = Some 0,
               lr_error = None\<rparr>],
        outbox =
          [(1, RespLock
                \<lparr>lr_uuid = ''r1'', lr_key = ''k'', lr_acquired = True,
                   lr_lock_request_count = 0, lr_lock_uuid = Some ''u||||'',
                   lr_fencing_token = Some 6, lr_readers_count = Some 0,
                   lr_error = None\<rparr>)],
        issued = [(''k'', 6)]\<rparr>"
  unfolding sample_3_def sample_1_value run_op_def plain_lock_def many_lock_def no_override_def by code_simp

lemma sample_4_value:
  "sample_4 =
    \<lparr>locks =
        fmap_of_list
         [(''k'',
           \<lparr>exclusive_holders =
              fmap_of_list
               [(''u||||'',
                 \<lparr>eh_client = 1, eh_pid = None, eh_fencing_token = 6,
                    eh_keep_locks_after_death = False,
                    eh_composite_member = False\<rparr>)],
              ls_max = 1, readers = fmap_of_list [], writer = None,
              queue =
                LinkedQueue
                 [(''r3'',
                   \<lparr>pr_request_uuid = ''r3'', pr_client = 2, pr_pid = None,
                      pr_ttl = Some 100000000, pr_grant_lock_uuid = None,
                      pr_grant_fencing_seed = None,
                      pr_keep_locks_after_death = False,
                      pr_kind = PendExclusive\<rparr>)],
              fencing_counter = 6, timestamp_emptied = None\<rparr>)],
        clients =
          fmap_of_list
           [(1, \<lparr>sender = 1,
                   held_lock_uuids =
                     fmap_of_list
                      [(''u||||'',
                        \<lparr>kl_keys = [''k''], kl_rw_kind = HoldExclusive\<rparr>)],
                   pending_request_uuids = []\<rparr>),
            (2, \<lparr>sender = 2, held_lock_uuids = fmap_of_list [],
                   pending_request_uuids = [(''k'', ''r3'')]\<rparr>)],
        next_client_id = 3,
        config =
          \<lparr>default_ttl = 4000000000, max_lock_holders = 1,
             ttl_sweep_interval = 10000000, max_concurrency_cap = 1000,
             idle_key_grace = 60000000000\<rparr>,
        deadlines =
          fmap_of_list
           [((100001000, 1),
             \<lparr>de_lock_uuid = ''u||||'', de_keys = [''k''],
                de_kind = HoldExclusive, de_client = 1\<rparr>)],
        deadline_seq = 1, ttl_evictions_total = 0, started_at = 1000,
        concurrency_cap_clamps_total = 0, fencing_watermark = 6,
        idle_keys_pruned_total = 0, reads = 6,
        observed =
          [RespLock
            \<lparr>lr_uuid = ''r1'', lr_key = ''k'', lr_acquired = True,
               lr_lock_request_count = 0, lr_lock_uuid = Some ''u||||'',
               lr_fencing_token = Some 6, lr_readers_count = Some 0,
               lr_error = None\<rparr>,
           RespLock
            \<lparr>lr_uuid = ''r3'', lr_key = ''k'', lr_acquired = False,
               lr_lock_request_count = 1, lr_lock_uuid = None,
               lr_fencing_token = None, lr_readers_count = Some 0,
               lr_error = None\<rparr>],
        outbox =
          [(1, RespLock
                \<lparr>lr_uuid = ''r1'', lr_key = ''k'', lr_acquired = True,
                   lr_lock_request_count = 0, lr_lock_uuid = Some ''u||||'',
                   lr_fencing_token = Some 6, lr_readers_count = Some 0,
                   lr_error = None\<rparr>),
           (2, RespLock
                \<lparr>lr_uuid = ''r3'', lr_key = ''k'', lr_acquired = False,
                   lr_lock_request_count = 1, lr_lock_uuid = None,
                   lr_fencing_token = None, lr_readers_count = Some 0,
                   lr_error = None\<rparr>)],
        issued = [(''k'', 6)]\<rparr>"
  unfolding sample_4_def sample_1_value run_op_def plain_lock_def many_lock_def no_override_def by code_simp

section \<open>Facts about them\<close>

lemma reachable_run_op:
  assumes "reachable vecdeque demo_host cfg s" and "perform vecdeque demo_host op s \<noteq> None"
  shows "reachable vecdeque demo_host cfg (run_op op s)"
  using assms by (auto simp: run_op_def intro: reachable.step)

lemma reachable_sample_0: "reachable vecdeque demo_host broker_config_default sample_0"
  unfolding sample_0_def by (rule reachable.start)

lemma reachable_sample_1: "reachable vecdeque demo_host broker_config_default sample_1"
proof -
  have "perform vecdeque demo_host OpRegister sample_0 \<noteq> None"
    "perform vecdeque demo_host OpRegister (run_op OpRegister sample_0) \<noteq> None"
    unfolding sample_defs by code_simp+
  then show ?thesis
    unfolding sample_1_def by (intro reachable_run_op reachable_sample_0) simp_all
qed

lemma reachable_sample_2: "reachable vecdeque demo_host broker_config_default sample_2"
  unfolding sample_2_def by (intro reachable_run_op reachable_sample_1) simp

lemma reachable_sample_3: "reachable vecdeque demo_host broker_config_default sample_3"
  unfolding sample_3_def by (intro reachable_run_op reachable_sample_1) simp

lemma reachable_sample_4: "reachable vecdeque demo_host broker_config_default sample_4"
  unfolding sample_4_def by (intro reachable_run_op reachable_sample_1) simp

lemma sample_run_result:
  "case run_ops vecdeque demo_host sample_run (broker_state_new demo_host broker_config_default) of
     None \<Rightarrow> False
   | Some s \<Rightarrow> length (tokens_of ''k'' s) = 2 \<and> fencing_watermark s < - 1"
  unfolding sample_defs by code_simp

lemma sample_1_facts:
  "fmdom (clients sample_1) = {|1, 2|}"
  "owners_at sample_1 ''u||||'' ''k'' = [1]"
  "key_free sample_1 ''a''" "key_free sample_1 ''b''" "\<not> key_free sample_1 ''k''"
  by (simp_all add: sample_1_value owners_at_def holder_clients_def key_free_def all_free_def
      finsert_commute)

end
