(* ===== verification/Broker_Outcomes.thy ===== *)
theory Broker_Outcomes
  imports Broker_Reclaim
begin

text \<open>
  The outcome of a request on each of its branches: \<open>unlock\<close> when it is allowed, refused or
  forced without a lock UUID, and an exclusive \<open>lock\<close> request that is granted or queued.
\<close>

section \<open>Outcomes of \<open>unlock\<close>\<close>

lemma unlock_keys_frame:
  "outbox (snd (unlock_keys Q E can t ks a s)) = outbox s"
  "clients (snd (unlock_keys Q E can t ks a s)) = clients s"
  by (induction ks arbitrary: a s; auto simp: split_beta Let_def split: option.split)+

lemma unlock_untrack_frame [simp]:
  "locks (unlock_untrack lu a s) = locks s"
  "outbox (unlock_untrack lu a s) = outbox s"
  "fmdom (clients (unlock_untrack lu a s)) = fmdom (clients s)"
proof -
  have f: "locks (fold (\<lambda>(c, lu) s. untrack_holder s c lu) xs t) = locks t"
    "outbox (fold (\<lambda>(c, lu) s. untrack_holder s c lu) xs t) = outbox t"
    "fmdom (clients (fold (\<lambda>(c, lu) s. untrack_holder s c lu) xs t)) = fmdom (clients t)"
    for xs and t :: "'a broker_state"
    by (rule fold_frame; simp add: split_beta)+
  show "locks (unlock_untrack lu a s) = locks s" "outbox (unlock_untrack lu a s) = outbox s"
    "fmdom (clients (unlock_untrack lu a s)) = fmdom (clients s)"
    by (simp_all add: unlock_untrack_def f split: option.split)
qed

text \<open>\<open>unlock\<close> past its argument checks: the key loop, the bookkeeping, the grants, the reply.\<close>

definition unlock_loop ::
  "'q pending_queue \<Rightarrow> host \<Rightarrow> 'q broker_state \<Rightarrow> client_id \<Rightarrow> string list \<Rightarrow> string option \<Rightarrow> bool \<Rightarrow>
   unlock_acc \<times> 'q broker_state" where
  "unlock_loop Q E s client keys lock_uuid force =
     unlock_keys Q E (\<lambda>ownr. force \<or> ownr = client \<or> ownr |\<notin>| fmdom (clients s)) lock_uuid keys
       \<lparr>ua_total_unlocked = False, ua_last_depth = 0, ua_wiped = [], ua_removed = [],
        ua_ownership_denied = False\<rparr> s"

lemma handle_unlock_run:
  assumes "keys \<noteq> []" and "lock_uuid \<noteq> None \<or> force" and "unlock_loop Q E s client keys lock_uuid force = (a, s1)"
  shows "handle_unlock Q E s client uuid keys lock_uuid force =
    send (fold (\<lambda>k s. run_grants Q E s k) keys (unlock_untrack lock_uuid a s1)) client
      (RespUnlock \<lparr>ur_uuid = uuid, ur_keys = keys, ur_unlocked = ua_total_unlocked a,
         ur_lock_request_count = ua_last_depth a, ur_error = unlock_error force lock_uuid a\<rparr>)"
  using assms by (auto simp: handle_unlock_def unlock_loop_def Let_def split_beta)

lemma unlock_loop_allowed:
  assumes "\<forall>k \<in> set keys. \<forall>c \<in> set (owners_at s t k). force \<or> c = client \<or> c |\<notin>| fmdom (clients s)"
    and "unlock_loop Q E s client keys (Some t) force = (a, s1)"
  shows "fmlookup (locks s1) k = drop_at t keys s k"
    and "ua_total_unlocked a = (\<exists>k \<in> set keys. owners_at s t k \<noteq> [])"
    and "outbox s1 = outbox s" and "clients s1 = clients s"
  using unlock_keys_allowed [OF assms(1)] assms(2) unlock_keys_frame
  unfolding unlock_loop_def by (metis (no_types, lifting) fst_conv snd_conv unlock_acc.select_convs(1))+

lemma unlock_loop_refused:
  assumes "\<forall>k \<in> set keys. \<forall>c \<in> set (owners_at s t k). c \<noteq> client \<and> c |\<in>| fmdom (clients s)"
    and "unlock_loop Q E s client keys (Some t) False = (a, s1)"
  shows "s1 = s" and "\<not> ua_total_unlocked a"
    and "ua_ownership_denied a = (\<exists>k \<in> set keys. owners_at s t k \<noteq> [])"
proof -
  have "\<forall>k \<in> set keys. \<forall>c \<in> set (owners_at s t k). \<not> (False \<or> c = client \<or> c |\<notin>| fmdom (clients s))"
    using assms(1) by blast
  from unlock_keys_refused [OF this] assms(2)
  show "s1 = s" "\<not> ua_total_unlocked a" "ua_ownership_denied a = (\<exists>k \<in> set keys. owners_at s t k \<noteq> [])"
    unfolding unlock_loop_def by (metis (no_types, lifting) fst_conv snd_conv unlock_acc.select_convs(1,5))+
qed

lemma unlock_loop_wipe:
  assumes "unlock_loop Q E s client keys None True = (a, s1)"
  shows "fmlookup (locks s1) k =
      (if k \<in> set keys then map_option wiped (fmlookup (locks s) k) else fmlookup (locks s) k)"
    and "ua_total_unlocked a = (\<exists>k \<in> set keys. \<not> key_free s k)"
  using unlock_keys_wipe [of Q E "\<lambda>ownr. True \<or> ownr = client \<or> ownr |\<notin>| fmdom (clients s)" keys] assms
  unfolding unlock_loop_def by (metis (no_types, lifting) fst_conv snd_conv unlock_acc.select_convs(1))+

context broker_env
begin

lemma unlock_grants_head:
  assumes l: "fmlookup (locks s) key = Some l"
    and dom: "fmdom (exclusive_holders l) = {|t|}" and free: "readers l = fmempty" "writer l = None"
    and lv: "0 < ls_max l" and own: "force \<or> owners_at s t key = [client]"
    and q: "lq_iter Q (queue l) = (u, p) # rest" "pr_kind p = PendExclusive"
    and c: "pr_client p |\<in>| fmdom (clients s)"
  shows "\<exists>r. (pr_client p, RespLock r) \<in> set (drop (length (outbox s))
      (outbox (handle_unlock Q E s client uuid [key] (Some t) force))) \<and>
    lr_uuid r = pr_request_uuid p \<and> lr_key r = key \<and> lr_acquired r \<and>
    lr_fencing_token r = Some (token_of l (pr_grant_fencing_seed p))"
proof -
  have "\<forall>k \<in> set [key]. \<forall>c \<in> set (owners_at s t k). force \<or> c = client \<or> c |\<notin>| fmdom (clients s)"
    using own by auto
  note al = unlock_loop_allowed [OF this]
  obtain a s0 where lp: "unlock_loop Q E s client [key] (Some t) force = (a, s0)" by fastforce
  let ?s1 = "unlock_untrack (Some t) a s0"
  define s1 where "s1 = ?s1"
  have h: "\<exists>r0. handle_unlock Q E s client uuid [key] (Some t) force =
      send (run_grants Q E s1 key) client (RespUnlock r0)"
    using handle_unlock_run [OF _ _ lp, of uuid] by (auto simp: s1_def)
  have lk: "fmlookup (locks s1) key = drop_at t [key] s key" and ob: "outbox s1 = outbox s"
    and cl: "fmdom (clients s1) = fmdom (clients s)"
    using al [OF lp] by (simp_all add: s1_def)
  have ex: "fmdrop t (exclusive_holders l) = fmempty"
    unfolding hm_is_empty_iff [symmetric] hm_is_empty_def by (simp add: dom)
  let ?l = "drop_target t l"
  have l1: "fmlookup (locks s1) key = Some ?l" using lk l by (simp add: drop_at_def)
  have q1: "lq_iter Q (queue ?l) = (u, p) # rest" using q by (simp add: drop_target_def)
  have can: "can_grant_exclusive ?l"
    using free lv ex by (simp add: can_grant_exclusive_def drop_target_def)
  have tok: "token_of ?l f = token_of l f" for f
    by (simp add: drop_target_def token_of_def next_or_forced_fencing_token_def next_fencing_token_def Let_def
        split: option.split)
  have "pr_client p |\<in>| fmdom (clients s1)" using c cl by simp
  from head_granted [OF l1 q1 q(2) can this] obtain r where
    "(pr_client p, RespLock r) \<in> set (drop (length (outbox s)) (outbox (run_grants Q E s1 key)))"
    "lr_uuid r = pr_request_uuid p" "lr_key r = key" "lr_acquired r"
    "lr_fencing_token r = Some (token_of l (pr_grant_fencing_seed p))"
    by (auto simp: ob tok)
  with h show ?thesis by (auto simp: outbox_send)
qed

end

section \<open>What an exclusive request does\<close>

definition chosen_uuid :: "host \<Rightarrow> 'q broker_state \<Rightarrow> grant_overrides \<Rightarrow> string" where
  "chosen_uuid E s go = (case go_lock_uuid go of Some u \<Rightarrow> u | None \<Rightarrow> new_v4 E (reads s))"

definition granted_lock_response ::
  "string \<Rightarrow> string \<Rightarrow> nat \<Rightarrow> string \<Rightarrow> u64 \<Rightarrow> response" where
  "granted_lock_response uuid key depth u token =
     RespLock \<lparr>lr_uuid = uuid, lr_key = key, lr_acquired = True, lr_lock_request_count = depth,
       lr_lock_uuid = Some u, lr_fencing_token = Some token, lr_readers_count = Some 0,
       lr_error = None\<rparr>"

lemma reads_resolve_max [simp]: "reads (snd (resolve_max s cur mx)) = reads s"
  by (simp add: resolve_max_def Let_def split: option.split)

text \<open>The exclusive holders of a key, of which an unknown key has none.\<close>

definition holders_at :: "'q broker_state \<Rightarrow> string \<Rightarrow> (string, exclusive_holder) fmap" where
  "holders_at s key = (case fmlookup (locks s) key of Some l \<Rightarrow> exclusive_holders l | None \<Rightarrow> fmempty)"

text \<open>
  A key that is open to an exclusive request: nobody knows it yet, or nobody waits for it,
  no writer, no reader and no member of a composite lock holds it, and there is a place left
  at the level the request resolves to.
\<close>

definition open_to_exclusive :: "'q pending_queue \<Rightarrow> 'q broker_state \<Rightarrow> string \<Rightarrow> u32 option \<Rightarrow> bool" where
  "open_to_exclusive Q s key mx =
     (case fmlookup (locks s) key of
        None \<Rightarrow> True
      | Some l \<Rightarrow> lq_iter Q (queue l) = [] \<and> writer l = None \<and> readers l = fmempty \<and>
          fmpred (\<lambda>_ h. \<not> eh_composite_member h) (exclusive_holders l) \<and>
          hm_len (exclusive_holders l) < unat (fst (resolve_max s (ls_max l) mx)))"

definition queued_lock_response :: "string \<Rightarrow> string \<Rightarrow> nat \<Rightarrow> response" where
  "queued_lock_response uuid key depth =
     RespLock \<lparr>lr_uuid = uuid, lr_key = key, lr_acquired = False, lr_lock_request_count = depth,
       lr_lock_uuid = None, lr_fencing_token = None, lr_readers_count = Some 0, lr_error = None\<rparr>"

lemma holders_put: "holders_at (put_lock s k l) key = (if k = key then exclusive_holders l else holders_at s key)"
  by (simp add: holders_at_def)

lemma holders_frames [simp]:
  "holders_at (send s c r) key = holders_at s key"
  "holders_at (schedule_deadline E s ttl u ks kind c) key = holders_at s key"
  "holders_at (track_holder s c u ks kind) key = holders_at s key"
  "holders_at (track_pending s c k u) key = holders_at s key"
  "holders_at (observe_fencing_token s token) key = holders_at s key"
  "holders_at (note_issued s k token) key = holders_at s key"
  by (simp_all add: holders_at_def)

lemma holders_mark_idle [simp]: "holders_at (maybe_mark_idle Q E s k) key = holders_at s key"
  by (auto simp: maybe_mark_idle_def holders_at_def split: option.split)

lemma mark_idle_other: "k \<noteq> key \<Longrightarrow> fmlookup (locks (maybe_mark_idle Q E s key)) k = fmlookup (locks s) k"
  by (auto simp: maybe_mark_idle_def split: option.split)

lemma default_resolved:
  "fst (lock_or_default Q E (snd (resolve_max s cur mx)) key) = fst (lock_or_default Q E s key) \<and>
   reads (snd (lock_or_default Q E (snd (resolve_max s cur mx)) key)) = reads (snd (lock_or_default Q E s key))"
proof -
  have f: "config (snd (resolve_max s cur mx)) = config s" "fencing_watermark (snd (resolve_max s cur mx)) = fencing_watermark s"
    "locks (snd (resolve_max s cur mx)) = locks s"
    by (simp_all add: resolve_max_def Let_def split: option.split)
  show ?thesis
    by (cases "fmlookup (locks s) key") (simp_all add: lock_or_default_def Let_def f bump_def put_lock_def)
qed

context broker_queue
begin

lemma open_facts:
  assumes "open_to_exclusive Q s key mx" and l_def: "l = fst (lock_or_default Q E s key)"
  shows "writer l = None" and "readers l = fmempty" and "lq_iter Q (queue l) = []"
    and "exclusive_holders l = holders_at s key"
    and "hm_len (exclusive_holders l) < unat (fst (resolve_max s
      (case fmlookup (locks s) key of Some l \<Rightarrow> ls_max l | None \<Rightarrow> max_lock_holders (config s)) mx))"
proof -
  have "0 < unat (fst (resolve_max s cur mx))" for cur
    using resolve_max_bounds(1) [of s cur mx] by (simp add: word_le_nat_alt)
  then show "hm_len (exclusive_holders l) < unat (fst (resolve_max s
      (case fmlookup (locks s) key of Some l \<Rightarrow> ls_max l | None \<Rightarrow> max_lock_holders (config s)) mx))"
    using assms(1)
    by (auto simp: l_def open_to_exclusive_def lock_or_default_known lock_or_default_fresh hm_len_def fcard_fempty split: option.splits)
  show "writer l = None" and "readers l = fmempty" and "lq_iter Q (queue l) = []"
    and "exclusive_holders l = holders_at s key"
    using assms(1)
    by (auto simp: l_def open_to_exclusive_def lock_or_default_known lock_or_default_fresh holders_at_def lq.iter_new waiting_def
        split: option.splits)
qed

lemma exclusive_granted:
  assumes op: "open_to_exclusive Q s key mx"
    and s': "s' = handle_exclusive_lock Q E s client uuid key pid ttl mx keep force wait go"
    and u: "u = chosen_uuid E (snd (lock_or_default Q E s key)) go"
    and token: "token = token_of (fst (lock_or_default Q E s key)) (grant_token go 0)"
  shows "observed s' = observed s @ [granted_lock_response uuid key 0 u token]"
    and "holders_at s' key = fmupd u \<lparr>eh_client = client, eh_pid = pid, eh_fencing_token = token,
        eh_keep_locks_after_death = keep, eh_composite_member = False\<rparr> (holders_at s key)"
    and "waiting Q s' key = []"
    and "k \<noteq> key \<Longrightarrow> fmlookup (locks s') k = fmlookup (locks s) k"
proof -
  define cur where "cur = (case fmlookup (locks s) key of Some l \<Rightarrow> ls_max l | None \<Rightarrow> max_lock_holders (config s))"
  let ?m = "resolve_max s cur mx"
  define l where "l = fst (lock_or_default Q E s key)"
  obtain t where d: "lock_or_default Q E (snd ?m) key = (l, t)" and r: "reads t = reads (snd (lock_or_default Q E s key))"
    using default_resolved [where Q = Q and E = E and s = s and cur = cur and mx = mx and key = key]
    by (cases "lock_or_default Q E (snd ?m) key") (auto simp: l_def)
  have t: "observed t = observed s" "k \<noteq> key \<Longrightarrow> fmlookup (locks t) k = fmlookup (locks s) k" for k
    using d lock_or_default_other [of k key Q E "snd ?m"]
    by (cases "fmlookup (locks s) key"; auto simp: lock_or_default_known lock_or_default_fresh)+
  note o = open_facts [OF op l_def, folded cur_def]
  have u': "fst (uuid_or_new E t (go_lock_uuid go)) = u"
    by (simp add: uuid_or_new_def u chosen_uuid_def r split: option.split)
  have tk: "fst (next_or_forced_fencing_token (l\<lparr>ls_max := k\<rparr>) (grant_token go 0)) = token" for k
    using token_of_max [where l = l and m = k and f = "grant_token go 0"] by (simp add: token token_of_def l_def)
  have n: "lq_len Q (queue l) = 0" using o(3) by (simp add: lq.len_iter)
  note defs = handle_exclusive_lock_def cur_def [symmetric] Let_def split_beta d u' tk n o t
  show "observed s' = observed s @ [granted_lock_response uuid key 0 u token]"
    using o(5) by (simp add: s' defs granted_lock_response_def)
  show "holders_at s' key = fmupd u \<lparr>eh_client = client, eh_pid = pid, eh_fencing_token = token,
        eh_keep_locks_after_death = keep, eh_composite_member = False\<rparr> (holders_at s key)"
    using o(5) by (simp add: s' defs holders_put)
  show "waiting Q s' key = []" using o(5) by (simp add: s' defs waiting_put)
  show "fmlookup (locks s') k = fmlookup (locks s) k" if "k \<noteq> key"
    using o(5) that by (simp add: s' defs mark_idle_other)
qed

lemma exclusive_queued:
  assumes "fmlookup (locks s) key = Some l"
    and "\<not> (writer l = None \<and> readers l = fmempty \<and>
      hm_len (exclusive_holders l) < unat (fst (resolve_max s (ls_max l) mx)))"
    and "uuid \<notin> fst ` set (waiting Q s key)"
    and s': "s' = handle_exclusive_lock Q E s client uuid key pid ttl mx keep False True go"
  shows "\<exists>p. pr_request_uuid p = uuid \<and> pr_client p = client \<and> pr_kind p = PendExclusive \<and>
      waiting Q s' key = waiting Q s key @ [(uuid, p)]"
    and "holders_at s' key = holders_at s key"
    and "observed s' = observed s @ [queued_lock_response uuid key (length (waiting Q s key) + 1)]"
    and "k \<noteq> key \<Longrightarrow> fmlookup (locks s') k = fmlookup (locks s) k"
proof -
  let ?m = "resolve_max s (ls_max l) mx"
  have d: "lock_or_default Q E (snd ?m) key = (l, snd ?m)"
    by (rule lock_or_default_known) (simp add: assms(1))
  have w: "waiting Q s key = lq_iter Q (queue l)" using assms(1) by (simp add: waiting_def)
  have fresh: "uuid \<notin> fst ` set (lq_iter Q (queue l))" using assms(3) w by simp
  let ?p = "\<lparr>pr_request_uuid = uuid, pr_client = client, pr_pid = pid,
                  pr_ttl = ttl, pr_grant_lock_uuid = go_lock_uuid go,
                  pr_grant_fencing_seed = go_fencing_seed go,
                  pr_keep_locks_after_death = keep, pr_kind = PendExclusive\<rparr>"
  note defs = s' handle_exclusive_lock_def Let_def split_beta assms(1) d
  show "\<exists>p. pr_request_uuid p = uuid \<and> pr_client p = client \<and> pr_kind p = PendExclusive \<and>
      waiting Q s' key = waiting Q s key @ [(uuid, p)]"
    using assms(2) fresh
    by (intro exI [of _ ?p]) (auto simp: defs waiting_put w lq.iter_push_back)
  show "holders_at s' key = holders_at s key"
    using assms(2) by (auto simp: defs holders_put) (auto simp: holders_at_def assms(1))
  show "observed s' = observed s @ [queued_lock_response uuid key (length (waiting Q s key) + 1)]"
    using assms(2) fresh by (auto simp: defs queued_lock_response_def lq.len_iter lq.iter_push_back w)
  show "fmlookup (locks s') k = fmlookup (locks s) k" if "k \<noteq> key"
    using assms(2) that by (auto simp: defs mark_idle_other)
qed

end

end
