(* ===== verification/Broker_Properties.thy ===== *)
theory Broker_Properties
  imports Broker_Samples Broker_Outcomes
begin

text \<open>
  What the broker guarantees, stated over the definitions of the model.  A property about
  all states quantifies over \<open>reachable\<close>: every state the public operations can produce from
  the initial one, in any order, under any host and over any queue that keeps the contract
  of the \<open>linked-queue\<close> crate.  Every property with a hypothesis is followed by an instance of
  it on one of the runs of \<open>Broker_Samples\<close>.
\<close>

section \<open>Safety of reachable states\<close>

text \<open>
  C1: mutual exclusion.  In every reachable state, whatever the clients, the host and the
  order of the operations were, a key with a writer has no reader and no exclusive holder, a
  key with a reader has no exclusive holder, and the number of exclusive holders of a key is
  at most the configured concurrency cap, which also bounds the key's own level from above
  while one bounds it from below.
\<close>

theorem mutual_exclusion:
  assumes "broker_env Q E" and "reachable Q E cfg s" and "fmlookup (locks s) key = Some l"
  shows "(writer l \<noteq> None \<longrightarrow> readers l = fmempty \<and> exclusive_holders l = fmempty) \<and>
    (readers l \<noteq> fmempty \<longrightarrow> exclusive_holders l = fmempty) \<and>
    hm_len (exclusive_holders l) \<le> unat (concurrency_cap (config s)) \<and>
    1 \<le> ls_max l \<and> ls_max l \<le> concurrency_cap (config s)"
  using broker_invD(1) [OF broker_env.reachable_inv [OF assms(1,2)] assms(3)]
  by (simp add: lock_wf_def holders_ok_def)

theorem mutual_exclusion_witness:
  "\<exists>l. fmlookup (locks sample_2) ''k'' = Some l \<and> exclusive_holders l \<noteq> fmempty \<and>
    writer l = None \<and> readers l = fmempty"
proof -
  obtain l where l: "fmlookup (locks sample_2) ''k'' = Some l" and ne: "exclusive_holders l \<noteq> fmempty"
    by (simp add: sample_2_value)
  with mutual_exclusion [OF demo_env.broker_env_axioms reachable_sample_2 l] show ?thesis by auto
qed

text \<open>
  C2: no missed wakeup.  In every reachable state, a key that nobody holds has an empty
  queue: no client waits for a key it could be granted right away.
\<close>

theorem no_missed_wakeup:
  assumes "broker_env Q E" and "reachable Q E cfg s" and "fmlookup (locks s) key = Some l"
    and "writer l = None" and "readers l = fmempty" and "exclusive_holders l = fmempty"
  shows "lq_iter Q (queue l) = []"
  using broker_invD(2) [OF broker_env.reachable_inv [OF assms(1,2)] assms(3)] assms(4-6)
  by (simp add: parked_ok_def all_free_def)

theorem no_missed_wakeup_witness:
  "\<exists>l. fmlookup (locks sample_3) ''k'' = Some l \<and> lq_iter vecdeque (queue l) = []"
proof -
  obtain l where l: "fmlookup (locks sample_3) ''k'' = Some l"
    and f: "writer l = None" "readers l = fmempty" "exclusive_holders l = fmempty"
    by (simp add: sample_3_value)
  from no_missed_wakeup [OF demo_env.broker_env_axioms reachable_sample_3 l f] l show ?thesis by blast
qed

text \<open>
  C3: fencing tokens of one key strictly increase.  For every run of the broker in which no
  token is dictated from outside, the wall clock is below the largest 64-bit number and so is
  the final watermark, the tokens issued for a key, in the order of the grants, are strictly
  increasing; pruning an idle key and creating it again does not restart them.
\<close>

theorem fencing_tokens_increase:
  assumes "fencing_env Q E" and "run_ops Q E ops (broker_state_new E cfg) = Some s"
    and "list_all no_seed ops" and "fencing_watermark s < - 1"
  shows "sorted_wrt (<) (tokens_of key s)"
  using assms by (rule fencing_env.tokens_increase)

theorem fencing_tokens_increase_witness:
  "\<exists>s. run_ops vecdeque demo_host sample_run (broker_state_new demo_host broker_config_default) = Some s \<and>
     length (tokens_of ''k'' s) = 2 \<and> sorted_wrt (<) (tokens_of ''k'' s)"
proof -
  from sample_run_result obtain s
    where s: "run_ops vecdeque demo_host sample_run (broker_state_new demo_host broker_config_default) = Some s"
      "length (tokens_of ''k'' s) = 2" "fencing_watermark s < - 1"
    by (auto split: option.splits)
  have "list_all no_seed sample_run" by (simp add: sample_run_def no_seed_def no_override_def)
  from fencing_tokens_increase [OF demo_fencing.fencing_env_axioms s(1) this s(3)] s show ?thesis by blast
qed

text \<open>
  C4: the scheduler returns.  \<open>try_grant_next\<close> and the two functions it calls recurse into
  each other across keys; with any fuel from \<open>grant_fuel\<close> on, which is linear in the number of
  outstanding grants in all queues, it ends, without reaching the panic of its \<open>expect\<close>, and
  the result does not depend on the fuel.
\<close>

theorem scheduler_returns:
  assumes "broker_queue Q" and "grant_fuel Q s \<le> n"
  shows "try_grant_next n Q E s key = Some (run_grants Q E s key)"
  using assms by (rule broker_queue.try_grant_next_total)

theorem scheduler_returns_witness:
  "try_grant_next (grant_fuel vecdeque sample_2 + 7) vecdeque demo_host sample_2 ''k'' =
     Some (run_grants vecdeque demo_host sample_2 ''k'')"
  by (rule scheduler_returns [OF vecdeque_broker.broker_queue_axioms]) simp

text \<open>The waits-for edges between the keys of waiting composites.\<close>

definition composite_edges :: "'q pending_queue \<Rightarrow> 'q broker_state \<Rightarrow> (string \<times> string) set" where
  "composite_edges Q s =
     {(k, h). \<exists>u p all remaining granted tokens cuuid.
        (u, p) \<in> set (waiting Q s k) \<and>
        pr_kind p = PendComposite all remaining granted tokens cuuid \<and> h \<in> set granted}"

lemma composite_edge_descends:
  assumes "broker_inv Q S s" and "(k, h) \<in> composite_edges Q s"
  shows "h < k"
proof -
  from assms(2) obtain u p all remaining granted tokens cuuid l
    where l: "fmlookup (locks s) k = Some l" and p: "(u, p) \<in> set (lq_iter Q (queue l))"
      and kind: "pr_kind p = PendComposite all remaining granted tokens cuuid" and h: "h \<in> set granted"
    by (cases "fmlookup (locks s) k") (auto simp: composite_edges_def waiting_def)
  from broker_invD(1) [OF assms(1) l] p have "pending_ok k (u, p)"
    by (auto simp: lock_wf_def queue_ok_def)
  with kind have "sorted_wrt (<) (granted @ remaining)" "remaining \<noteq> []" "hd remaining = k" by auto
  with h show ?thesis by (cases remaining) (auto simp: sorted_wrt_append)
qed

text \<open>
  C5: waiting composite requests cannot block each other in a circle.  There is an edge from a
  key to another one when some composite request waits on the first while it already holds
  the second; in every reachable state these edges form no cycle, because the keys of a
  composite are taken in ascending order.
\<close>

theorem composite_waits_acyclic:
  assumes "broker_env Q E" and "reachable Q E cfg s"
  shows "acyclic (composite_edges Q s)"
proof (rule acyclicI_order [where f = id])
  show "(a, b) \<in> composite_edges Q s \<Longrightarrow> id b < id a" for a b
    using composite_edge_descends [OF broker_env.reachable_inv [OF assms]] by simp
qed

theorem composite_waits_acyclic_witness:
  "(''k'', ''a'') \<in> composite_edges vecdeque sample_2 \<and> acyclic (composite_edges vecdeque sample_2)"
proof -
  have "(''k'', ''a'') \<in> composite_edges vecdeque sample_2"
    by (simp add: composite_edges_def waiting_def sample_2_value lq_iter_def vecdeque_def)
  with composite_waits_acyclic [OF demo_env.broker_env_axioms reachable_sample_2] show ?thesis by blast
qed

text \<open>
  C6: every request is answered.  Whatever a registered client asks for, one of the messages
  sent to it while the request is handled carries the request's UUID, on every branch,
  errors included; the only exception is \<open>endWrite\<close> for a key the broker does not know.
\<close>

theorem requests_answered:
  assumes "broker_env Q E" and "client |\<in>| fmdom (clients s)"
    and "\<not> (\<exists>u k. req = ReqEndWrite u k \<and> fmlookup (locks s) k = None)"
  shows "answered s (handle_request_with_grant_overrides Q E s client req go) client (request_uuid_of req)"
proof (rule broker_env.handle_request_answered [OF assms(1,2)])
  show "fmlookup (locks s) k \<noteq> None" if "req = ReqEndWrite u k" for u k
    using assms(3) that by simp
qed

theorem requests_answered_witness:
  "answered sample_1 (handle_request_with_grant_overrides vecdeque demo_host sample_1 2
     (ReqUnlock (force_unlock ''r9'' ''k'')) no_override) 2 ''r9''"
  using requests_answered [OF demo_env.broker_env_axioms, of 2 sample_1
      "ReqUnlock (force_unlock ''r9'' ''k'')" no_override]
  by (simp add: sample_1_facts force_unlock_def)

section \<open>Granting and releasing\<close>

text \<open>
  C7: releasing hands the key over.  If \<open>t\<close> is the only holder of a key whose queue starts with
  an exclusive request of a registered client, an \<open>unlock\<close> of \<open>t\<close> by its owner (or by force)
  sends that client the grant, with the key's next fencing token, before the call returns.
\<close>

theorem unlock_hands_over:
  assumes "broker_env Q E" and "fmlookup (locks s) key = Some l"
    and "fmdom (exclusive_holders l) = {|t|}" and "readers l = fmempty" and "writer l = None"
    and "0 < ls_max l" and "force \<or> owners_at s t key = [client]"
    and "lq_iter Q (queue l) = (u, p) # rest" and "pr_kind p = PendExclusive"
    and "pr_client p |\<in>| fmdom (clients s)"
  shows "\<exists>r. (pr_client p, RespLock r) \<in> set (drop (length (outbox s))
      (outbox (handle_unlock Q E s client uuid [key] (Some t) force))) \<and>
    lr_uuid r = pr_request_uuid p \<and> lr_key r = key \<and> lr_acquired r \<and>
    lr_fencing_token r = Some (token_of l (pr_grant_fencing_seed p))"
  using assms by (rule broker_env.unlock_grants_head)

theorem unlock_hands_over_witness:
  "\<exists>r. (2, RespLock r) \<in> set (drop (length (outbox sample_4))
      (outbox (handle_unlock vecdeque demo_host sample_4 1 ''r4'' [''k''] (Some ''u||||'') False))) \<and>
    lr_uuid r = ''r3'' \<and> lr_acquired r \<and> lr_fencing_token r = Some 7"
proof -
  define l where "l = the (fmlookup (locks sample_4) ''k'')"
  define p where "p = snd (hd (lq_iter vecdeque (queue l)))"
  have l: "fmlookup (locks sample_4) ''k'' = Some l"
    "fmdom (exclusive_holders l) = {|''u||||''|}" "readers l = fmempty" "writer l = None" "0 < ls_max l"
    "lq_iter vecdeque (queue l) = [(''r3'', p)]"
    by (simp_all add: l_def p_def sample_4_value lq_iter_def vecdeque_def)
  have k: "pr_kind p = PendExclusive" "pr_request_uuid p = ''r3''" "pr_client p = 2"
    "token_of l (pr_grant_fencing_seed p) = 7"
    by (simp_all add: l_def p_def sample_4_value lq_iter_def vecdeque_def token_of_def
        next_or_forced_fencing_token_def next_fencing_token_def Let_def max_def word_le_nat_alt)
  have own: "False \<or> owners_at sample_4 ''u||||'' ''k'' = [1]"
    by (simp add: sample_4_value owners_at_def holder_clients_def)
  have c: "pr_client p |\<in>| fmdom (clients sample_4)" by (simp add: sample_4_value k)
  show ?thesis
    using unlock_hands_over [OF demo_env.broker_env_axioms l(1-5) own l(6) k(1) c, of "''r4''"]
    by (auto simp: k)
qed

text \<open>
  C8: a composite lock is all or nothing, the fast path.  If one to five keys are asked for and
  all of them are free, the request is granted at once: the client holds every key under one
  lock UUID, and the reply carries, for exactly the requested keys, the fencing token stored
  with each holder.
\<close>

theorem composite_grants_all:
  assumes "keys \<noteq> []" and "length keys \<le> MAX_COMPOSITE_KEYS" and "\<forall>k \<in> set keys. key_free s k"
  shows "\<exists>cuuid tokens. observed (handle_composite_lock Q E s client uuid keys pid ttl wait go) =
      observed s @ [RespCompositeLock \<lparr>cr_uuid = uuid, cr_keys = sort_dedup keys, cr_acquired = True,
        cr_lock_uuid = Some cuuid, cr_fencing_tokens = Some tokens, cr_error = None\<rparr>] \<and>
    fmdom tokens = fset_of_list keys \<and>
    (\<forall>k \<in> set keys. holds_with_token (handle_composite_lock Q E s client uuid keys pid ttl wait go)
       client cuuid tokens k)"
  using assms by (rule composite_granted)

theorem composite_grants_all_witness:
  "\<exists>cuuid tokens. fmdom tokens = {|''b'', ''a''|} \<and>
    (\<forall>k \<in> {''a'', ''b''}. holds_with_token
      (handle_composite_lock vecdeque demo_host sample_1 2 ''r5'' [''b'', ''a''] None None False no_override)
      2 cuuid tokens k)"
proof -
  have "\<forall>k \<in> set [''b'', ''a'']. key_free sample_1 k" by (simp add: sample_1_facts)
  then show ?thesis
    using composite_grants_all [of "[''b'', ''a'']" sample_1 vecdeque demo_host 2 "''r5''" None None False no_override]
    by (auto simp: MAX_COMPOSITE_KEYS_def)
qed

text \<open>
  C9: a composite lock is all or nothing, the refusal.  If one of the keys is taken and the
  request does not wait, no lock changes and the reply says that nothing was acquired.
\<close>

theorem composite_takes_nothing:
  assumes "keys \<noteq> []" and "length keys \<le> MAX_COMPOSITE_KEYS" and "k \<in> set keys" and "\<not> key_free s k"
  shows "locks (handle_composite_lock Q E s client uuid keys pid ttl False go) = locks s \<and>
    observed (handle_composite_lock Q E s client uuid keys pid ttl False go) =
      observed s @ [RespCompositeLock \<lparr>cr_uuid = uuid, cr_keys = sort_dedup keys, cr_acquired = False,
        cr_lock_uuid = None, cr_fencing_tokens = None, cr_error = None\<rparr>]"
  using composite_refused [OF assms] by blast

theorem composite_takes_nothing_witness:
  "locks (handle_composite_lock vecdeque demo_host sample_1 2 ''r5'' [''k'', ''a''] None None False no_override) =
   locks sample_1"
  using composite_takes_nothing [of "[''k'', ''a'']" "''k''" sample_1] sample_1_facts(5)
  by (simp add: MAX_COMPOSITE_KEYS_def)

text \<open>
  C10: \<open>unlock\<close> with a lock UUID releases exactly that UUID.  If every holder of it at the
  requested keys belongs to the caller or to a client that is gone (or \<open>force\<close> is set), then,
  before the scheduler is driven at the requested keys in order, the locks differ from the
  old ones only in that this UUID is gone from the exclusive holders, the readers and the
  writer of those keys; the reply says whether there was anything to release.
\<close>

theorem unlock_releases:
  assumes "keys \<noteq> []"
    and "\<forall>k \<in> set keys. \<forall>c \<in> set (owners_at s t k). force \<or> c = client \<or> c |\<notin>| fmdom (clients s)"
  shows "\<exists>s1 r. handle_unlock Q E s client uuid keys (Some t) force =
      send (fold (\<lambda>k s. run_grants Q E s k) keys s1) client (RespUnlock r) \<and>
    (\<forall>k. fmlookup (locks s1) k = (if k \<in> set keys then map_option (drop_target t) (fmlookup (locks s) k)
       else fmlookup (locks s) k)) \<and>
    ur_uuid r = uuid \<and> ur_unlocked r = (\<exists>k \<in> set keys. owners_at s t k \<noteq> [])"
proof -
  obtain a s0 where lp: "unlock_loop Q E s client keys (Some t) force = (a, s0)" by fastforce
  note al = unlock_loop_allowed [OF assms(2) lp]
  have "fmlookup (locks (unlock_untrack (Some t) a s0)) k = (if k \<in> set keys
      then map_option (drop_target t) (fmlookup (locks s) k) else fmlookup (locks s) k)" for k
    using al(1) [of k] by (simp add: drop_at_def)
  with handle_unlock_run [OF assms(1) _ lp, of uuid] al(2) show ?thesis
    by (metis option.distinct(1) unlock_result.select_convs(1,3))
qed

theorem unlock_releases_witness:
  "\<exists>s1 r. handle_unlock vecdeque demo_host sample_1 1 ''r4'' [''k''] (Some ''u||||'') False =
      send (run_grants vecdeque demo_host s1 ''k'') 1 (RespUnlock r) \<and> ur_unlocked r"
  using unlock_releases [of "[''k'']" sample_1 "''u||||''" False 1 vecdeque demo_host "''r4''"] sample_1_facts(2)
  by auto

text \<open>
  C11: \<open>unlock\<close> cannot take another live client's lock.  Without \<open>force\<close>, if every holder of
  the UUID at the requested keys is a registered client other than the caller and there is at
  least one, nothing is released: the scheduler is driven on the unchanged state and the
  reply carries the ownership error.
\<close>

theorem foreign_unlock_refused:
  assumes "\<forall>k \<in> set keys. \<forall>c \<in> set (owners_at s t k). c \<noteq> client \<and> c |\<in>| fmdom (clients s)"
    and "k \<in> set keys" and "owners_at s t k \<noteq> []"
  shows "\<exists>r. handle_unlock Q E s client uuid keys (Some t) False =
      send (fold (\<lambda>k s. run_grants Q E s k) keys s) client (RespUnlock r) \<and>
    ur_uuid r = uuid \<and> \<not> ur_unlocked r \<and>
    ur_error r = Some (''unlock lock_uuid `'' @ t @
      ''` is owned by another live client; use force=true to override'')"
proof -
  obtain a s0 where lp: "unlock_loop Q E s client keys (Some t) False = (a, s0)" by fastforce
  note re = unlock_loop_refused [OF assms(1) lp]
  have d: "ua_ownership_denied a" and ne: "keys \<noteq> []" using assms(2,3) re(3) by auto
  have "unlock_untrack (Some t) a s0 = s" using re(1,2) by (simp add: unlock_untrack_def)
  note run = handle_unlock_run [OF ne _ lp, of uuid, unfolded this]
  show ?thesis
    by (rule exI, intro conjI, rule run) (simp_all add: re(2) d unlock_error_def)
qed

theorem foreign_unlock_refused_witness:
  "\<exists>r. handle_unlock vecdeque demo_host sample_1 2 ''r4'' [''k''] (Some ''u||||'') False =
      send (run_grants vecdeque demo_host sample_1 ''k'') 2 (RespUnlock r) \<and> \<not> ur_unlocked r"
  using foreign_unlock_refused [of "[''k'']" sample_1 "''u||||''" 2 "''k''" vecdeque demo_host "''r4''"]
    sample_1_facts(1,2)
  by auto

text \<open>
  C12: \<open>unlock\<close> with \<open>force\<close> and no lock UUID takes the key from everybody.  Before the scheduler
  is driven, the requested keys have no exclusive holder, no reader and no writer, the other
  locks and all queues are as they were, and the reply says whether anything was held.
\<close>

theorem force_unlock_wipes:
  assumes "keys \<noteq> []"
  shows "\<exists>s1 r. handle_unlock Q E s client uuid keys None True =
      send (fold (\<lambda>k s. run_grants Q E s k) keys s1) client (RespUnlock r) \<and>
    (\<forall>k. fmlookup (locks s1) k = (if k \<in> set keys then map_option wiped (fmlookup (locks s) k)
       else fmlookup (locks s) k)) \<and>
    ur_unlocked r = (\<exists>k \<in> set keys. \<not> key_free s k) \<and> ur_error r = None"
proof -
  obtain a s0 where lp: "unlock_loop Q E s client keys None True = (a, s0)" by fastforce
  note wi = unlock_loop_wipe [OF lp]
  show ?thesis
    by (rule exI [of _ "unlock_untrack None a s0"], rule exI, intro conjI)
      (rule handle_unlock_run [OF assms _ lp], simp_all add: wi unlock_error_def)
qed

theorem force_unlock_wipes_witness:
  "\<exists>s1 r. handle_unlock vecdeque demo_host sample_1 2 ''r4'' [''k''] None True =
      send (run_grants vecdeque demo_host s1 ''k'') 2 (RespUnlock r) \<and> key_free s1 ''k'' \<and> ur_unlocked r"
proof -
  obtain s1 r where *: "handle_unlock vecdeque demo_host sample_1 2 ''r4'' [''k''] None True =
      send (run_grants vecdeque demo_host s1 ''k'') 2 (RespUnlock r)"
    "fmlookup (locks s1) ''k'' = map_option wiped (fmlookup (locks sample_1) ''k'')" "ur_unlocked r"
    using force_unlock_wipes [of "[''k'']" vecdeque demo_host sample_1 2 "''r4''"] sample_1_facts(5)
    by auto
  then have "key_free s1 ''k''" by (auto simp: key_free_def split: option.split)
  with * show ?thesis by blast
qed

text \<open>
  C13: an exclusive request for a key that is open to it is granted at once.  The key is open
  if the broker does not know it, or if nobody waits for it, no writer, reader or member of a
  composite lock holds it, and fewer holders than the level that the request resolves to.  The
  reply is a grant with the chosen lock UUID and the key's next token, that holder joins the
  holders the key has, nobody waits for it, and no other key is touched.
\<close>

theorem exclusive_lock_granted:
  assumes "broker_queue Q" and "open_to_exclusive Q s key mx"
    and "s' = handle_exclusive_lock Q E s client uuid key pid ttl mx keep force wait go"
    and "u = chosen_uuid E (snd (lock_or_default Q E s key)) go"
    and "token = token_of (fst (lock_or_default Q E s key)) (grant_token go 0)"
  shows "observed s' = observed s @ [granted_lock_response uuid key 0 u token] \<and>
    holders_at s' key = fmupd u \<lparr>eh_client = client, eh_pid = pid, eh_fencing_token = token,
        eh_keep_locks_after_death = keep, eh_composite_member = False\<rparr> (holders_at s key) \<and>
    waiting Q s' key = [] \<and> (\<forall>k. k \<noteq> key \<longrightarrow> fmlookup (locks s') k = fmlookup (locks s) k)"
  using broker_queue.exclusive_granted [OF assms] by blast

theorem exclusive_lock_granted_witness:
  "fmlookup (locks sample_1) ''fresh'' = None \<and>
   (\<exists>u h. holders_at (handle_exclusive_lock vecdeque demo_host sample_1 2 ''r6'' ''fresh'' None None None False
      False True no_override) ''fresh'' = fmupd u h fmempty \<and> eh_client h = 2)"
proof -
  have l: "fmlookup (locks sample_1) ''fresh'' = None" by (simp add: sample_1_value)
  then have o: "open_to_exclusive vecdeque sample_1 ''fresh'' None" and h: "holders_at sample_1 ''fresh'' = fmempty"
    by (simp_all add: open_to_exclusive_def holders_at_def)
  from exclusive_lock_granted [OF vecdeque_broker.broker_queue_axioms o refl refl refl,
      of demo_host 2 "''r6''" None None False False True no_override] h l
  show ?thesis by (metis exclusive_holder.select_convs(1))
qed

text \<open>
  C14: an exclusive request that cannot be granted waits its turn.  A request that is ready to
  wait (\<open>wait\<close>), is not forced and whose UUID is not queued yet joins the queue of a key
  without room as its last entry: every other waiter keeps its place, the holders stay as they
  are, the reply is a refusal with the new length of the queue, and no other key is touched.
\<close>

theorem exclusive_lock_queued:
  assumes "broker_queue Q" and "fmlookup (locks s) key = Some l"
    and "\<not> (writer l = None \<and> readers l = fmempty \<and>
      hm_len (exclusive_holders l) < unat (fst (resolve_max s (ls_max l) mx)))"
    and "uuid \<notin> fst ` set (waiting Q s key)"
    and "s' = handle_exclusive_lock Q E s client uuid key pid ttl mx keep False True go"
  shows "(\<exists>p. pr_request_uuid p = uuid \<and> pr_client p = client \<and> pr_kind p = PendExclusive \<and>
      waiting Q s' key = waiting Q s key @ [(uuid, p)]) \<and>
    holders_at s' key = holders_at s key \<and>
    observed s' = observed s @ [queued_lock_response uuid key (length (waiting Q s key) + 1)] \<and>
    (\<forall>k. k \<noteq> key \<longrightarrow> fmlookup (locks s') k = fmlookup (locks s) k)"
  using broker_queue.exclusive_queued [OF assms] by blast

theorem exclusive_lock_queued_witness:
  "\<exists>p. waiting vecdeque (handle_exclusive_lock vecdeque demo_host sample_4 1 ''r7'' ''k'' None None None False
      False True no_override) ''k'' = waiting vecdeque sample_4 ''k'' @ [(''r7'', p)] \<and>
    map fst (waiting vecdeque sample_4 ''k'') = [''r3'']"
proof -
  define l where "l = the (fmlookup (locks sample_4) ''k'')"
  have l: "fmlookup (locks sample_4) ''k'' = Some l" by (simp add: l_def sample_4_value)
  have n: "\<not> (writer l = None \<and> readers l = fmempty \<and>
      hm_len (exclusive_holders l) < unat (fst (resolve_max sample_4 (ls_max l) None)))"
    by (simp add: l_def sample_4_value resolve_max_def concurrency_cap_def hm_len_def Let_def max_def min_def)
  have w: "map fst (waiting vecdeque sample_4 ''k'') = [''r3'']"
    by (simp add: waiting_def sample_4_value lq_iter_def vecdeque_def)
  have f: "''r7'' \<notin> fst ` set (waiting vecdeque sample_4 ''k'')"
    by (simp add: waiting_def sample_4_value lq_iter_def vecdeque_def)
  note q = exclusive_lock_queued [OF vecdeque_broker.broker_queue_axioms l n f refl,
      of 1 demo_host None None False no_override]
  from conjunct1 [OF q] w show ?thesis by (elim exE conjE, intro exI conjI)
qed

text \<open>
  C15: \<open>wait = false\<close> never queues.  A \<open>lock\<close> request, for one key or several, that does not want
  to wait leaves every queue as it was, whatever the reply is.
\<close>

theorem no_wait_never_queues:
  assumes "broker_queue Q" and "lk_wait r = Some False"
  shows "waiting Q (dispatch_lock Q E s client r go) k = waiting Q s k"
  using assms by (rule broker_queue.no_wait_dispatch)

theorem no_wait_never_queues_witness:
  "waiting vecdeque (dispatch_lock vecdeque demo_host sample_4 1
     ((plain_lock ''r7'' ''k'')\<lparr>lk_wait := Some False\<rparr>) no_override) ''k'' = waiting vecdeque sample_4 ''k''"
  by (rule no_wait_never_queues [OF vecdeque_broker.broker_queue_axioms]) simp

section \<open>Clients, waiters and reclaiming\<close>

text \<open>
  C17: the waiters of a reachable state are well formed.  Within one key's queue the request
  UUIDs are pairwise different and each is the one its entry is filed under; a composite
  request waits at the key that is the first of the ones it still needs, the keys it has and
  the keys it needs are together the strictly ascending list of the keys it asked for, at
  most five, and it has a fencing token for exactly the keys it has.
\<close>

theorem waiters_well_formed:
  assumes "broker_env Q E" and "reachable Q E cfg s" and "(u, p) \<in> set (waiting Q s key)"
  shows "distinct (map fst (waiting Q s key)) \<and> pr_request_uuid p = u \<and>
    (\<forall>all remaining granted tokens cuuid.
       pr_kind p = PendComposite all remaining granted tokens cuuid \<longrightarrow>
       remaining \<noteq> [] \<and> hd remaining = key \<and> granted @ remaining = all \<and> sorted_wrt (<) all \<and>
       length all \<le> MAX_COMPOSITE_KEYS \<and> fmdom tokens = fset_of_list granted)"
proof -
  obtain l where l: "fmlookup (locks s) key = Some l" and w: "waiting Q s key = lq_iter Q (queue l)"
    using assms(3) by (cases "fmlookup (locks s) key") (auto simp: waiting_def)
  have "queue_ok Q key (queue l)"
    using broker_invD(1) [OF broker_env.reachable_inv [OF assms(1,2)] l] by (simp add: lock_wf_def)
  then have "distinct (map fst (waiting Q s key))" "pending_ok key (u, p)"
    using assms(3) w by (auto simp: queue_ok_def)
  then show ?thesis by auto
qed

theorem waiters_well_formed_witness:
  "\<exists>p. (''r2'', p) \<in> set (waiting vecdeque sample_2 ''k'') \<and> pr_request_uuid p = ''r2''"
proof -
  obtain p where p: "(''r2'', p) \<in> set (waiting vecdeque sample_2 ''k'')"
    by (simp add: waiting_def sample_2_value lq_iter_def vecdeque_def)
  with waiters_well_formed [OF demo_env.broker_env_axioms reachable_sample_2 p] show ?thesis by blast
qed

text \<open>
  C18: registering gives out a fresh identity.  With fewer than \<open>2 ^ 64 - 1\<close> registered
  clients the search for an identity ends, the one it finds is neither registered nor the
  one reserved for detached holders, and registering adds exactly that client, with nothing
  held and nothing pending, and touches no lock.
\<close>

theorem register_client_fresh:
  assumes "hm_len (clients s) < 2 ^ 64 - 1"
  shows "\<exists>i t. register_client s = Some (i, t) \<and> i \<noteq> SNAPSHOT_DETACHED_CLIENT \<and>
      i |\<notin>| fmdom (clients s) \<and> locks t = locks s \<and>
      clients t = fmupd i \<lparr>sender = reads s, held_lock_uuids = fmempty, pending_request_uuids = []\<rparr> (clients s)"
  using assms by (rule registered)

theorem register_client_fresh_witness:
  "\<exists>i t. register_client sample_1 = Some (i, t) \<and> i |\<notin>| {|1, 2|}"
proof -
  have "hm_len (clients sample_1) < 2 ^ 64 - 1" by (simp add: hm_len_def sample_1_facts(1) fcard_finsert_if fcard_fempty)
  from register_client_fresh [OF this] show ?thesis using sample_1_facts(1) by auto
qed

text \<open>
  C19: the TTL sweep takes back exactly what has expired.  Of the deadline index it removes the
  entries whose instant has passed and keeps all others as they are.  Of a lock it removes
  exactly the exclusive holders, readers and the writer that an expired deadline for that key
  names by UUID and kind; every other holder stays as it is, and so do the lock's queue, level
  and fencing counter.  In particular, nothing that a removed deadline stood for is held
  afterwards.
\<close>

theorem ttl_sweep_reclaims:
  assumes "s' = snd (snd (sweep_expired s now))"
  shows "fmlookup (deadlines s') dk = (if fst dk \<le> now then None else fmlookup (deadlines s) dk) \<and>
    fmlookup (locks s') k = map_option (cleared (expired_hold s now k)) (fmlookup (locks s) k) \<and>
    (\<forall>e. fmlookup (deadlines s) dk = Some e \<and> fst dk \<le> now \<and> k \<in> set (de_keys e) \<longrightarrow> \<not> held_at s' e k)"
proof -
  have le: "dk \<le> (now, - 1) \<longleftrightarrow> fst dk \<le> now" by (cases dk) (auto simp: less_eq_prod_def)
  show ?thesis
    using sweep_deadlines [of s now dk] sweep_gone [of s dk _ now k] sweep_locks [of s now k] by (auto simp: assms le)
qed

theorem ttl_sweep_reclaims_witness:
  "\<exists>dk e. fmlookup (deadlines sample_1) dk = Some e \<and> de_keys e = [''k''] \<and> held_at sample_1 e ''k'' \<and>
    \<not> held_at (snd (snd (sweep_expired sample_1 (fst dk)))) e ''k'' \<and>
    fmlookup (locks (snd (snd (sweep_expired sample_1 (fst dk - 1))))) ''k'' = fmlookup (locks sample_1) ''k''"
proof -
  let ?dk = "(100001000, 1) :: instant \<times> u64"
  obtain e where e: "fmlookup (deadlines sample_1) ?dk = Some e" "de_keys e = [''k'']" "held_at sample_1 e ''k''"
    by (simp add: sample_1_value held_at_def lock_contains_uuid_for_kind_def hm_contains_key_def)
  have "\<not> held_at (snd (snd (sweep_expired sample_1 (fst ?dk)))) e ''k''"
    using ttl_sweep_reclaims [OF refl, of sample_1 "fst ?dk" ?dk "''k''"] e by simp
  moreover have "expired_hold sample_1 (fst ?dk - 1) ''k'' = (\<lambda>_ _. False)"
    by (simp add: fun_eq_iff expired_hold_def sample_1_value)
  then have "fmlookup (locks (snd (snd (sweep_expired sample_1 (fst ?dk - 1))))) ''k'' = fmlookup (locks sample_1) ''k''"
    using ttl_sweep_reclaims [OF refl, of sample_1 "fst ?dk - 1" ?dk "''k''"] by simp
  ultimately show ?thesis using e by blast
qed

text \<open>
  C20: pruning removes exactly the keys that have been idle for the whole grace period.  A lock
  disappears iff pruning is enabled, nobody holds it or waits for it, and it was marked idle
  at least the grace period ago; every other lock stays as it is.
\<close>

theorem prune_only_idle:
  assumes "hash_host E"
  shows "fmlookup (locks (prune_idle_keys Q E s now)) k =
   (case fmlookup (locks s) k of
      None \<Rightarrow> None
    | Some l \<Rightarrow>
        if idle_key_grace (config s) \<noteq> 0 \<and> instant_min E \<le> now - idle_key_grace (config s) \<and>
           is_idle Q l \<and> (\<exists>t. timestamp_emptied l = Some t \<and> t \<le> now - idle_key_grace (config s))
        then None else Some l)"
  using assms by (rule hash_host.prune_lookup)

theorem prune_only_idle_witness:
  "fmlookup (locks (prune_idle_keys vecdeque demo_host sample_1 999000000000)) ''k'' = fmlookup (locks sample_1) ''k''"
  using prune_only_idle [OF demo.hash_host_axioms, of vecdeque sample_1 999000000000 "''k''"]
  by (simp add: sample_1_value is_idle_def)

text \<open>
  C21: a client that is gone leaves nothing behind.  Dropping a client the broker no longer has
  a handle for, in any reachable state, removes it everywhere: no lock has it as an exclusive
  holder, a reader, the writer or a waiter, also after the scheduler has handed the freed keys
  to the clients that were waiting.
\<close>

theorem dropped_client_absent:
  assumes "broker_env Q E" and "reachable Q E cfg s" and "fmlookup (clients s) c = None"
  shows "absent Q c (drop_client Q E s c)"
  using broker_env.drop_unregistered_purges [OF assms(1) broker_env.reachable_inv [OF assms(1,2)]] assms(3)
  by (simp add: drop_client_def)

theorem dropped_client_absent_witness:
  "absent vecdeque 9 (drop_client vecdeque demo_host sample_1 9)"
  by (rule dropped_client_absent [OF demo_env.broker_env_axioms reachable_sample_1])
    (simp add: sample_1_value)

text \<open>
  The concurrency level a request may set is between one and the configured cap, whatever
  it asks for; a request for a level within the cap gets it, and only a request for more is
  counted as clamped.
\<close>

theorem level_within_cap:
  shows "1 \<le> fst (resolve_max s cur req) \<and> fst (resolve_max s cur req) \<le> concurrency_cap (config s) \<and>
    snd (resolve_max s cur req) =
      (case req of
         None \<Rightarrow> s
       | Some m \<Rightarrow> if concurrency_cap (config s) < m
           then s\<lparr>concurrency_cap_clamps_total := concurrency_cap_clamps_total s + 1\<rparr> else s) \<and>
    (case req of
       None \<Rightarrow> True
     | Some m \<Rightarrow> m = 0 \<or> fst (resolve_max s cur req) = min m (concurrency_cap (config s)))"
  using concurrency_cap_pos [of "config s"] word_one_le
  by (auto simp: resolve_max_def Let_def max_def min_def word_one_le word_gt_0 split: option.split)

end
