(* ===== verification/Broker_Snapshot.thy ===== *)
theory Broker_Snapshot
  imports Broker_Lifecycle
begin

text \<open>
  Snapshots of the broker, as \<open>src/broker.rs\<close> hands them to the Raft log: the snapshot
  structs, \<open>snapshot_for_raft\<close>, the validation of a received snapshot and its installation.
  The error strings of the code are the constructors of \<open>snapshot_error\<close>, one per message,
  with the values the message shows as arguments.  \<open>serde_json\<close> is a parameter: the record
  \<open>serde\<close> has the four functions the code calls.
\<close>

section \<open>Data\<close>

record raft_snapshot_metrics =
  sm_keys :: u64
  sm_holders :: u64
  sm_waiters :: u64
  sm_clients :: u64
  sm_pending_deadlines :: u64
  sm_ttl_evictions_total :: u64
  sm_max_concurrency_cap :: u32
  sm_concurrency_cap_clamps_total :: u64
  sm_fencing_watermark :: u64
  sm_idle_keys_pruned_total :: u64

record raft_exclusive_holder_snapshot =
  se_lock_uuid :: string
  se_pid :: "int option"
  se_fencing_token :: u64
  se_keep_locks_after_death :: bool
  se_composite_member :: bool

record raft_rw_holder_snapshot =
  sr_lock_uuid :: string
  sr_fencing_token :: u64

datatype raft_pending_kind_snapshot =
    SnapExclusive
  | SnapReader
  | SnapWriter
  | SnapComposite (s_all_keys: "string list") (s_remaining_keys: "string list")
      (s_granted_keys: "string list") (s_granted_tokens: "(string, u64) fmap")
      (s_composite_lock_uuid: string)

record raft_pending_request_snapshot =
  sq_request_uuid :: string
  sq_client_id :: client_id
  sq_pid :: "int option"
  sq_ttl_ms :: "u64 option"
  sq_grant_lock_uuid :: "string option"
  sq_grant_fencing_seed :: "u64 option"
  sq_keep_locks_after_death :: bool
  sq_kind :: raft_pending_kind_snapshot

record raft_lock_snapshot =
  sl_key :: string
  sl_max :: u32
  sl_fencing_counter :: u64
  sl_exclusive_holders :: "raft_exclusive_holder_snapshot list"
  sl_readers :: "raft_rw_holder_snapshot list"
  sl_writer :: "raft_rw_holder_snapshot option"
  sl_queue :: "raft_pending_request_snapshot list"
  sl_idle :: bool

record raft_deadline_snapshot =
  sd_lock_uuid :: string
  sd_keys :: "string list"
  sd_kind :: rw_hold_kind
  sd_remaining_ms :: u64

record broker_raft_snapshot =
  sn_schema_version :: u32
  sn_metrics :: raft_snapshot_metrics
  sn_locks :: "raft_lock_snapshot list"
  sn_deadlines :: "raft_deadline_snapshot list"

datatype (plugins only: code) snapshot_error =
    UnsupportedSchema u32
  | EmptyLockKey
  | DuplicateLockKey string
  | InvalidMaxZero string
  | EmptyExclusiveUuid string
  | EmptyReaderUuid string
  | EmptyWriterUuid string
  | RepeatsHolderUuid string string
  | IdleWhileActive string
  | RepeatsRequestUuid string string
  | WaitersMismatch u64 u64
  | EmptyDeadlineUuid
  | DeadlineWithoutKeys string
  | DeadlineEmptyKey string
  | DeadlineMismatch string
  | EmptyRequestUuid string
  | EmptyGrantUuid string
  | EmptyCompositeUuid string
  | CompositeKeyCount string nat
  | CompositeNoRemaining string
  | CompositeWrongKey string
  | CompositeEmptyKey string
  | CompositeRepeatsKey string string
  | CompositeOutsideAll string string
  | CompositeRepeatsRemaining string string
  | CompositeRepeatsGranted string string
  | CompositeInBoth string string
  | CompositeUnknownToken string string
  | CompositeNoPartition string
  | CompositeTokenKeys string
  | IdleMissingMetrics
  | IdleMissingMetric string
  | IdleNotIdle string u64
  | SerdeError string

record 'j serde =
  js_get :: "'j \<Rightarrow> string \<Rightarrow> 'j option"
  js_as_u64 :: "'j \<Rightarrow> u64 option"
  js_from_value :: "'j \<Rightarrow> string + broker_raft_snapshot"
  js_to_value :: "broker_raft_snapshot \<Rightarrow> string + 'j"

section \<open>Taking a snapshot\<close>

definition metrics_into :: "broker_metrics \<Rightarrow> raft_snapshot_metrics" where
  "metrics_into m =
     \<lparr>sm_keys = bm_keys m, sm_holders = bm_holders m, sm_waiters = bm_waiters m,
      sm_clients = bm_clients m, sm_pending_deadlines = bm_pending_deadlines m,
      sm_ttl_evictions_total = bm_ttl_evictions_total m,
      sm_max_concurrency_cap = bm_max_concurrency_cap m,
      sm_concurrency_cap_clamps_total = bm_concurrency_cap_clamps_total m,
      sm_fencing_watermark = bm_fencing_watermark m,
      sm_idle_keys_pruned_total = bm_idle_keys_pruned_total m\<rparr>"

definition duration_ms_u64 :: "duration \<Rightarrow> u64" where
  "duration_ms_u64 d = of_int (min (as_millis d) (2 ^ 64 - 1))"

definition saturating_duration_since :: "instant \<Rightarrow> instant \<Rightarrow> duration" where
  "saturating_duration_since t earlier = max 0 (t - earlier)"

fun pending_kind_snapshot_from :: "pending_kind \<Rightarrow> raft_pending_kind_snapshot" where
  "pending_kind_snapshot_from PendExclusive = SnapExclusive"
| "pending_kind_snapshot_from PendReader = SnapReader"
| "pending_kind_snapshot_from PendWriter = SnapWriter"
| "pending_kind_snapshot_from (PendComposite all remaining granted tokens cuuid) =
     SnapComposite all remaining granted tokens cuuid"

fun pending_kind_from_snapshot :: "raft_pending_kind_snapshot \<Rightarrow> pending_kind" where
  "pending_kind_from_snapshot SnapExclusive = PendExclusive"
| "pending_kind_from_snapshot SnapReader = PendReader"
| "pending_kind_from_snapshot SnapWriter = PendWriter"
| "pending_kind_from_snapshot (SnapComposite all remaining granted tokens cuuid) =
     PendComposite all remaining granted tokens cuuid"

definition exclusive_snapshot_of :: "string \<Rightarrow> exclusive_holder \<Rightarrow> raft_exclusive_holder_snapshot" where
  "exclusive_snapshot_of u h =
     \<lparr>se_lock_uuid = u, se_pid = eh_pid h, se_fencing_token = eh_fencing_token h,
      se_keep_locks_after_death = eh_keep_locks_after_death h,
      se_composite_member = eh_composite_member h\<rparr>"

definition pending_snapshot_of :: "pending_request \<Rightarrow> raft_pending_request_snapshot" where
  "pending_snapshot_of p =
     \<lparr>sq_request_uuid = pr_request_uuid p, sq_client_id = pr_client p, sq_pid = pr_pid p,
      sq_ttl_ms = map_option duration_ms_u64 (pr_ttl p),
      sq_grant_lock_uuid = pr_grant_lock_uuid p, sq_grant_fencing_seed = pr_grant_fencing_seed p,
      sq_keep_locks_after_death = pr_keep_locks_after_death p,
      sq_kind = pending_kind_snapshot_from (pr_kind p)\<rparr>"

text \<open>One lock: its maps are enumerated in hash order and then sorted by lock UUID.\<close>

definition lock_snapshot_of ::
  "'q pending_queue \<Rightarrow> host \<Rightarrow> nat \<Rightarrow> string \<Rightarrow> 'q lock_state \<Rightarrow> raft_lock_snapshot" where
  "lock_snapshot_of Q E n key l =
     \<lparr>sl_key = key, sl_max = ls_max l, sl_fencing_counter = fencing_counter l,
      sl_exclusive_holders = sort_key se_lock_uuid
        (map (\<lambda>u. exclusive_snapshot_of u (the (fmlookup (exclusive_holders l) u)))
           (hash_iter E n (fmdom (exclusive_holders l)))),
      sl_readers = sort_key sr_lock_uuid
        (map (\<lambda>u. \<lparr>sr_lock_uuid = u, sr_fencing_token = rh_fencing_token (the (fmlookup (readers l) u))\<rparr>)
           (hash_iter E n (fmdom (readers l)))),
      sl_writer = map_option (\<lambda>h. \<lparr>sr_lock_uuid = rh_lock_uuid h, sr_fencing_token = rh_fencing_token h\<rparr>)
        (writer l),
      sl_queue = map (\<lambda>x. pending_snapshot_of (snd x)) (lq_iter Q (queue l)),
      sl_idle = is_idle Q l\<rparr>"

definition deadline_snapshots ::
  "'q broker_state \<Rightarrow> instant \<Rightarrow> raft_deadline_snapshot list" where
  "deadline_snapshots s now =
     sort_key (\<lambda>d. (sd_lock_uuid d, sd_keys d))
       (List.map_filter (\<lambda>dk.
          let e = the (fmlookup (deadlines s) dk) in
          if \<not> deadline_entry_is_still_held s e then None
          else Some \<lparr>sd_lock_uuid = de_lock_uuid e, sd_keys = de_keys e, sd_kind = de_kind e,
             sd_remaining_ms = duration_ms_u64 (saturating_duration_since (fst dk) now)\<rparr>)
          (sorted_list_of_fset (fmdom (deadlines s))))"

definition broker_raft_snapshot_of ::
  "'q pending_queue \<Rightarrow> host \<Rightarrow> 'q broker_state \<Rightarrow> broker_raft_snapshot" where
  "broker_raft_snapshot_of Q E s =
     (let metrics = broker_metrics_from_state Q s;
          now = instant_now E (reads s);
          ls = sort_key sl_key
            (map (\<lambda>k. lock_snapshot_of Q E (reads s) k (the (fmlookup (locks s) k)))
              (hash_iter E (reads s) (fmdom (locks s))))
      in \<lparr>sn_schema_version = 1, sn_metrics = metrics_into metrics, sn_locks = ls,
          sn_deadlines = deadline_snapshots s now\<rparr>)"

definition snapshot_for_raft ::
  "'j serde \<Rightarrow> 'q pending_queue \<Rightarrow> host \<Rightarrow> 'q broker_state \<Rightarrow> snapshot_error + 'j" where
  "snapshot_for_raft J Q E s =
     (case js_to_value J (broker_raft_snapshot_of Q E s) of
        Inl err \<Rightarrow> Inl (SerdeError err)
      | Inr v \<Rightarrow> Inr v)"

section \<open>Validation\<close>

text \<open>A loop that inserts into a \<open>BTreeSet\<close> and fails on an empty or a repeated element.\<close>

fun check_holder_uuids ::
  "snapshot_error \<Rightarrow> string \<Rightarrow> string list \<Rightarrow> string fset \<Rightarrow> snapshot_error + string fset" where
  "check_holder_uuids on_empty key [] seen = Inr seen"
| "check_holder_uuids on_empty key (u # us) seen =
     (if u = [] then Inl on_empty
      else if u |\<in>| seen then Inl (RepeatsHolderUuid key u)
      else check_holder_uuids on_empty key us (finsert u seen))"

fun check_all_keys :: "string \<Rightarrow> string list \<Rightarrow> string fset \<Rightarrow> snapshot_error + string fset" where
  "check_all_keys lock_key [] seen = Inr seen"
| "check_all_keys lock_key (k # ks) seen =
     (if k = [] then Inl (CompositeEmptyKey lock_key)
      else if k |\<in>| seen then Inl (CompositeRepeatsKey lock_key k)
      else check_all_keys lock_key ks (finsert k seen))"

fun check_remaining ::
  "string \<Rightarrow> string fset \<Rightarrow> string list \<Rightarrow> string fset \<Rightarrow> snapshot_error + string fset" where
  "check_remaining lock_key all [] seen = Inr seen"
| "check_remaining lock_key all (k # ks) seen =
     (if k |\<notin>| all then Inl (CompositeOutsideAll lock_key k)
      else if k |\<in>| seen then Inl (CompositeRepeatsRemaining lock_key k)
      else check_remaining lock_key all ks (finsert k seen))"

fun check_granted ::
  "string \<Rightarrow> string fset \<Rightarrow> string fset \<Rightarrow> string list \<Rightarrow> string fset \<Rightarrow>
   snapshot_error + string fset" where
  "check_granted lock_key all remaining [] seen = Inr seen"
| "check_granted lock_key all remaining (k # ks) seen =
     (if k |\<notin>| all then Inl (CompositeOutsideAll lock_key k)
      else if k |\<in>| seen then Inl (CompositeRepeatsGranted lock_key k)
      else if k |\<in>| remaining then Inl (CompositeInBoth lock_key k)
      else check_granted lock_key all remaining ks (finsert k seen))"

definition validate_composite_waiter ::
  "string \<Rightarrow> string list \<Rightarrow> string list \<Rightarrow> string list \<Rightarrow> (string, u64) fmap \<Rightarrow> string \<Rightarrow>
   snapshot_error + unit" where
  "validate_composite_waiter lock_key all_ks remaining_ks granted_ks tokens cuuid =
     (if cuuid = [] then Inl (EmptyCompositeUuid lock_key)
      else if all_ks = [] \<or> MAX_COMPOSITE_KEYS < length all_ks
      then Inl (CompositeKeyCount lock_key (length all_ks))
      else if remaining_ks = [] then Inl (CompositeNoRemaining lock_key)
      else if hd remaining_ks \<noteq> lock_key then Inl (CompositeWrongKey lock_key)
      else case check_all_keys lock_key all_ks {||} of
        Inl e \<Rightarrow> Inl e
      | Inr all \<Rightarrow>
        (case check_remaining lock_key all remaining_ks {||} of
           Inl e \<Rightarrow> Inl e
         | Inr remaining \<Rightarrow>
           (case check_granted lock_key all remaining granted_ks {||} of
              Inl e \<Rightarrow> Inl e
            | Inr granted \<Rightarrow>
              (case find (\<lambda>k. k |\<notin>| all) (sorted_list_of_fset (fmdom tokens)) of
                 Some k \<Rightarrow> Inl (CompositeUnknownToken lock_key k)
               | None \<Rightarrow>
                   if remaining |\<union>| granted \<noteq> all then Inl (CompositeNoPartition lock_key)
                   else if fmdom tokens \<noteq> granted then Inl (CompositeTokenKeys lock_key)
                   else Inr ()))))"

definition validate_broker_raft_waiter_snapshot ::
  "string \<Rightarrow> raft_pending_request_snapshot \<Rightarrow> snapshot_error + unit" where
  "validate_broker_raft_waiter_snapshot lock_key w =
     (if sq_request_uuid w = [] then Inl (EmptyRequestUuid lock_key)
      else if sq_grant_lock_uuid w = Some [] then Inl (EmptyGrantUuid lock_key)
      else case sq_kind w of
        SnapComposite all remaining granted tokens cuuid \<Rightarrow>
          validate_composite_waiter lock_key all remaining granted tokens cuuid
      | _ \<Rightarrow> Inr ())"

fun validate_waiters ::
  "string \<Rightarrow> raft_pending_request_snapshot list \<Rightarrow> string fset \<Rightarrow> u64 \<Rightarrow> snapshot_error + u64" where
  "validate_waiters lock_key [] seen total_waiters = Inr total_waiters"
| "validate_waiters lock_key (w # ws) seen total_waiters =
     (let total_waiters = saturating_add total_waiters 1 in
      case validate_broker_raft_waiter_snapshot lock_key w of
        Inl e \<Rightarrow> Inl e
      | Inr _ \<Rightarrow>
          if sq_request_uuid w |\<in>| seen then Inl (RepeatsRequestUuid lock_key (sq_request_uuid w))
          else validate_waiters lock_key ws (finsert (sq_request_uuid w) seen) total_waiters)"

definition validate_lock_holders :: "raft_lock_snapshot \<Rightarrow> snapshot_error + unit" where
  "validate_lock_holders l =
     (case check_holder_uuids (EmptyExclusiveUuid (sl_key l)) (sl_key l)
             (map se_lock_uuid (sl_exclusive_holders l)) {||} of
        Inl e \<Rightarrow> Inl e
      | Inr seen \<Rightarrow>
        (case check_holder_uuids (EmptyReaderUuid (sl_key l)) (sl_key l)
                (map sr_lock_uuid (sl_readers l)) seen of
           Inl e \<Rightarrow> Inl e
         | Inr seen \<Rightarrow>
           (case sl_writer l of
              None \<Rightarrow> Inr ()
            | Some w \<Rightarrow>
                if sr_lock_uuid w = [] then Inl (EmptyWriterUuid (sl_key l))
                else if sr_lock_uuid w |\<in>| seen
                then Inl (RepeatsHolderUuid (sl_key l) (sr_lock_uuid w))
                else Inr ())))"

fun validate_locks ::
  "raft_lock_snapshot list \<Rightarrow> string fset \<Rightarrow> u64 \<Rightarrow> snapshot_error + u64" where
  "validate_locks [] ks total_waiters = Inr total_waiters"
| "validate_locks (l # ls) ks total_waiters =
     (if sl_key l = [] then Inl EmptyLockKey
      else if sl_key l |\<in>| ks then Inl (DuplicateLockKey (sl_key l))
      else if sl_max l = 0 then Inl (InvalidMaxZero (sl_key l))
      else case validate_lock_holders l of
        Inl e \<Rightarrow> Inl e
      | Inr _ \<Rightarrow>
          if sl_idle l \<and> (sl_exclusive_holders l \<noteq> [] \<or> sl_readers l \<noteq> [] \<or>
               sl_writer l \<noteq> None \<or> sl_queue l \<noteq> [])
          then Inl (IdleWhileActive (sl_key l))
          else case validate_waiters (sl_key l) (sl_queue l) {||} total_waiters of
            Inl e \<Rightarrow> Inl e
          | Inr total_waiters \<Rightarrow> validate_locks ls (finsert (sl_key l) ks) total_waiters)"

definition lock_snapshot_contains :: "raft_lock_snapshot \<Rightarrow> string \<Rightarrow> rw_hold_kind \<Rightarrow> bool" where
  "lock_snapshot_contains l lock_uuid kind =
     (case kind of
        HoldExclusive \<Rightarrow> list_ex (\<lambda>h. se_lock_uuid h = lock_uuid) (sl_exclusive_holders l)
      | HoldRead \<Rightarrow> list_ex (\<lambda>h. sr_lock_uuid h = lock_uuid) (sl_readers l)
      | HoldWrite \<Rightarrow> (case sl_writer l of Some h \<Rightarrow> sr_lock_uuid h = lock_uuid | None \<Rightarrow> False))"

definition snapshot_deadline_matches_locks ::
  "raft_lock_snapshot list \<Rightarrow> raft_deadline_snapshot \<Rightarrow> bool" where
  "snapshot_deadline_matches_locks ls d =
     list_all (\<lambda>k. case find (\<lambda>l. sl_key l = k) ls of
         Some l \<Rightarrow> lock_snapshot_contains l (sd_lock_uuid d) (sd_kind d)
       | None \<Rightarrow> False) (sd_keys d)"

fun validate_deadlines ::
  "raft_lock_snapshot list \<Rightarrow> raft_deadline_snapshot list \<Rightarrow> snapshot_error + unit" where
  "validate_deadlines ls [] = Inr ()"
| "validate_deadlines ls (d # ds) =
     (if sd_lock_uuid d = [] then Inl EmptyDeadlineUuid
      else if sd_keys d = [] then Inl (DeadlineWithoutKeys (sd_lock_uuid d))
      else if list_ex (\<lambda>k. k = []) (sd_keys d) then Inl (DeadlineEmptyKey (sd_lock_uuid d))
      else if \<not> snapshot_deadline_matches_locks ls d then Inl (DeadlineMismatch (sd_lock_uuid d))
      else validate_deadlines ls ds)"

definition validate_broker_raft_snapshot :: "broker_raft_snapshot \<Rightarrow> snapshot_error + unit" where
  "validate_broker_raft_snapshot sn =
     (if sn_schema_version sn \<noteq> 1 then Inl (UnsupportedSchema (sn_schema_version sn))
      else case validate_locks (sn_locks sn) {||} 0 of
        Inl e \<Rightarrow> Inl e
      | Inr total_waiters \<Rightarrow>
          if sm_waiters (sn_metrics sn) \<noteq> total_waiters
          then Inl (WaitersMismatch (sm_waiters (sn_metrics sn)) total_waiters)
          else validate_deadlines (sn_locks sn) (sn_deadlines sn))"

section \<open>Installation\<close>

definition restore_exclusive ::
  "raft_exclusive_holder_snapshot \<Rightarrow> 'q lock_state \<times> 'q broker_state \<Rightarrow> 'q lock_state \<times> 'q broker_state"
where
  "restore_exclusive h acc =
     (let (l, s) = acc;
          l = l\<lparr>fencing_counter := max (fencing_counter l) (se_fencing_token h)\<rparr>;
          s = s\<lparr>fencing_watermark := max (fencing_watermark s) (se_fencing_token h)\<rparr>
      in (l\<lparr>exclusive_holders := fmupd (se_lock_uuid h)
             \<lparr>eh_client = SNAPSHOT_DETACHED_CLIENT, eh_pid = se_pid h,
              eh_fencing_token = se_fencing_token h,
              eh_keep_locks_after_death = se_keep_locks_after_death h,
              eh_composite_member = se_composite_member h\<rparr> (exclusive_holders l)\<rparr>, s))"

definition restored_rw_holder :: "raft_rw_holder_snapshot \<Rightarrow> rw_holder" where
  "restored_rw_holder h =
     \<lparr>rh_client = SNAPSHOT_DETACHED_CLIENT, rh_fencing_token = sr_fencing_token h,
      rh_lock_uuid = sr_lock_uuid h\<rparr>"

definition restore_reader ::
  "raft_rw_holder_snapshot \<Rightarrow> 'q lock_state \<times> 'q broker_state \<Rightarrow> 'q lock_state \<times> 'q broker_state"
where
  "restore_reader h acc =
     (let (l, s) = acc;
          l = l\<lparr>fencing_counter := max (fencing_counter l) (sr_fencing_token h)\<rparr>;
          s = s\<lparr>fencing_watermark := max (fencing_watermark s) (sr_fencing_token h)\<rparr>
      in (l\<lparr>readers := fmupd (sr_lock_uuid h) (restored_rw_holder h) (readers l)\<rparr>, s))"

definition restore_writer ::
  "raft_rw_holder_snapshot \<Rightarrow> 'q lock_state \<times> 'q broker_state \<Rightarrow> 'q lock_state \<times> 'q broker_state"
where
  "restore_writer h acc =
     (let (l, s) = acc;
          l = l\<lparr>fencing_counter := max (fencing_counter l) (sr_fencing_token h)\<rparr>;
          s = s\<lparr>fencing_watermark := max (fencing_watermark s) (sr_fencing_token h)\<rparr>
      in (l\<lparr>writer := Some (restored_rw_holder h)\<rparr>, s))"

definition restored_request :: "raft_pending_request_snapshot \<Rightarrow> pending_request" where
  "restored_request w =
     \<lparr>pr_request_uuid = sq_request_uuid w, pr_client = sq_client_id w, pr_pid = sq_pid w,
      pr_ttl = map_option from_millis (sq_ttl_ms w),
      pr_grant_lock_uuid = sq_grant_lock_uuid w,
      pr_grant_fencing_seed = sq_grant_fencing_seed w,
      pr_keep_locks_after_death = sq_keep_locks_after_death w,
      pr_kind = pending_kind_from_snapshot (sq_kind w)\<rparr>"

definition restore_waiter ::
  "'q pending_queue \<Rightarrow> raft_pending_request_snapshot \<Rightarrow> 'q lock_state \<times> 'q broker_state \<Rightarrow>
   'q lock_state \<times> 'q broker_state" where
  "restore_waiter Q w acc =
     (let (l, s) = acc;
          s = s\<lparr>next_client_id := max (next_client_id s) (saturating_add (sq_client_id w) 1)\<rparr>
      in (l\<lparr>queue := snd (lq_push_back Q (queue l) (sq_request_uuid w) (restored_request w))\<rparr>, s))"

definition restore_lock ::
  "'q pending_queue \<Rightarrow> host \<Rightarrow> instant \<Rightarrow> raft_lock_snapshot \<Rightarrow> 'q broker_state \<Rightarrow> 'q broker_state"
where
  "restore_lock Q E now ls s =
     (let l = lock_state_new Q E (reads s) (min (max (sl_max ls) 1) (max (max_concurrency_cap (config s)) 1));
          s = bump s;
          l = l\<lparr>fencing_counter := sl_fencing_counter ls, timestamp_emptied := None\<rparr>;
          acc = fold restore_exclusive (sl_exclusive_holders ls) (l, s);
          acc = fold restore_reader (sl_readers ls) acc;
          acc = (case sl_writer ls of Some h \<Rightarrow> restore_writer h acc | None \<Rightarrow> acc);
          (l, s) = fold (restore_waiter Q) (sl_queue ls) acc;
          s = s\<lparr>fencing_watermark := max (fencing_watermark s) (fencing_counter l)\<rparr>;
          l = (if is_idle Q l \<and> sl_idle ls then l\<lparr>timestamp_emptied := Some now\<rparr> else l)
      in put_lock s (sl_key ls) l)"

definition snapshot_deadline_matches_state ::
  "'q broker_state \<Rightarrow> raft_deadline_snapshot \<Rightarrow> bool" where
  "snapshot_deadline_matches_state s d =
     list_all (\<lambda>k. case fmlookup (locks s) k of
         Some l \<Rightarrow> lock_contains_uuid_for_kind l (sd_lock_uuid d) (sd_kind d)
       | None \<Rightarrow> False) (sd_keys d)"

fun restore_deadlines ::
  "host \<Rightarrow> instant \<Rightarrow> raft_deadline_snapshot list \<Rightarrow> 'q broker_state \<Rightarrow>
   snapshot_error + 'q broker_state" where
  "restore_deadlines E now [] s = Inr s"
| "restore_deadlines E now (d # ds) s =
     (if \<not> snapshot_deadline_matches_state s d then Inl (DeadlineMismatch (sd_lock_uuid d))
      else
        (let sq = deadline_seq s + 1;
             deadline_at = (case checked_add_instant E now (from_millis (sd_remaining_ms d)) of
               Some t \<Rightarrow> t | None \<Rightarrow> now)
         in restore_deadlines E now ds
              (s\<lparr>deadline_seq := sq,
                 deadlines := fmupd (deadline_at, sq)
                   \<lparr>de_lock_uuid = sd_lock_uuid d, de_keys = sd_keys d, de_kind = sd_kind d,
                    de_client = SNAPSHOT_DETACHED_CLIENT\<rparr> (deadlines s)\<rparr>)))"

text \<open>
  The state an installation starts from: a new broker with the old configuration and start
  time.  The histories of the model run on.
\<close>

definition fresh_broker :: "host \<Rightarrow> 'q broker_state \<Rightarrow> 'q broker_state" where
  "fresh_broker E s =
     (broker_state_new E (config s))\<lparr>started_at := started_at s, reads := Suc (reads s),
        observed := observed s, outbox := outbox s, issued := issued s\<rparr>"

definition install_broker_raft_snapshot ::
  "'q pending_queue \<Rightarrow> host \<Rightarrow> 'q broker_state \<Rightarrow> broker_raft_snapshot \<Rightarrow>
   snapshot_error + 'q broker_state" where
  "install_broker_raft_snapshot Q E s sn =
     (let now = instant_now E (reads s);
          m = sn_metrics sn;
          nxt = (fresh_broker E s)
            \<lparr>ttl_evictions_total := sm_ttl_evictions_total m,
             concurrency_cap_clamps_total := sm_concurrency_cap_clamps_total m,
             fencing_watermark := sm_fencing_watermark m,
             idle_keys_pruned_total := sm_idle_keys_pruned_total m\<rparr>
      in restore_deadlines E now (sn_deadlines sn) (fold (restore_lock Q E now) (sn_locks sn) nxt))"

section \<open>Payloads\<close>

definition metrics_u64 :: "'j serde \<Rightarrow> 'j \<Rightarrow> string \<Rightarrow> u64" where
  "metrics_u64 J metrics field =
     (case js_get J metrics field of
        None \<Rightarrow> 0
      | Some v \<Rightarrow> (case js_as_u64 J v of Some n \<Rightarrow> n | None \<Rightarrow> 0))"

fun validate_idle_fields :: "'j serde \<Rightarrow> 'j \<Rightarrow> string list \<Rightarrow> snapshot_error + unit" where
  "validate_idle_fields J metrics [] = Inr ()"
| "validate_idle_fields J metrics (f # fs) =
     (case Option.bind (js_get J metrics f) (js_as_u64 J) of
        None \<Rightarrow> Inl (IdleMissingMetric f)
      | Some n \<Rightarrow> if n \<noteq> 0 then Inl (IdleNotIdle f n) else validate_idle_fields J metrics fs)"

definition validate_idle_snapshot_payload :: "'j serde \<Rightarrow> 'j \<Rightarrow> snapshot_error + unit" where
  "validate_idle_snapshot_payload J payload =
     (case js_get J payload ''metrics'' of
        None \<Rightarrow> Inl IdleMissingMetrics
      | Some metrics \<Rightarrow>
          validate_idle_fields J metrics [''holders'', ''waiters'', ''pendingDeadlines''])"

definition install_idle_snapshot ::
  "'j serde \<Rightarrow> host \<Rightarrow> 'q broker_state \<Rightarrow> 'j \<Rightarrow> snapshot_error + 'q broker_state" where
  "install_idle_snapshot J E s payload =
     (case validate_idle_snapshot_payload J payload of
        Inl e \<Rightarrow> Inl e
      | Inr _ \<Rightarrow>
        (case js_get J payload ''metrics'' of
           None \<Rightarrow> Inl IdleMissingMetrics
         | Some metrics \<Rightarrow>
             Inr ((fresh_broker E s)
               \<lparr>ttl_evictions_total := metrics_u64 J metrics ''ttlEvictionsTotal'',
                concurrency_cap_clamps_total := metrics_u64 J metrics ''concurrencyCapClampsTotal'',
                fencing_watermark := metrics_u64 J metrics ''fencingWatermark'',
                idle_keys_pruned_total := metrics_u64 J metrics ''idleKeysPrunedTotal''\<rparr>)))"

definition validate_raft_snapshot_payload :: "'j serde \<Rightarrow> 'j \<Rightarrow> snapshot_error + unit" where
  "validate_raft_snapshot_payload J payload =
     (case js_get J payload ''broker'' of
        Some v \<Rightarrow>
          (case js_from_value J v of
             Inl err \<Rightarrow> Inl (SerdeError err)
           | Inr sn \<Rightarrow> validate_broker_raft_snapshot sn)
      | None \<Rightarrow> validate_idle_snapshot_payload J payload)"

definition install_raft_snapshot ::
  "'j serde \<Rightarrow> 'q pending_queue \<Rightarrow> host \<Rightarrow> 'q broker_state \<Rightarrow> 'j \<Rightarrow> snapshot_error + 'q broker_state"
where
  "install_raft_snapshot J Q E s payload =
     (case js_get J payload ''broker'' of
        Some v \<Rightarrow>
          (case js_from_value J v of
             Inl err \<Rightarrow> Inl (SerdeError err)
           | Inr sn \<Rightarrow>
               (case validate_broker_raft_snapshot sn of
                  Inl e \<Rightarrow> Inl e
                | Inr _ \<Rightarrow> install_broker_raft_snapshot Q E s sn))
      | None \<Rightarrow> install_idle_snapshot J E s payload)"

end
