(* ===== verification/Broker_Restore.thy ===== *)
theory Broker_Restore
  imports Broker_Snapshot Broker_Reclaim
begin

text \<open>
  What the validation of a snapshot decides and what its installation produces.  The checks
  of the code, which stop at the first error, are shown equivalent to predicates on the
  snapshot; the installation loops are shown to build, for each lock of the snapshot, one
  lock that is written down directly; and a snapshot that was taken from a broker is shown
  to restore that broker's locks.
\<close>

section \<open>What validation decides\<close>

lemma check_holder_uuids_iff:
  "check_holder_uuids e key us seen = Inr r \<longleftrightarrow>
   [] \<notin> set us \<and> distinct us \<and> set us \<inter> fset seen = {} \<and> r = seen |\<union>| fset_of_list us"
  by (induction us arbitrary: seen) auto

lemma check_all_keys_iff:
  "check_all_keys key ks seen = Inr r \<longleftrightarrow>
   [] \<notin> set ks \<and> distinct ks \<and> set ks \<inter> fset seen = {} \<and> r = seen |\<union>| fset_of_list ks"
  by (induction ks arbitrary: seen) auto

lemma check_remaining_iff:
  "check_remaining key all ks seen = Inr r \<longleftrightarrow>
   set ks \<subseteq> fset all \<and> distinct ks \<and> set ks \<inter> fset seen = {} \<and> r = seen |\<union>| fset_of_list ks"
  by (induction ks arbitrary: seen) auto

lemma check_granted_iff:
  "check_granted key all remaining ks seen = Inr r \<longleftrightarrow>
   set ks \<subseteq> fset all \<and> distinct ks \<and> set ks \<inter> fset seen = {} \<and> set ks \<inter> fset remaining = {} \<and>
   r = seen |\<union>| fset_of_list ks"
  by (induction ks arbitrary: seen) auto

definition composite_snapshot_ok ::
  "string \<Rightarrow> string list \<Rightarrow> string list \<Rightarrow> string list \<Rightarrow> (string, u64) fmap \<Rightarrow> string \<Rightarrow> bool" where
  "composite_snapshot_ok key all remaining granted tokens cuuid \<longleftrightarrow>
     cuuid \<noteq> [] \<and> all \<noteq> [] \<and> length all \<le> MAX_COMPOSITE_KEYS \<and> remaining \<noteq> [] \<and> hd remaining = key \<and>
     [] \<notin> set all \<and> distinct all \<and> distinct remaining \<and> distinct granted \<and>
     set remaining \<inter> set granted = {} \<and> set remaining \<union> set granted = set all \<and>
     fset (fmdom tokens) = set granted"

lemma fset_of_list_eq_iff: "A = fset_of_list xs \<longleftrightarrow> fset A = set xs"
  by (metis fset_inject fset_of_list.rep_eq)

lemma validate_composite_waiter_iff:
  "validate_composite_waiter key all remaining granted tokens cuuid = Inr () \<longleftrightarrow>
   composite_snapshot_ok key all remaining granted tokens cuuid"
proof (cases "cuuid = [] \<or> all = [] \<or> MAX_COMPOSITE_KEYS < length all \<or> remaining = [] \<or>
    hd remaining \<noteq> key \<or> (\<nexists>a. check_all_keys key all {||} = Inr a)")
  case True
  then show ?thesis
    by (auto simp: validate_composite_waiter_def composite_snapshot_ok_def check_all_keys_iff
        split: sum.splits)
next
  case False
  then have all: "check_all_keys key all {||} = Inr (fset_of_list all)" "[] \<notin> set all" "distinct all"
    by (auto simp: check_all_keys_iff)
  note basic = False all
  show ?thesis
  proof (cases "check_remaining key (fset_of_list all) remaining {||}")
    case (Inl e)
    then have "\<not> (set remaining \<subseteq> set all \<and> distinct remaining)"
      using check_remaining_iff [of key "fset_of_list all" remaining "{||}" "fset_of_list remaining"]
      by (auto simp: fset_of_list.rep_eq)
    then show ?thesis using basic Inl
      by (auto simp: validate_composite_waiter_def composite_snapshot_ok_def)
  next
    case (Inr r)
    then have r: "r = fset_of_list remaining" "set remaining \<subseteq> set all" "distinct remaining"
      by (auto simp: check_remaining_iff fset_of_list.rep_eq)
    show ?thesis
    proof (cases "check_granted key (fset_of_list all) r granted {||}")
      case (Inl e)
      then have "\<not> (set granted \<subseteq> set all \<and> distinct granted \<and> set granted \<inter> set remaining = {})"
        using check_granted_iff [of key "fset_of_list all" r granted "{||}" "fset_of_list granted"] r
        by (auto simp: fset_of_list.rep_eq)
      then show ?thesis using basic Inl Inr
        by (auto simp: validate_composite_waiter_def composite_snapshot_ok_def)
    next
      case (Inr g)
      then have g: "g = fset_of_list granted" "set granted \<subseteq> set all" "distinct granted"
        "set granted \<inter> set remaining = {}"
        using r by (auto simp: check_granted_iff fset_of_list.rep_eq)
      have eq: "r |\<union>| g = fset_of_list all \<longleftrightarrow> set remaining \<union> set granted = set all"
        by (metis r(1) g(1) fset_of_list_append fset_of_list_eq_iff fset_of_list.rep_eq set_append)
      have fn: "find (\<lambda>k. k |\<notin>| fset_of_list all) (sorted_list_of_fset (fmdom tokens)) = None \<longleftrightarrow>
          fset (fmdom tokens) \<subseteq> set all"
        by (auto simp: find_None_iff fset_of_list.rep_eq)
      have dom: "fmdom tokens = g \<longleftrightarrow> fset (fmdom tokens) = set granted"
        by (simp add: g(1) fset_of_list_eq_iff)
      note run = basic \<open>check_remaining key (fset_of_list all) remaining {||} = Inr r\<close> Inr
      show ?thesis
      proof (cases "fset (fmdom tokens) \<subseteq> set all")
        case True
        with fn have "find (\<lambda>k. k |\<notin>| fset_of_list all) (sorted_list_of_fset (fmdom tokens)) = None" by simp
        then show ?thesis using run r(3) g(2-4) eq dom
          by (auto simp: validate_composite_waiter_def composite_snapshot_ok_def)
      next
        case False
        with fn obtain k where
          "find (\<lambda>k. k |\<notin>| fset_of_list all) (sorted_list_of_fset (fmdom tokens)) = Some k" by blast
        then show ?thesis using run False g(2)
          by (auto simp: validate_composite_waiter_def composite_snapshot_ok_def)
      qed
    qed
  qed
qed

definition waiter_snapshot_ok :: "string \<Rightarrow> raft_pending_request_snapshot \<Rightarrow> bool" where
  "waiter_snapshot_ok key w \<longleftrightarrow> sq_request_uuid w \<noteq> [] \<and> sq_grant_lock_uuid w \<noteq> Some [] \<and>
     (case sq_kind w of
        SnapComposite all remaining granted tokens cuuid \<Rightarrow>
          composite_snapshot_ok key all remaining granted tokens cuuid
      | _ \<Rightarrow> True)"

lemma validate_waiter_iff:
  "validate_broker_raft_waiter_snapshot key w = Inr () \<longleftrightarrow> waiter_snapshot_ok key w"
  by (auto simp: validate_broker_raft_waiter_snapshot_def waiter_snapshot_ok_def
      validate_composite_waiter_iff split: raft_pending_kind_snapshot.split)

fun count_up :: "nat \<Rightarrow> u64 \<Rightarrow> u64" where
  "count_up 0 t = t"
| "count_up (Suc n) t = count_up n (saturating_add t 1)"

lemma count_up_add: "count_up n (count_up m t) = count_up (m + n) t"
  by (induction m arbitrary: t) simp_all

lemma validate_waiters_iff:
  "validate_waiters key ws seen t = Inr t' \<longleftrightarrow>
   (\<forall>w \<in> set ws. waiter_snapshot_ok key w) \<and> distinct (map sq_request_uuid ws) \<and>
   sq_request_uuid ` set ws \<inter> fset seen = {} \<and> t' = count_up (length ws) t"
proof (induction ws arbitrary: seen t)
  case Nil
  then show ?case by auto
next
  case (Cons w ws)
  show ?case
  proof (cases "validate_broker_raft_waiter_snapshot key w")
    case (Inl e)
    then have "\<not> waiter_snapshot_ok key w" by (metis validate_waiter_iff sum.distinct(1))
    then show ?thesis by (simp add: Inl Let_def)
  next
    case (Inr x)
    then have "waiter_snapshot_ok key w" using validate_waiter_iff by simp
    then show ?thesis using Cons.IH by (auto simp: Inr Let_def)
  qed
qed

definition lock_snapshot_ok :: "raft_lock_snapshot \<Rightarrow> bool" where
  "lock_snapshot_ok l \<longleftrightarrow> sl_key l \<noteq> [] \<and> sl_max l \<noteq> 0 \<and>
     (let us = map se_lock_uuid (sl_exclusive_holders l) @ map sr_lock_uuid (sl_readers l) @
        (case sl_writer l of Some w \<Rightarrow> [sr_lock_uuid w] | None \<Rightarrow> [])
      in [] \<notin> set us \<and> distinct us) \<and>
     (sl_idle l \<longrightarrow> sl_exclusive_holders l = [] \<and> sl_readers l = [] \<and> sl_writer l = None \<and> sl_queue l = []) \<and>
     (\<forall>w \<in> set (sl_queue l). waiter_snapshot_ok (sl_key l) w) \<and>
     distinct (map sq_request_uuid (sl_queue l))"

lemma validate_lock_holders_iff:
  "validate_lock_holders l = Inr () \<longleftrightarrow>
   (let us = map se_lock_uuid (sl_exclusive_holders l) @ map sr_lock_uuid (sl_readers l) @
      (case sl_writer l of Some w \<Rightarrow> [sr_lock_uuid w] | None \<Rightarrow> [])
    in [] \<notin> set us \<and> distinct us)"
proof -
  let ?xs = "map se_lock_uuid (sl_exclusive_holders l)" and ?rs = "map sr_lock_uuid (sl_readers l)"
  have 1: "check_holder_uuids (EmptyExclusiveUuid (sl_key l)) (sl_key l) ?xs {||} = Inr (fset_of_list ?xs) \<longleftrightarrow>
      [] \<notin> set ?xs \<and> distinct ?xs"
    by (simp add: check_holder_uuids_iff)
  have x1: "check_holder_uuids (EmptyExclusiveUuid (sl_key l)) (sl_key l) ?xs {||} = Inr r \<Longrightarrow>
      r = fset_of_list ?xs \<and> [] \<notin> set ?xs \<and> distinct ?xs" for r
    by (simp add: check_holder_uuids_iff)
  have 2: "check_holder_uuids (EmptyReaderUuid (sl_key l)) (sl_key l) ?rs (fset_of_list ?xs) = Inr r \<longleftrightarrow>
      [] \<notin> set ?rs \<and> distinct ?rs \<and> set ?rs \<inter> set ?xs = {} \<and> r = fset_of_list (?xs @ ?rs)" for r
    by (simp only: check_holder_uuids_iff fset_of_list.rep_eq fset_of_list_append)
  show ?thesis
  proof (cases "check_holder_uuids (EmptyExclusiveUuid (sl_key l)) (sl_key l) ?xs {||}")
    case (Inl e)
    with 1 show ?thesis by (auto simp: validate_lock_holders_def Let_def)
  next
    case (Inr r)
    note x = x1 [OF this]
    show ?thesis
    proof (cases "check_holder_uuids (EmptyReaderUuid (sl_key l)) (sl_key l) ?rs (fset_of_list ?xs)")
      case (Inl e)
      with 2 have "\<not> ([] \<notin> set ?rs \<and> distinct ?rs \<and> set ?rs \<inter> set ?xs = {})" by auto
      with Inl Inr x show ?thesis by (auto simp: validate_lock_holders_def Let_def)
    next
      case (Inr r')
      with 2 have "[] \<notin> set ?rs \<and> distinct ?rs \<and> set ?rs \<inter> set ?xs = {} \<and> r' = fset_of_list (?xs @ ?rs)"
        by blast
      with \<open>check_holder_uuids (EmptyExclusiveUuid (sl_key l)) (sl_key l) ?xs {||} = Inr r\<close> Inr x
      show ?thesis
        by (auto simp: validate_lock_holders_def Let_def fset_of_list.rep_eq split: option.split)
    qed
  qed
qed

lemma validate_locks_iff:
  "validate_locks ls ks t = Inr t' \<longleftrightarrow>
   (\<forall>l \<in> set ls. lock_snapshot_ok l) \<and> distinct (map sl_key ls) \<and> sl_key ` set ls \<inter> fset ks = {} \<and>
   t' = count_up (sum_list (map (\<lambda>l. length (sl_queue l)) ls)) t"
proof (induction ls arbitrary: ks t)
  case Nil
  then show ?case by auto
next
  case (Cons l ls)
  let ?v = "validate_waiters (sl_key l) (sl_queue l) {||} t"
  have v: "?v = Inr r \<longleftrightarrow> (\<forall>w \<in> set (sl_queue l). waiter_snapshot_ok (sl_key l) w) \<and>
      distinct (map sq_request_uuid (sl_queue l)) \<and> r = count_up (length (sl_queue l)) t" for r
    by (simp add: validate_waiters_iff)
  show ?case
  proof (cases "validate_lock_holders l")
    case (Inl e)
    then have "\<not> lock_snapshot_ok l"
      using validate_lock_holders_iff [of l] by (auto simp: lock_snapshot_ok_def)
    with Inl show ?thesis by simp
  next
    case (Inr x)
    then have h: "validate_lock_holders l = Inr ()" by simp
    show ?thesis
    proof (cases ?v)
      case (Inl e)
      then have "\<not> lock_snapshot_ok l" using v by (auto simp: lock_snapshot_ok_def)
      with Inl h show ?thesis by simp
    next
      case (Inr r)
      with v have r: "r = count_up (length (sl_queue l)) t" "\<forall>w \<in> set (sl_queue l). waiter_snapshot_ok (sl_key l) w"
        "distinct (map sq_request_uuid (sl_queue l))" by blast+
      have "lock_snapshot_ok l \<longleftrightarrow> sl_key l \<noteq> [] \<and> sl_max l \<noteq> 0 \<and>
          \<not> (sl_idle l \<and> (sl_exclusive_holders l \<noteq> [] \<or> sl_readers l \<noteq> [] \<or>
               sl_writer l \<noteq> None \<or> sl_queue l \<noteq> []))"
        using r h validate_lock_holders_iff [of l] by (auto simp: lock_snapshot_ok_def)
      then show ?thesis using Inr h Cons.IH r(1) by (auto simp: count_up_add)
    qed
  qed
qed

lemma saturating_succ:
  "saturating_add (of_nat n) 1 = (if n < 2 ^ 64 - 1 then of_nat (Suc n) else - 1)" if "n < 2 ^ 64"
proof (cases "n < 2 ^ 64 - 1")
  case True
  then have "unat (of_nat n :: u64) = n" "unat (of_nat n + 1 :: u64) = Suc n"
    by (simp_all add: unsigned_of_nat take_bit_eq_mod unat_word_ariths(1))
  then show ?thesis using True by (simp add: saturating_add_def word_le_nat_alt add.commute)
next
  case False
  with that have "n = 2 ^ 64 - 1" by simp
  then have "(of_nat n :: u64) = - 1" by simp
  then show ?thesis using False by (simp add: saturating_add_def)
qed

lemma count_up_of_nat:
  "m < 2 ^ 64 \<Longrightarrow> count_up n (of_nat m) = of_nat (min (m + n) (2 ^ 64 - 1))"
proof (induction n arbitrary: m)
  case (Suc n)
  show ?case
  proof (cases "m < 2 ^ 64 - 1")
    case True
    then show ?thesis using Suc.IH [of "Suc m"] saturating_succ [of m] by simp
  next
    case False
    with Suc.prems have m: "m = 2 ^ 64 - 1" by simp
    with saturating_succ [of m] have "saturating_add (of_nat m) 1 = (of_nat m :: u64)" by simp
    with Suc.IH [of m] m show ?thesis by simp
  qed
qed simp

definition deadline_snapshot_ok :: "raft_lock_snapshot list \<Rightarrow> raft_deadline_snapshot \<Rightarrow> bool" where
  "deadline_snapshot_ok ls d \<longleftrightarrow> sd_lock_uuid d \<noteq> [] \<and> sd_keys d \<noteq> [] \<and> [] \<notin> set (sd_keys d) \<and>
     (\<forall>k \<in> set (sd_keys d). \<exists>l \<in> set ls. sl_key l = k \<and> lock_snapshot_contains l (sd_lock_uuid d) (sd_kind d))"

lemma find_by_key:
  "distinct (map f xs) \<Longrightarrow> find (\<lambda>x. f x = k) xs = Some x \<longleftrightarrow> x \<in> set xs \<and> f x = k"
  by (induction xs) auto

lemma matches_locks_iff:
  assumes "distinct (map sl_key ls)"
  shows "snapshot_deadline_matches_locks ls d \<longleftrightarrow>
    (\<forall>k \<in> set (sd_keys d). \<exists>l \<in> set ls. sl_key l = k \<and> lock_snapshot_contains l (sd_lock_uuid d) (sd_kind d))"
proof -
  have "(case find (\<lambda>l. sl_key l = k) ls of Some l \<Rightarrow> P l | None \<Rightarrow> False) \<longleftrightarrow>
      (\<exists>l \<in> set ls. sl_key l = k \<and> P l)" for k P
    using find_by_key [OF assms, of k] by (auto split: option.split simp: find_None_iff) (metis option.inject)
  then show ?thesis by (simp add: snapshot_deadline_matches_locks_def list_all_iff)
qed

lemma validate_deadlines_iff:
  assumes "distinct (map sl_key ls)"
  shows "validate_deadlines ls ds = Inr () \<longleftrightarrow> (\<forall>d \<in> set ds. deadline_snapshot_ok ls d)"
proof (induction ds)
  case (Cons d ds)
  then show ?case
    by (auto simp: deadline_snapshot_ok_def matches_locks_iff [OF assms] list_ex_iff)
qed simp

definition snapshot_ok :: "broker_raft_snapshot \<Rightarrow> bool" where
  "snapshot_ok sn \<longleftrightarrow> sn_schema_version sn = 1 \<and>
     (\<forall>l \<in> set (sn_locks sn). lock_snapshot_ok l) \<and> distinct (map sl_key (sn_locks sn)) \<and>
     sm_waiters (sn_metrics sn) =
       of_nat (min (sum_list (map (\<lambda>l. length (sl_queue l)) (sn_locks sn))) (2 ^ 64 - 1)) \<and>
     (\<forall>d \<in> set (sn_deadlines sn). deadline_snapshot_ok (sn_locks sn) d)"

lemma validate_snapshot_iff: "validate_broker_raft_snapshot sn = Inr () \<longleftrightarrow> snapshot_ok sn"
proof -
  let ?n = "sum_list (map (\<lambda>l. length (sl_queue l)) (sn_locks sn))"
  have c: "count_up ?n 0 = of_nat (min ?n (2 ^ 64 - 1))" using count_up_of_nat [of 0 ?n] by simp
  have v: "validate_locks (sn_locks sn) {||} 0 = Inr t \<longleftrightarrow>
      (\<forall>l \<in> set (sn_locks sn). lock_snapshot_ok l) \<and> distinct (map sl_key (sn_locks sn)) \<and> t = count_up ?n 0" for t
    by (simp add: validate_locks_iff)
  show ?thesis
  proof (cases "validate_locks (sn_locks sn) {||} 0")
    case (Inl e)
    with v have "\<not> ((\<forall>l \<in> set (sn_locks sn). lock_snapshot_ok l) \<and> distinct (map sl_key (sn_locks sn)))" by auto
    with Inl show ?thesis by (auto simp: validate_broker_raft_snapshot_def snapshot_ok_def)
  next
    case (Inr t)
    with v have t: "t = count_up ?n 0" "\<forall>l \<in> set (sn_locks sn). lock_snapshot_ok l"
      "distinct (map sl_key (sn_locks sn))" by auto
    show ?thesis
      unfolding validate_broker_raft_snapshot_def snapshot_ok_def Inr sum.case t(1) c [symmetric]
        validate_deadlines_iff [OF t(3), symmetric]
      using t(2,3) by auto
  qed
qed

section \<open>What installation builds\<close>

definition restored_exclusive :: "raft_exclusive_holder_snapshot \<Rightarrow> exclusive_holder" where
  "restored_exclusive h =
     \<lparr>eh_client = SNAPSHOT_DETACHED_CLIENT, eh_pid = se_pid h, eh_fencing_token = se_fencing_token h,
      eh_keep_locks_after_death = se_keep_locks_after_death h,
      eh_composite_member = se_composite_member h\<rparr>"

definition max_of :: "u64 list \<Rightarrow> u64 \<Rightarrow> u64" where
  "max_of ts c = fold (\<lambda>t c. max c t) ts c"

lemma max_of_ge: "c \<le> max_of ts c" "t \<in> set ts \<Longrightarrow> t \<le> max_of ts c"
proof -
  have a: "c \<le> max_of ts c" for ts c
    by (induction ts arbitrary: c) (auto simp: max_of_def intro: order_trans [OF max.cobounded1])
  show "c \<le> max_of ts c" by (rule a)
  show "t \<in> set ts \<Longrightarrow> t \<le> max_of ts c"
  proof (induction ts arbitrary: c)
    case (Cons x ts)
    then show ?case using a [of "max c x" ts] by (auto simp: max_of_def)
  qed simp
qed

lemma max_of_append: "max_of (xs @ ys) c = max_of ys (max_of xs c)"
  by (simp add: max_of_def)

lemma fold_restore_exclusive:
  "fold restore_exclusive hs (l, s) =
   (l\<lparr>fencing_counter := max_of (map se_fencing_token hs) (fencing_counter l),
      exclusive_holders := fold (\<lambda>h. fmupd (se_lock_uuid h) (restored_exclusive h)) hs (exclusive_holders l)\<rparr>,
    s\<lparr>fencing_watermark := max_of (map se_fencing_token hs) (fencing_watermark s)\<rparr>)"
  by (induction hs arbitrary: l s)
    (simp_all add: restore_exclusive_def restored_exclusive_def max_of_def Let_def)

lemma fold_restore_reader:
  "fold restore_reader hs (l, s) =
   (l\<lparr>fencing_counter := max_of (map sr_fencing_token hs) (fencing_counter l),
      readers := fold (\<lambda>h. fmupd (sr_lock_uuid h) (restored_rw_holder h)) hs (readers l)\<rparr>,
    s\<lparr>fencing_watermark := max_of (map sr_fencing_token hs) (fencing_watermark s)\<rparr>)"
  by (induction hs arbitrary: l s) (simp_all add: restore_reader_def max_of_def Let_def)

lemma fold_restore_waiter:
  "fold (restore_waiter Q) ws (l, s) =
   (l\<lparr>queue := fold (\<lambda>w q. snd (lq_push_back Q q (sq_request_uuid w) (restored_request w))) ws (queue l)\<rparr>,
    s\<lparr>next_client_id := fold (\<lambda>w i. max i (saturating_add (sq_client_id w) 1)) ws (next_client_id s)\<rparr>)"
  by (induction ws arbitrary: l s) (simp_all add: restore_waiter_def Let_def)

definition snapshot_tokens :: "raft_lock_snapshot \<Rightarrow> u64 list" where
  "snapshot_tokens ls = map se_fencing_token (sl_exclusive_holders ls) @
     map sr_fencing_token (sl_readers ls) @
     (case sl_writer ls of Some w \<Rightarrow> [sr_fencing_token w] | None \<Rightarrow> [])"

definition restored_base :: "'q pending_queue \<Rightarrow> u32 \<Rightarrow> raft_lock_snapshot \<Rightarrow> 'q lock_state" where
  "restored_base Q cap ls =
     \<lparr>exclusive_holders = fold (\<lambda>h. fmupd (se_lock_uuid h) (restored_exclusive h))
        (sl_exclusive_holders ls) fmempty,
      ls_max = max (min (max (sl_max ls) 1) cap) 1,
      readers = fold (\<lambda>h. fmupd (sr_lock_uuid h) (restored_rw_holder h)) (sl_readers ls) fmempty,
      writer = map_option restored_rw_holder (sl_writer ls),
      queue = fold (\<lambda>w q. snd (lq_push_back Q q (sq_request_uuid w) (restored_request w)))
        (sl_queue ls) (lq_new Q),
      fencing_counter = max_of (snapshot_tokens ls) (sl_fencing_counter ls),
      timestamp_emptied = None\<rparr>"

definition restored_lock ::
  "'q pending_queue \<Rightarrow> u32 \<Rightarrow> instant \<Rightarrow> raft_lock_snapshot \<Rightarrow> 'q lock_state" where
  "restored_lock Q cap now ls =
     (let l = restored_base Q cap ls
      in if is_idle Q l \<and> sl_idle ls then l\<lparr>timestamp_emptied := Some now\<rparr> else l)"

lemma restored_lock_fields [simp]:
  "exclusive_holders (restored_lock Q cap now ls) = exclusive_holders (restored_base Q cap ls)"
  "ls_max (restored_lock Q cap now ls) = ls_max (restored_base Q cap ls)"
  "readers (restored_lock Q cap now ls) = readers (restored_base Q cap ls)"
  "writer (restored_lock Q cap now ls) = writer (restored_base Q cap ls)"
  "queue (restored_lock Q cap now ls) = queue (restored_base Q cap ls)"
  "fencing_counter (restored_lock Q cap now ls) = fencing_counter (restored_base Q cap ls)"
  by (simp_all add: restored_lock_def Let_def)

lemma restore_writer_case:
  "(case w of Some h \<Rightarrow> restore_writer h (l, s) | None \<Rightarrow> (l, s)) =
   (l\<lparr>fencing_counter := max_of (case w of Some w \<Rightarrow> [sr_fencing_token w] | None \<Rightarrow> []) (fencing_counter l),
      writer := (case w of Some h \<Rightarrow> Some (restored_rw_holder h) | None \<Rightarrow> writer l)\<rparr>,
    s\<lparr>fencing_watermark := max_of (case w of Some w \<Rightarrow> [sr_fencing_token w] | None \<Rightarrow> []) (fencing_watermark s)\<rparr>)"
  by (simp add: restore_writer_def max_of_def Let_def split: option.split)

lemma restore_lock_result:
  "restore_lock Q E now ls s =
   put_lock ((bump s)\<lparr>next_client_id :=
         fold (\<lambda>w i. max i (saturating_add (sq_client_id w) 1)) (sl_queue ls) (next_client_id s),
       fencing_watermark := max (max_of (snapshot_tokens ls) (fencing_watermark s))
         (fencing_counter (restored_base Q (concurrency_cap (config s)) ls))\<rparr>)
     (sl_key ls) (restored_lock Q (concurrency_cap (config s)) now ls)"
proof -
  have m: "(case x of Some h \<Rightarrow> Some (f h) | None \<Rightarrow> None) = map_option f x" for x and f :: "'x \<Rightarrow> 'y"
    by (simp split: option.split)
  let ?l = "(lock_state_new Q E (reads s) (min (max (sl_max ls) 1) (max (max_concurrency_cap (config s)) 1)))
      \<lparr>fencing_counter := sl_fencing_counter ls, timestamp_emptied := None\<rparr>"
  let ?s = "(bump s)\<lparr>fencing_watermark := max_of (snapshot_tokens ls) (fencing_watermark s),
      next_client_id := fold (\<lambda>w i. max i (saturating_add (sq_client_id w) 1)) (sl_queue ls) (next_client_id s)\<rparr>"
  have acc: "fold (restore_waiter Q) (sl_queue ls)
      (case sl_writer ls of
         Some h \<Rightarrow> restore_writer h (fold restore_reader (sl_readers ls)
           (fold restore_exclusive (sl_exclusive_holders ls) (?l, bump s)))
       | None \<Rightarrow> fold restore_reader (sl_readers ls)
           (fold restore_exclusive (sl_exclusive_holders ls) (?l, bump s))) =
      (restored_base Q (concurrency_cap (config s)) ls, ?s)"
    unfolding fold_restore_exclusive fold_restore_reader restore_writer_case fold_restore_waiter
    by (simp add: lock_state_new_def restored_base_def concurrency_cap_def snapshot_tokens_def max_of_append m
        bump_def cong: option.case_cong)
  show ?thesis
    unfolding restore_lock_def Let_def acc split_conv by (simp add: restored_lock_def Let_def)
qed

lemma restore_locks_frame:
  "config (fold (restore_lock Q E now) ls s) = config s"
  "fencing_watermark s \<le> fencing_watermark (fold (restore_lock Q E now) ls s)"
  "started_at (fold (restore_lock Q E now) ls s) = started_at s"
  "clients (fold (restore_lock Q E now) ls s) = clients s"
proof -
  have w: "fencing_watermark s \<le> fencing_watermark (restore_lock Q E now l s)" for l and s :: "'a broker_state"
    using max_of_ge(1) [of "fencing_watermark s" "snapshot_tokens l"]
    by (simp add: restore_lock_result put_lock_def le_max_iff_disj)
  show "fencing_watermark s \<le> fencing_watermark (fold (restore_lock Q E now) ls s)"
    by (rule fold_invariant_set [of "\<lambda>t. fencing_watermark s \<le> fencing_watermark t"])
      (auto intro: order_trans w)
  show "config (fold (restore_lock Q E now) ls s) = config s"
    "started_at (fold (restore_lock Q E now) ls s) = started_at s"
    "clients (fold (restore_lock Q E now) ls s) = clients s"
    by (rule fold_frame; simp add: restore_lock_result put_lock_def bump_def)+
qed

lemma restore_locks_lookup:
  "distinct (map sl_key ls) \<Longrightarrow>
   fmlookup (locks (fold (restore_lock Q E now) ls s)) k =
     (case find (\<lambda>l. sl_key l = k) ls of
        Some l \<Rightarrow> Some (restored_lock Q (concurrency_cap (config s)) now l)
      | None \<Rightarrow> fmlookup (locks s) k)"
proof (induction ls arbitrary: s)
  case (Cons l ls)
  have one: "locks (restore_lock Q E now l s) =
      fmupd (sl_key l) (restored_lock Q (concurrency_cap (config s)) now l) (locks s)"
    "config (restore_lock Q E now l s) = config s"
    by (simp_all add: restore_lock_result put_lock_def bump_def)
  have "find (\<lambda>x. sl_key x = sl_key l) ls = None"
    using Cons.prems by (simp add: find_None_iff) (metis imageI)
  with Cons one show ?case by (auto split: option.split)
qed simp

text \<open>Tokens of the holders are below the key's counter, and counters below the watermark.\<close>

definition lock_tokens :: "'q lock_state \<Rightarrow> u64 set" where
  "lock_tokens l = eh_fencing_token ` fset (fmran (exclusive_holders l)) \<union>
     rh_fencing_token ` fset (fmran (readers l)) \<union>
     (case writer l of Some w \<Rightarrow> {rh_fencing_token w} | None \<Rightarrow> {})"

lemma fmran_fold_fmupd:
  "fset (fmran (fold (\<lambda>h. fmupd (f h) (g h)) hs m)) \<subseteq> g ` set hs \<union> fset (fmran m)"
proof (induction hs arbitrary: m)
  case (Cons h hs)
  have "fset (fmran (fmupd (f h) (g h) m)) \<subseteq> insert (g h) (fset (fmran m))"
    by (auto simp: fmlookup_ran_iff split: if_splits)
  with Cons [of "fmupd (f h) (g h) m"] show ?case by auto
qed simp

lemma restored_tokens: "lock_tokens (restored_base Q cap ls) \<subseteq> set (snapshot_tokens ls)"
proof -
  have "eh_fencing_token ` fset (fmran (exclusive_holders (restored_base Q cap ls))) \<subseteq>
      eh_fencing_token ` restored_exclusive ` set (sl_exclusive_holders ls)"
    by (rule image_mono)
      (use fmran_fold_fmupd [of se_lock_uuid restored_exclusive "sl_exclusive_holders ls" fmempty]
       in \<open>simp add: restored_base_def\<close>)
  moreover have "rh_fencing_token ` fset (fmran (readers (restored_base Q cap ls))) \<subseteq>
      rh_fencing_token ` restored_rw_holder ` set (sl_readers ls)"
    by (rule image_mono)
      (use fmran_fold_fmupd [of sr_lock_uuid restored_rw_holder "sl_readers ls" fmempty]
       in \<open>simp add: restored_base_def\<close>)
  ultimately show ?thesis
    by (auto simp: lock_tokens_def snapshot_tokens_def restored_exclusive_def restored_rw_holder_def
        restored_base_def image_image split: option.split)
qed

definition fencing_floors :: "'q broker_state \<Rightarrow> bool" where
  "fencing_floors s \<longleftrightarrow> locks_sat (\<lambda>_ l. (\<forall>t \<in> lock_tokens l. t \<le> fencing_counter l) \<and>
     fencing_counter l \<le> fencing_watermark s) s"

lemma restore_lock_floors:
  assumes "fencing_floors s"
  shows "fencing_floors (restore_lock Q E now ls s)"
proof -
  let ?b = "restored_base Q (concurrency_cap (config s)) ls"
  have t: "t \<le> fencing_counter ?b" if "t \<in> lock_tokens ?b" for t
    using that restored_tokens max_of_ge(2) by (fastforce simp: restored_base_def)
  have w: "fencing_watermark s \<le> fencing_watermark (restore_lock Q E now ls s)"
    using restore_locks_frame(2) [of s Q E now "[ls]"] by simp
  have "lock_tokens (restored_lock Q (concurrency_cap (config s)) now ls) = lock_tokens ?b"
    by (simp add: lock_tokens_def)
  with assms t w show ?thesis
    by (auto simp: fencing_floors_def locks_sat_def restore_lock_result put_lock_def split: if_splits
        intro: order_trans)
qed

lemma restore_locks_floors:
  "fencing_floors s \<Longrightarrow> fencing_floors (fold (restore_lock Q E now) ls s)"
  by (rule fold_invariant_set [of fencing_floors]) (auto intro: restore_lock_floors)

text \<open>Deadlines.\<close>

lemma restore_deadlines_frame:
  "restore_deadlines E now ds s = Inr s' \<Longrightarrow>
   locks s' = locks s \<and> fencing_watermark s' = fencing_watermark s \<and> config s' = config s \<and>
   clients s' = clients s \<and> started_at s' = started_at s"
  by (induction ds arbitrary: s) (auto simp: Let_def split: if_splits)

lemma restore_deadlines_total:
  "(\<exists>s'. restore_deadlines E now ds s = Inr s') \<longleftrightarrow> (\<forall>d \<in> set ds. snapshot_deadline_matches_state s d)"
proof (induction ds arbitrary: s)
  case (Cons d ds)
  have f: "snapshot_deadline_matches_state (s\<lparr>deadline_seq := a, deadlines := b\<rparr>) x =
      snapshot_deadline_matches_state s x" for a b x
    by (simp add: snapshot_deadline_matches_state_def)
  from Cons f show ?case by (simp add: Let_def)
qed simp

lemma fmdom_fold_fmupd: "fmdom (fold (\<lambda>h. fmupd (f h) (g h)) hs m) = fset_of_list (map f hs) |\<union>| fmdom m"
  by (induction hs arbitrary: m) auto

lemma restored_contains:
  "lock_contains_uuid_for_kind (restored_lock Q cap now ls) u kind = lock_snapshot_contains ls u kind"
  by (cases kind)
    (auto simp: lock_contains_uuid_for_kind_def lock_snapshot_contains_def restored_base_def fmdom_fold_fmupd
      fset_of_list.rep_eq list_ex_iff image_iff restored_rw_holder_def split: option.split)

definition install_base ::
  "host \<Rightarrow> 'q broker_state \<Rightarrow> raft_snapshot_metrics \<Rightarrow> 'q broker_state" where
  "install_base E s m = (fresh_broker E s)
     \<lparr>ttl_evictions_total := sm_ttl_evictions_total m,
      concurrency_cap_clamps_total := sm_concurrency_cap_clamps_total m,
      fencing_watermark := sm_fencing_watermark m,
      idle_keys_pruned_total := sm_idle_keys_pruned_total m\<rparr>"

lemma install_base_fields [simp]:
  "locks (install_base E s m) = fmempty" "config (install_base E s m) = config s"
  "fencing_watermark (install_base E s m) = sm_fencing_watermark m"
  "clients (install_base E s m) = fmempty" "started_at (install_base E s m) = started_at s"
  by (simp_all add: install_base_def fresh_broker_def broker_state_new_def)

lemma install_unfold:
  "install_broker_raft_snapshot Q E s sn = restore_deadlines E (instant_now E (reads s)) (sn_deadlines sn)
     (fold (restore_lock Q E (instant_now E (reads s))) (sn_locks sn) (install_base E s (sn_metrics sn)))"
  by (simp add: install_broker_raft_snapshot_def install_base_def Let_def)

lemma installed_lookup:
  assumes "distinct (map sl_key (sn_locks sn))" and "install_broker_raft_snapshot Q E s sn = Inr s'"
  shows "fmlookup (locks s') k = map_option (restored_lock Q (concurrency_cap (config s)) (instant_now E (reads s)))
    (find (\<lambda>l. sl_key l = k) (sn_locks sn))"
  using restore_deadlines_frame [OF assms(2) [unfolded install_unfold]]
  by (simp add: restore_locks_lookup [OF assms(1)] split: option.split)

lemma installed_frame:
  assumes "install_broker_raft_snapshot Q E s sn = Inr s'"
  shows "config s' = config s" "clients s' = fmempty" "started_at s' = started_at s"
    "sm_fencing_watermark (sn_metrics sn) \<le> fencing_watermark s'" "fencing_floors s'"
proof -
  let ?t = "fold (restore_lock Q E (instant_now E (reads s))) (sn_locks sn) (install_base E s (sn_metrics sn))"
  note f = restore_deadlines_frame [OF assms [unfolded install_unfold]]
  show "config s' = config s" "clients s' = fmempty" "started_at s' = started_at s" 
    using f by (simp_all add: restore_locks_frame)
  show "sm_fencing_watermark (sn_metrics sn) \<le> fencing_watermark s'"
    using f restore_locks_frame(2) [of "install_base E s (sn_metrics sn)" Q E "instant_now E (reads s)" "sn_locks sn"]
    by simp
  have "fencing_floors (install_base E s (sn_metrics sn))" by (simp add: fencing_floors_def locks_sat_def)
  then have "fencing_floors ?t" by (rule restore_locks_floors)
  with f show "fencing_floors s'" by (simp add: fencing_floors_def locks_sat_def)
qed

lemma ok_snapshot_installs:
  assumes "snapshot_ok sn"
  shows "\<exists>s'. install_broker_raft_snapshot Q E s sn = Inr s'"
  unfolding install_unfold restore_deadlines_total
proof
  fix d
  assume d: "d \<in> set (sn_deadlines sn)"
  have dk: "distinct (map sl_key (sn_locks sn))" using assms by (simp add: snapshot_ok_def)
  have "case fmlookup (locks (fold (restore_lock Q E (instant_now E (reads s))) (sn_locks sn)
        (install_base E s (sn_metrics sn)))) k of
      Some l \<Rightarrow> lock_contains_uuid_for_kind l (sd_lock_uuid d) (sd_kind d) | None \<Rightarrow> False"
    if k: "k \<in> set (sd_keys d)" for k
  proof -
    obtain l where l: "l \<in> set (sn_locks sn)" "sl_key l = k"
      "lock_snapshot_contains l (sd_lock_uuid d) (sd_kind d)"
      using assms d k unfolding snapshot_ok_def deadline_snapshot_ok_def by blast
    then have "find (\<lambda>l. sl_key l = k) (sn_locks sn) = Some l" using find_by_key [OF dk] by simp
    with l(3) show ?thesis by (simp add: restore_locks_lookup [OF dk] restored_contains)
  qed
  then show "snapshot_deadline_matches_state (fold (restore_lock Q E (instant_now E (reads s))) (sn_locks sn)
      (install_base E s (sn_metrics sn))) d"
    unfolding snapshot_deadline_matches_state_def list_all_iff by blast
qed

section \<open>A snapshot restores the broker it was taken from\<close>

definition detached_exclusive :: "exclusive_holder \<Rightarrow> exclusive_holder" where
  "detached_exclusive h = h\<lparr>eh_client := SNAPSHOT_DETACHED_CLIENT\<rparr>"

definition detached_rw :: "string \<Rightarrow> rw_holder \<Rightarrow> rw_holder" where
  "detached_rw u h = h\<lparr>rh_client := SNAPSHOT_DETACHED_CLIENT, rh_lock_uuid := u\<rparr>"

definition whole_ms :: "pending_request \<Rightarrow> pending_request" where
  "whole_ms p = p\<lparr>pr_ttl := map_option (\<lambda>d. from_millis (duration_ms_u64 d)) (pr_ttl p)\<rparr>"

text \<open>
  The same lock, with its holders detached from their clients: tokens, waiters and their order
  and the concurrency level are as before, the counter has not gone back, and the waiters'
  TTLs are cut to whole milliseconds.
\<close>

definition same_lock :: "'q pending_queue \<Rightarrow> 'q lock_state \<Rightarrow> 'q lock_state \<Rightarrow> bool" where
  "same_lock Q l l' \<longleftrightarrow>
     exclusive_holders l' = fmmap detached_exclusive (exclusive_holders l) \<and>
     readers l' = fmmap_keys detached_rw (readers l) \<and>
     writer l' = map_option (\<lambda>h. detached_rw (rh_lock_uuid h) h) (writer l) \<and>
     lq_iter Q (queue l') = map (\<lambda>(u, p). (u, whole_ms p)) (lq_iter Q (queue l)) \<and>
     ls_max l' = ls_max l \<and> fencing_counter l \<le> fencing_counter l'"

lemma pending_kind_round_trip [simp]: "pending_kind_from_snapshot (pending_kind_snapshot_from k) = k"
  by (cases k) simp_all

lemma restored_pending: "restored_request (pending_snapshot_of p) = whole_ms p"
  by (cases p) (simp add: restored_request_def pending_snapshot_of_def whole_ms_def option.map_comp comp_def)

lemma pending_snapshot_uuid [simp]: "sq_request_uuid (pending_snapshot_of p) = pr_request_uuid p"
  by (simp add: pending_snapshot_of_def)

lemma lookup_fold_image:
  assumes "\<forall>h \<in> set hs. h = F (f h)"
  shows "fmlookup (fold (\<lambda>h. fmupd (f h) (g h)) hs m) u =
    (if u \<in> f ` set hs then Some (g (F u)) else fmlookup m u)"
  using assms by (induction hs arbitrary: m) auto

context broker_queue
begin

lemma iter_pushes:
  "distinct (map fst (lq_iter Q q) @ map f ws) \<Longrightarrow>
   lq_iter Q (fold (\<lambda>w q. snd (lq_push_back Q q (f w) (g w))) ws q) =
     lq_iter Q q @ map (\<lambda>w. (f w, g w)) ws"
proof (induction ws arbitrary: q)
  case (Cons w ws)
  then have "f w \<notin> fst ` set (lq_iter Q q)" by auto
  then have i: "lq_iter Q (snd (lq_push_back Q q (f w) (g w))) = lq_iter Q q @ [(f w, g w)]"
    by (simp add: lq.iter_push_back)
  with Cons show ?case by simp
qed simp

end

context broker_env
begin

lemma sorted_hash_iter:
  "set (sort_key f (map F (hash_iter E n A))) = F ` fset A"
  "(\<And>u. f (F u) = u) \<Longrightarrow> distinct (map f (sort_key f (map F (hash_iter E n A))))"
proof -
  show "set (sort_key f (map F (hash_iter E n A))) = F ` fset A" by (simp add: set_hash_iter)
  assume f: "\<And>u. f (F u) = u"
  then have "inj_on F (fset A)" "inj_on f (F ` fset A)" by (auto simp: inj_on_def) (metis f)
  then show "distinct (map f (sort_key f (map F (hash_iter E n A))))"
    by (simp add: distinct_map distinct_hash_iter set_hash_iter)
qed

lemma snapshot_same_lock:
  assumes wf: "lock_wf Q cap key l"
  shows "same_lock Q l (restored_base Q cap (lock_snapshot_of Q E n key l))"
proof -
  let ?sn = "lock_snapshot_of Q E n key l"
  let ?X = "\<lambda>u. exclusive_snapshot_of u (the (fmlookup (exclusive_holders l) u))"
  let ?R = "\<lambda>u. \<lparr>sr_lock_uuid = u, sr_fencing_token = rh_fencing_token (the (fmlookup (readers l) u))\<rparr>"
  have x: "set (sl_exclusive_holders ?sn) = ?X ` fset (fmdom (exclusive_holders l))"
    and r: "set (sl_readers ?sn) = ?R ` fset (fmdom (readers l))"
    by (simp_all add: lock_snapshot_of_def set_hash_iter)
  have "exclusive_holders (restored_base Q cap ?sn) = fmmap detached_exclusive (exclusive_holders l)"
  proof (rule fmap_ext)
    fix u
    have im: "se_lock_uuid ` set (sl_exclusive_holders ?sn) = fset (fmdom (exclusive_holders l))"
      by (simp add: x image_image exclusive_snapshot_of_def)
    have "\<forall>h \<in> set (sl_exclusive_holders ?sn). h = ?X (se_lock_uuid h)"
      by (simp add: x exclusive_snapshot_of_def)
    from lookup_fold_image [where F = ?X and f = se_lock_uuid, OF this, of restored_exclusive fmempty u]
    show "fmlookup (exclusive_holders (restored_base Q cap ?sn)) u =
        fmlookup (fmmap detached_exclusive (exclusive_holders l)) u"
      by (cases "fmlookup (exclusive_holders l) u")
        (auto simp: restored_base_def im fmlookup_dom_iff restored_exclusive_def exclusive_snapshot_of_def
          detached_exclusive_def)
  qed
  moreover have "readers (restored_base Q cap ?sn) = fmmap_keys detached_rw (readers l)"
  proof (rule fmap_ext)
    fix u
    have im: "sr_lock_uuid ` set (sl_readers ?sn) = fset (fmdom (readers l))" by (simp add: r image_image)
    have "\<forall>h \<in> set (sl_readers ?sn). h = ?R (sr_lock_uuid h)" by (simp add: r)
    from lookup_fold_image [where F = ?R and f = sr_lock_uuid, OF this, of restored_rw_holder fmempty u]
    show "fmlookup (readers (restored_base Q cap ?sn)) u = fmlookup (fmmap_keys detached_rw (readers l)) u"
      by (cases "fmlookup (readers l) u")
        (auto simp: restored_base_def im fmlookup_dom_iff restored_rw_holder_def detached_rw_def)
  qed
  moreover have "lq_iter Q (queue (restored_base Q cap ?sn)) = map (\<lambda>(u, p). (u, whole_ms p)) (lq_iter Q (queue l))"
  proof -
    have ok: "queue_ok Q key (queue l)" using wf by (simp add: lock_wf_def)
    then have u: "\<forall>x \<in> set (lq_iter Q (queue l)). pr_request_uuid (snd x) = fst x"
      by (auto simp: queue_ok_def)
    then have "map sq_request_uuid (sl_queue ?sn) = map fst (lq_iter Q (queue l))"
      by (simp add: lock_snapshot_of_def)
    with ok have "distinct (map fst (lq_iter Q (lq_new Q)) @ map sq_request_uuid (sl_queue ?sn))"
      by (simp add: queue_ok_def lq.iter_new)
    from iter_pushes [OF this, of restored_request] u show ?thesis
      by (auto simp: restored_base_def lq.iter_new lock_snapshot_of_def restored_pending)
  qed
  moreover have "ls_max (restored_base Q cap ?sn) = ls_max l"
    using wf by (auto simp: restored_base_def lock_snapshot_of_def lock_wf_def holders_ok_def max_def min_def)
  moreover have "fencing_counter l \<le> fencing_counter (restored_base Q cap ?sn)"
    by (simp add: restored_base_def lock_snapshot_of_def max_of_ge)
  moreover have "writer (restored_base Q cap ?sn) = map_option (\<lambda>h. detached_rw (rh_lock_uuid h) h) (writer l)"
    by (cases "writer l")
      (simp_all add: restored_base_def lock_snapshot_of_def restored_rw_holder_def detached_rw_def)
  ultimately show ?thesis unfolding same_lock_def by blast
qed

lemma broker_snapshot_locks:
  "sn_locks (broker_raft_snapshot_of Q E s) = sort_key sl_key
     (map (\<lambda>k. lock_snapshot_of Q E (reads s) k (the (fmlookup (locks s) k)))
       (hash_iter E (reads s) (fmdom (locks s))))"
  by (simp add: broker_raft_snapshot_of_def Let_def)

lemma snapshot_keys:
  "distinct (map sl_key (sn_locks (broker_raft_snapshot_of Q E s)))"
  "l \<in> set (sn_locks (broker_raft_snapshot_of Q E s)) \<longleftrightarrow>
     (\<exists>k x. fmlookup (locks s) k = Some x \<and> l = lock_snapshot_of Q E (reads s) k x)"
proof -
  have k: "sl_key (lock_snapshot_of Q E (reads s) k x) = k" for k x by (simp add: lock_snapshot_of_def)
  show "distinct (map sl_key (sn_locks (broker_raft_snapshot_of Q E s)))"
    unfolding broker_snapshot_locks by (rule sorted_hash_iter(2)) (rule k)
  show "l \<in> set (sn_locks (broker_raft_snapshot_of Q E s)) \<longleftrightarrow>
     (\<exists>k x. fmlookup (locks s) k = Some x \<and> l = lock_snapshot_of Q E (reads s) k x)"
    unfolding broker_snapshot_locks sorted_hash_iter(1)
    by (auto simp: fmlookup_dom_iff intro!: image_eqI) blast
qed

lemma snapshot_find:
  "find (\<lambda>l. sl_key l = k) (sn_locks (broker_raft_snapshot_of Q E s)) =
   map_option (lock_snapshot_of Q E (reads s) k) (fmlookup (locks s) k)"
proof (cases "fmlookup (locks s) k")
  case None
  then show ?thesis
    by (auto simp: find_None_iff snapshot_keys(2) lock_snapshot_of_def)
next
  case (Some x)
  then show ?thesis
    using find_by_key [OF snapshot_keys(1), of k s "lock_snapshot_of Q E (reads s) k x"] snapshot_keys(2)
    by (auto simp: lock_snapshot_of_def)
qed

lemma snapshot_restores_locks:
  assumes "broker_inv Q S s" and "config t = config s"
    and "install_broker_raft_snapshot Q E t (broker_raft_snapshot_of Q E s) = Inr t'"
  shows "case fmlookup (locks s) k of
      None \<Rightarrow> fmlookup (locks t') k = None
    | Some l \<Rightarrow> (\<exists>l'. fmlookup (locks t') k = Some l' \<and> same_lock Q l l')"
proof -
  have lk: "fmlookup (locks t') k = map_option (restored_lock Q (concurrency_cap (config s)) (instant_now E (reads t)))
      (map_option (lock_snapshot_of Q E (reads s) k) (fmlookup (locks s) k))"
    using installed_lookup [OF snapshot_keys(1) assms(3)] by (simp add: snapshot_find assms(2))
  show ?thesis
  proof (cases "fmlookup (locks s) k")
    case (Some l)
    then have "lock_wf Q (concurrency_cap (config s)) k l" using broker_invD(1) [OF assms(1)] by blast
    from snapshot_same_lock [OF this, of "reads s"] Some lk show ?thesis by (simp add: same_lock_def)
  qed (use lk in simp)
qed

end

section \<open>A snapshot of a reachable broker is valid\<close>

text \<open>Nothing is named by the empty string, which the validation refuses.\<close>

definition named_pending :: "pending_request \<Rightarrow> bool" where
  "named_pending p \<longleftrightarrow> pr_request_uuid p \<noteq> [] \<and> pr_grant_lock_uuid p \<noteq> Some [] \<and>
     (case pr_kind p of
        PendComposite all remaining granted tokens cuuid \<Rightarrow> cuuid \<noteq> [] \<and> [] \<notin> set all
      | _ \<Rightarrow> True)"

definition named_lock :: "'q pending_queue \<Rightarrow> string \<Rightarrow> 'q lock_state \<Rightarrow> bool" where
  "named_lock Q key l \<longleftrightarrow> key \<noteq> [] \<and> [] |\<notin>| fmdom (exclusive_holders l) \<and> [] |\<notin>| fmdom (readers l) \<and>
     (case writer l of Some w \<Rightarrow> rh_lock_uuid w \<noteq> [] | None \<Rightarrow> True) \<and>
     list_all (\<lambda>x. named_pending (snd x)) (lq_iter Q (queue l))"

definition named :: "'q pending_queue \<Rightarrow> 'q broker_state \<Rightarrow> bool" where
  "named Q s \<longleftrightarrow> locks_sat (named_lock Q) s"

text \<open>A deadline whose lock UUID is held at one of its keys is held at all of them.\<close>

definition deadlines_whole :: "'q broker_state \<Rightarrow> bool" where
  "deadlines_whole s \<longleftrightarrow> (\<forall>dk e. fmlookup (deadlines s) dk = Some e \<longrightarrow>
     deadline_entry_is_still_held s e \<longrightarrow> (\<forall>k \<in> set (de_keys e). held_at s e k))"

definition queued_total :: "'q pending_queue \<Rightarrow> 'q broker_state \<Rightarrow> nat" where
  "queued_total Q s = (\<Sum>k \<in> fset (fmdom (locks s)). length (waiting Q s k))"

lemma pending_snapshot_ok:
  assumes "pending_ok key (u, p)" and "named_pending p"
  shows "waiter_snapshot_ok key (pending_snapshot_of p)"
proof (cases "pr_kind p")
  case (PendComposite all remaining granted tokens cuuid)
  with assms(1) have c: "remaining \<noteq> []" "hd remaining = key" "granted @ remaining = all" "sorted_wrt (<) all"
    "length all \<le> MAX_COMPOSITE_KEYS" "fmdom tokens = fset_of_list granted" by auto
  then have "distinct all" by (simp add: strict_sorted_iff)
  with c have "composite_snapshot_ok key all remaining granted tokens cuuid"
    using assms(2) PendComposite
    by (auto simp: composite_snapshot_ok_def named_pending_def fset_of_list.rep_eq)
  with assms(2) PendComposite show ?thesis
    by (simp add: waiter_snapshot_ok_def pending_snapshot_of_def named_pending_def)
qed (use assms in \<open>simp_all add: waiter_snapshot_ok_def pending_snapshot_of_def named_pending_def\<close>)

context broker_env
begin

lemma lock_snapshot_valid:
  assumes wf: "lock_wf Q cap key l" and nm: "named_lock Q key l"
  shows "lock_snapshot_ok (lock_snapshot_of Q E n key l)"
proof -
  let ?sn = "lock_snapshot_of Q E n key l"
  have ho: "holders_ok cap l" and qo: "queue_ok Q key (queue l)" using wf by (simp_all add: lock_wf_def)
  have x: "set (map se_lock_uuid (sl_exclusive_holders ?sn)) = fset (fmdom (exclusive_holders l))"
    "distinct (map se_lock_uuid (sl_exclusive_holders ?sn))"
    using sorted_hash_iter(2) [of se_lock_uuid "\<lambda>u. exclusive_snapshot_of u (the (fmlookup (exclusive_holders l) u))"]
    by (simp_all add: lock_snapshot_of_def set_hash_iter exclusive_snapshot_of_def image_image)
  have r: "set (map sr_lock_uuid (sl_readers ?sn)) = fset (fmdom (readers l))"
    "distinct (map sr_lock_uuid (sl_readers ?sn))"
    using sorted_hash_iter(2) [of sr_lock_uuid "\<lambda>u. \<lparr>sr_lock_uuid = u, sr_fencing_token = rh_fencing_token (the (fmlookup (readers l) u))\<rparr>"]
    by (simp_all add: lock_snapshot_of_def set_hash_iter image_image)
  have w: "sl_writer ?sn = map_option (\<lambda>h. \<lparr>sr_lock_uuid = rh_lock_uuid h, sr_fencing_token = rh_fencing_token h\<rparr>) (writer l)"
    by (simp add: lock_snapshot_of_def)
  let ?us = "map se_lock_uuid (sl_exclusive_holders ?sn) @ map sr_lock_uuid (sl_readers ?sn) @
        (case sl_writer ?sn of Some w \<Rightarrow> [sr_lock_uuid w] | None \<Rightarrow> [])"
  have "[] \<notin> set ?us" using x r w nm by (auto simp: named_lock_def split: option.splits)
  moreover have "distinct ?us"
    using x r w ho by (cases "writer l"; cases "readers l = fmempty") (simp_all add: holders_ok_def)
  moreover have "\<forall>w \<in> set (sl_queue ?sn). waiter_snapshot_ok key w"
    using qo nm pending_snapshot_ok
    by (fastforce simp: lock_snapshot_of_def queue_ok_def named_lock_def list_all_iff)
  moreover have "distinct (map sq_request_uuid (sl_queue ?sn))"
  proof -
    have "map sq_request_uuid (sl_queue ?sn) = map fst (lq_iter Q (queue l))"
      using qo by (auto simp: lock_snapshot_of_def queue_ok_def)
    with qo show ?thesis by (simp add: queue_ok_def)
  qed
  moreover have "sl_key ?sn = key" "sl_max ?sn = ls_max l" "sl_idle ?sn = is_idle Q l"
    by (simp_all add: lock_snapshot_of_def)
  moreover have "is_idle Q l \<longrightarrow> sl_exclusive_holders ?sn = [] \<and> sl_readers ?sn = [] \<and> sl_writer ?sn = None \<and>
      sl_queue ?sn = []"
    using x(1) r(1) w by (auto simp: is_idle_def lq.is_empty_iter lock_snapshot_of_def)
  moreover have "ls_max l \<noteq> 0" using ho by (auto simp: holders_ok_def)
  ultimately show ?thesis using nm by (simp add: lock_snapshot_ok_def Let_def named_lock_def)
qed

lemma waiters_metric:
  "sm_waiters (sn_metrics (broker_raft_snapshot_of Q E s)) = of_nat (queued_total Q s)"
proof -
  let ?ks = "sorted_list_of_fset (fmdom (locks s))"
  have w: "lq_len Q (queue (the (fmlookup (locks s) k))) = length (waiting Q s k)" if "k \<in> set ?ks" for k
    using that by (auto simp: waiting_def fmlookup_dom_iff lq.len_iter)
  have "sum_list (map (\<lambda>k. of_nat (lq_len Q (queue (the (fmlookup (locks s) k)))) :: u64) ?ks) =
      sum_list (map (\<lambda>k. of_nat (length (waiting Q s k))) ?ks)"
    by (rule arg_cong [where f = sum_list], rule map_cong [OF refl]) (simp only: w)
  also have "\<dots> = of_nat (\<Sum>k \<in> set ?ks. length (waiting Q s k))"
    by (simp add: sum_list_distinct_conv_sum_set)
  finally show ?thesis
    by (simp add: broker_raft_snapshot_of_def metrics_into_def broker_metrics_from_state_def Let_def comp_def
        queued_total_def)
qed

lemma queued_snapshots:
  "sum_list (map (\<lambda>l. length (sl_queue l)) (sn_locks (broker_raft_snapshot_of Q E s))) = queued_total Q s"
proof -
  let ?L = "sn_locks (broker_raft_snapshot_of Q E s)"
  let ?F = "\<lambda>k. lock_snapshot_of Q E (reads s) k (the (fmlookup (locks s) k))"
  have "distinct ?L" using snapshot_keys(1) [of s] distinct_map by blast
  then have "sum_list (map (\<lambda>l. length (sl_queue l)) ?L) = (\<Sum>l \<in> set ?L. length (sl_queue l))"
    by (rule sum_list_distinct_conv_sum_set)
  also have "\<dots> = (\<Sum>l \<in> ?F ` fset (fmdom (locks s)). length (sl_queue l))"
    by (simp add: broker_snapshot_locks set_hash_iter)
  also have "\<dots> = (\<Sum>k \<in> fset (fmdom (locks s)). length (sl_queue (?F k)))"
  proof (rule sum.reindex_cong [OF _ refl refl])
    have "inj_on (sl_key \<circ> ?F) (fset (fmdom (locks s)))" by (simp add: inj_on_def lock_snapshot_of_def)
    then show "inj_on ?F (fset (fmdom (locks s)))" by (rule inj_on_imageI2)
  qed
  also have "\<dots> = queued_total Q s"
    unfolding queued_total_def
    by (rule sum.cong) (auto simp: lock_snapshot_of_def waiting_def fmlookup_dom_iff)
  finally show ?thesis .
qed

lemma lock_snapshot_contains_iff:
  "lock_snapshot_contains (lock_snapshot_of Q E n key l) u kind = lock_contains_uuid_for_kind l u kind"
  by (cases kind)
    (auto simp: lock_snapshot_contains_def lock_contains_uuid_for_kind_def lock_snapshot_of_def
      list_ex_iff set_hash_iter exclusive_snapshot_of_def split: option.split)

lemma deadline_snapshots_set:
  "d \<in> set (deadline_snapshots s now) \<Longrightarrow>
   \<exists>dk e. fmlookup (deadlines s) dk = Some e \<and> deadline_entry_is_still_held s e \<and>
     sd_lock_uuid d = de_lock_uuid e \<and> sd_keys d = de_keys e \<and> sd_kind d = de_kind e"
  by (fastforce simp: deadline_snapshots_def List.map_filter_def Let_def fmlookup_dom_iff split: if_splits)

lemma deadline_snapshot_valid:
  assumes nm: "named Q s" and wh: "deadlines_whole s"
    and d: "d \<in> set (sn_deadlines (broker_raft_snapshot_of Q E s))"
  shows "deadline_snapshot_ok (sn_locks (broker_raft_snapshot_of Q E s)) d"
proof -
  from d have "d \<in> set (deadline_snapshots s (instant_now E (reads s)))"
    by (simp add: broker_raft_snapshot_of_def Let_def)
  then obtain dk e where e: "fmlookup (deadlines s) dk = Some e" "deadline_entry_is_still_held s e"
    and f: "sd_lock_uuid d = de_lock_uuid e" "sd_keys d = de_keys e" "sd_kind d = de_kind e"
    using deadline_snapshots_set by blast
  have held: "held_at s e k" if "k \<in> set (de_keys e)" for k
    using wh e that unfolding deadlines_whole_def by blast
  have key: "k \<noteq> [] \<and> de_lock_uuid e \<noteq> [] \<and> (\<exists>l \<in> set (sn_locks (broker_raft_snapshot_of Q E s)).
      sl_key l = k \<and> lock_snapshot_contains l (de_lock_uuid e) (de_kind e))" if k: "k \<in> set (de_keys e)" for k
  proof -
    from held [OF k] obtain l where l: "fmlookup (locks s) k = Some l"
      "lock_contains_uuid_for_kind l (de_lock_uuid e) (de_kind e)"
      by (auto simp: held_at_def split: option.splits)
    with nm have n: "named_lock Q k l" by (auto simp: named_def locks_sat_def)
    with l(2) have "de_lock_uuid e \<noteq> []"
      by (cases "de_kind e") (auto simp: lock_contains_uuid_for_kind_def named_lock_def split: option.splits)
    moreover have "lock_snapshot_of Q E (reads s) k l \<in> set (sn_locks (broker_raft_snapshot_of Q E s))"
      using l(1) snapshot_keys(2) by blast
    moreover have "sl_key (lock_snapshot_of Q E (reads s) k l) = k" by (simp add: lock_snapshot_of_def)
    ultimately show ?thesis using l(2) n lock_snapshot_contains_iff by (metis named_lock_def)
  qed
  from e(2) obtain k where k: "k \<in> set (de_keys e)" by (auto simp: still_held_iff)
  then have "de_keys e \<noteq> []" by auto
  with key [OF k] key show ?thesis unfolding deadline_snapshot_ok_def f by blast
qed

lemma snapshot_valid:
  assumes inv: "broker_inv Q S s" and nm: "named Q s" and "deadlines_whole s" and "queued_total Q s < 2 ^ 64"
  shows "snapshot_ok (broker_raft_snapshot_of Q E s)"
proof -
  have "\<forall>l \<in> set (sn_locks (broker_raft_snapshot_of Q E s)). lock_snapshot_ok l"
  proof
    fix l
    assume "l \<in> set (sn_locks (broker_raft_snapshot_of Q E s))"
    then obtain k x where x: "fmlookup (locks s) k = Some x" "l = lock_snapshot_of Q E (reads s) k x"
      using snapshot_keys(2) by blast
    with nm have "named_lock Q k x" by (simp add: named_def locks_sat_def)
    with x show "lock_snapshot_ok l" using lock_snapshot_valid broker_invD(1) [OF inv] by blast
  qed
  moreover have "sn_schema_version (broker_raft_snapshot_of Q E s) = 1"
    by (simp add: broker_raft_snapshot_of_def Let_def)
  ultimately show ?thesis
    using snapshot_keys(1) waiters_metric queued_snapshots deadline_snapshot_valid [OF assms(2,3)] assms(4)
    by (simp add: snapshot_ok_def min_def)
qed

end

end
