(* ===== verification/Snapshot_Properties.thy ===== *)
theory Snapshot_Properties
  imports Broker_Restore Broker_Samples
begin

text \<open>
  What the snapshots of the broker guarantee: validation decides a predicate, everything
  that passes it can be installed, a snapshot of a reachable broker passes it and restores
  that broker's locks, and fencing tokens do not go back.
\<close>

section \<open>Validation and installation\<close>

text \<open>
  C22: the validation of a snapshot decides exactly this.  The schema version is 1; the lock
  keys are distinct and every lock is well formed (a non-empty key, a positive level, non-empty
  and pairwise different UUIDs of all its holders, nothing active if it is marked idle, well
  formed waiters with different request UUIDs, a composite waiter queued at the first key it
  still needs with a partition of its keys and a token for each granted one); the waiter
  count is the number of queued requests; every deadline is held at each of its keys.
\<close>

theorem snapshot_validation_exact:
  "validate_broker_raft_snapshot sn = Inr () \<longleftrightarrow> snapshot_ok sn"
  by (rule validate_snapshot_iff)

text \<open>
  C23: a payload can be installed iff it is valid, whatever the state it is installed into and
  whether it is a full snapshot or an idle one: in particular, the deadline check inside the
  installation never fails after the validation, so a half-built state is never seen.
\<close>

theorem installable_iff_valid:
  "(\<exists>s'. install_raft_snapshot J Q E s payload = Inr s') \<longleftrightarrow>
   validate_raft_snapshot_payload J payload = Inr ()"
proof (cases "js_get J payload ''broker''")
  case None
  have "validate_idle_snapshot_payload J payload = Inr () \<Longrightarrow> js_get J payload ''metrics'' \<noteq> None"
    by (auto simp: validate_idle_snapshot_payload_def split: option.splits)
  with None show ?thesis
    by (auto simp: install_raft_snapshot_def validate_raft_snapshot_payload_def install_idle_snapshot_def
        split: sum.splits option.splits)
next
  case (Some v)
  note defs = install_raft_snapshot_def validate_raft_snapshot_payload_def Some
  show ?thesis
  proof (cases "js_from_value J v")
    case (Inr sn)
    have "\<exists>s'. install_broker_raft_snapshot Q E s sn = Inr s'" if "validate_broker_raft_snapshot sn = Inr ()"
      using that validate_snapshot_iff ok_snapshot_installs by blast
    then show ?thesis by (cases "validate_broker_raft_snapshot sn") (simp_all add: defs Inr)
  qed (simp add: defs)
qed

text \<open>
  C24: a snapshot restores the broker it was taken from.  Take any reachable broker in which
  nothing is named by the empty string, every deadline that is still held somewhere is held at
  all its keys, and fewer than \<open>2 ^ 64\<close> requests wait.  Its snapshot is valid; installing it
  into a broker with the same configuration succeeds and gives exactly the same keys, each
  with the same holders under the same lock UUIDs and tokens (now detached from any client),
  the same waiters in the same order, the same level, and a fencing counter that has not gone
  back.
\<close>

theorem snapshot_round_trip:
  assumes "broker_env Q E" and "reachable Q E cfg s" and "named Q s" and "deadlines_whole s"
    and "queued_total Q s < 2 ^ 64" and "config t = config s"
  shows "validate_broker_raft_snapshot (broker_raft_snapshot_of Q E s) = Inr () \<and>
    (\<exists>t'. install_broker_raft_snapshot Q E t (broker_raft_snapshot_of Q E s) = Inr t' \<and>
      fmdom (locks t') = fmdom (locks s) \<and>
      (\<forall>k \<in> fset (fmdom (locks s)). same_lock Q (the (fmlookup (locks s) k)) (the (fmlookup (locks t') k))))"
proof -
  note inv = broker_env.reachable_inv [OF assms(1,2)]
  have ok: "snapshot_ok (broker_raft_snapshot_of Q E s)"
    by (rule broker_env.snapshot_valid [OF assms(1) inv assms(3-5)])
  obtain t' where t': "install_broker_raft_snapshot Q E t (broker_raft_snapshot_of Q E s) = Inr t'"
    using ok_snapshot_installs [OF ok] by blast
  note r = broker_env.snapshot_restores_locks [OF assms(1) inv assms(6) t']
  have "k |\<in>| fmdom (locks t') \<longleftrightarrow> k |\<in>| fmdom (locks s)" for k
    using r [of k] by (auto simp: fmlookup_dom_iff split: option.splits)
  then have "fmdom (locks t') = fmdom (locks s)" by blast
  moreover have "same_lock Q (the (fmlookup (locks s) k)) (the (fmlookup (locks t') k))"
    if "k |\<in>| fmdom (locks s)" for k
    using r [of k] that by (auto simp: fmlookup_dom_iff split: option.splits)
  ultimately show ?thesis using ok t' validate_snapshot_iff by blast
qed

lemma sample_4_clean:
  "named vecdeque sample_4" "deadlines_whole sample_4" "queued_total vecdeque sample_4 < 2 ^ 64"
  by (simp_all add: named_def locks_sat_def named_lock_def named_pending_def deadlines_whole_def held_at_def
      still_held_iff lock_contains_uuid_for_kind_def queued_total_def waiting_def sample_4_value lq_iter_def
      vecdeque_def split: if_splits)

theorem snapshot_round_trip_witness:
  "\<exists>t'. install_broker_raft_snapshot vecdeque demo_host sample_0
      (broker_raft_snapshot_of vecdeque demo_host sample_4) = Inr t' \<and>
    fmdom (locks t') = {|''k''|} \<and>
    same_lock vecdeque (the (fmlookup (locks sample_4) ''k'')) (the (fmlookup (locks t') ''k''))"
proof -
  have "config sample_0 = config sample_4"
    by (simp add: sample_0_def broker_state_new_def sample_4_value broker_config_default_def from_millis_def
        DEFAULT_MAX_CONCURRENCY_CAP_def)
  moreover have "fmdom (locks sample_4) = {|''k''|}" by (simp add: sample_4_value)
  ultimately show ?thesis
    using snapshot_round_trip [OF demo_env.broker_env_axioms reachable_sample_4 sample_4_clean, of sample_0]
    by simp
qed

text \<open>
  C25: an installed snapshot does not reopen the past.  In the installed state every holder's
  token is at most its key's counter and every counter is at most the broker's watermark, so
  whatever is granted next gets a larger token than every restored holder; the watermark is
  at least the one in the snapshot.  No client is registered, and the configuration and the
  start time are the ones the broker had.
\<close>

theorem installed_fencing_floors:
  assumes "install_broker_raft_snapshot Q E s sn = Inr s'"
  shows "fencing_floors s' \<and> sm_fencing_watermark (sn_metrics sn) \<le> fencing_watermark s' \<and>
    clients s' = fmempty \<and> config s' = config s \<and> started_at s' = started_at s"
  using installed_frame [OF assms] by blast

theorem installed_fencing_floors_witness:
  "\<exists>s'. install_broker_raft_snapshot vecdeque demo_host sample_0
      (broker_raft_snapshot_of vecdeque demo_host sample_4) = Inr s' \<and> fencing_floors s'"
proof -
  have "snapshot_ok (broker_raft_snapshot_of vecdeque demo_host sample_4)"
    by (rule demo_env.snapshot_valid [OF demo_env.reachable_inv [OF reachable_sample_4] sample_4_clean])
  from ok_snapshot_installs [OF this] obtain s'
    where s': "install_broker_raft_snapshot vecdeque demo_host sample_0
      (broker_raft_snapshot_of vecdeque demo_host sample_4) = Inr s'" by blast
  with installed_fencing_floors [OF s'] show ?thesis by blast
qed

end
