(* ===== verification/Broker_Edge_Cases.thy ===== *)
theory Broker_Edge_Cases
  imports Broker_Snapshot Broker_Samples
begin

text \<open>
  Runs of the broker whose outcome is not what one expects from the description of the
  operations.  Each is a list of public operations from the initial state, evaluated on the
  model; nothing in them is a race or an overflow.
\<close>

definition outcome :: "broker_op list \<Rightarrow> (deque broker_state \<Rightarrow> bool) \<Rightarrow> bool" where
  "outcome ops P =
     (case run_ops vecdeque demo_host ops (broker_state_new demo_host broker_config_default) of
        Some s \<Rightarrow> P s | None \<Rightarrow> False)"

definition unlock_one :: "string \<Rightarrow> string \<Rightarrow> string \<Rightarrow> unlock_fields" where
  "unlock_one uuid key lock_uuid =
     \<lparr>ul_uuid = uuid, ul_key = Some key, ul_keys = None, ul_lock_uuid = Some lock_uuid, ul_force = False\<rparr>"

text \<open>A client takes \<open>a\<close> and \<open>b\<close> as a composite and gives back \<open>a\<close> alone.\<close>

definition partial_unlock_run :: "broker_op list" where
  "partial_unlock_run =
     [OpRegister, OpRequest 1 (ReqLock (many_lock ''r1'' [''a'', ''b''])) no_override,
      OpRequest 1 (ReqUnlock (unlock_one ''r2'' ''a'' ''u||'')) no_override]"

definition held_by :: "'q broker_state \<Rightarrow> string \<Rightarrow> string \<Rightarrow> client_id \<Rightarrow> bool" where
  "held_by s key lock_uuid c =
     (case fmlookup (locks s) key of
        None \<Rightarrow> False
      | Some l \<Rightarrow>
          (case fmlookup (exclusive_holders l) lock_uuid of None \<Rightarrow> False | Some h \<Rightarrow> eh_client h = c))"

lemmas edge_defs = outcome_def unlock_one_def partial_unlock_run_def held_by_def plain_lock_def many_lock_def
  no_override_def

text \<open>
  Giving back one key of a composite makes the broker forget who holds the other keys.
  The unlock removes the lock UUID from the client's record although \<open>b\<close> is still held under
  it, so when the client disconnects nothing releases \<open>b\<close>: it stays held by a client that is
  gone, although the lock was not meant to outlive its client, until its TTL expires.
\<close>

theorem partial_unlock_leaks:
  "outcome (partial_unlock_run @ [OpDropClient 1])
     (\<lambda>s. held_by s ''b'' ''u||'' 1 \<and> 1 |\<notin>| fmdom (clients s))"
  unfolding edge_defs by code_simp

text \<open>
  After the same partial unlock the broker takes snapshots that it refuses to install.  A
  deadline goes into the snapshot if its UUID is held at any of its keys, but the validation
  wants it held at all of them.
\<close>

theorem partial_unlock_snapshot_refused:
  "outcome partial_unlock_run
     (\<lambda>s. validate_broker_raft_snapshot (broker_raft_snapshot_of vecdeque demo_host s) =
       Inl (DeadlineMismatch ''u||''))"
  unfolding edge_defs by code_simp

text \<open>
  Raising a key's level overtakes the waiters.  With the level raised to three by a
  request that is granted at once, the client that has been waiting stays in the queue although
  only two of the three places are taken.
\<close>

theorem raised_max_overtakes:
  "outcome
     [OpRegister, OpRegister, OpRegister,
      OpRequest 1 (ReqLock (plain_lock ''r1'' ''k'')) no_override,
      OpRequest 2 (ReqLock (plain_lock ''r2'' ''k'')) no_override,
      OpRequest 3 (ReqLock ((plain_lock ''r3'' ''k'')\<lparr>lk_max := Some 3\<rparr>)) no_override]
     (\<lambda>s. case fmlookup (locks s) ''k'' of
        None \<Rightarrow> False
      | Some l \<Rightarrow> ls_max l = 3 \<and> hm_len (exclusive_holders l) = 2 \<and>
          map fst (lq_iter vecdeque (queue l)) = [''r2''])"
  unfolding edge_defs by code_simp

text \<open>
  Raising a key's level lets a second holder in beside a member of a composite lock.  While
  client 1 holds \<open>a\<close> and \<open>b\<close> together, a request of client 2 for \<open>a\<close> alone with \<open>max = 2\<close>
  is granted.
\<close>

theorem raised_max_joins_composite:
  "outcome
     [OpRegister, OpRegister,
      OpRequest 1 (ReqLock (many_lock ''r1'' [''a'', ''b''])) no_override,
      OpRequest 2 (ReqLock ((plain_lock ''r2'' ''a'')\<lparr>lk_max := Some 2\<rparr>)) no_override]
     (\<lambda>s. held_by s ''a'' ''u|||'' 1 \<and> held_by s ''b'' ''u|||'' 1 \<and> held_by s ''a'' ''u|||||||'' 2)"
  unfolding edge_defs by code_simp

text \<open>
  A forced request does not take the lock.  It is queued before the request that has been waiting,
  and the holder keeps the key.
\<close>

theorem forced_lock_only_jumps_queue:
  "outcome
     [OpRegister, OpRegister, OpRegister,
      OpRequest 1 (ReqLock (plain_lock ''r1'' ''k'')) no_override,
      OpRequest 2 (ReqLock (plain_lock ''r2'' ''k'')) no_override,
      OpRequest 3 (ReqLock ((plain_lock ''r3'' ''k'')\<lparr>lk_force := True\<rparr>)) no_override]
     (\<lambda>s. case fmlookup (locks s) ''k'' of
        None \<Rightarrow> False
      | Some l \<Rightarrow> hm_len (exclusive_holders l) = 1 \<and>
          map fst (lq_iter vecdeque (queue l)) = [''r3'', ''r2''])"
  unfolding edge_defs by code_simp

text \<open>\<open>endWrite\<close> for a key the broker does not know leaves the broker as it was and sends nothing.\<close>

theorem end_write_unknown_key:
  assumes "broker_queue Q" and "fmlookup (locks s) key = None"
  shows "handle_end_write Q E s client uuid key = s"
  using assms(2) by (simp add: handle_end_write_def broker_queue.run_grants_unknown [OF assms])

end
