(* ===== verification/Raft_Membership.thy ===== *)
theory Raft_Membership
  imports Prelude
begin

text \<open>
  Membership of the replicated broker, from \<open>src/broker_raft.rs\<close>: peers, simple and joint
  configurations, quorums, and the choice of the peers an entry is sent to.  A \<open>BTreeSet\<close> of
  node ids is a finite set, a \<open>BTreeMap\<close> a finite map that is listed in key order; counts of
  peers (\<open>usize\<close>) are natural numbers.
\<close>

section \<open>Peers and quorums\<close>

record raft_peer =
  rp_id :: string
  rp_addr :: string

datatype raft_membership =
    MSimple "raft_peer list"
  | MJoint "raft_peer list" "raft_peer list"

text \<open>The values of a \<open>BTreeMap\<close>, in the order of its keys.\<close>

definition into_values :: "(string, 'v) fmap \<Rightarrow> 'v list" where
  "into_values m = map (\<lambda>k. the (fmlookup m k)) (sorted_list_of_fset (fmdom m))"

definition normalize_peers :: "raft_peer list \<Rightarrow> raft_peer list" where
  "normalize_peers ps = into_values (fold (\<lambda>p. fmupd (rp_id p) p) ps fmempty)"

definition from_simple :: "raft_peer list \<Rightarrow> raft_membership" where
  "from_simple ps = MSimple (normalize_peers ps)"

fun active_peers :: "raft_membership \<Rightarrow> raft_peer list" where
  "active_peers (MSimple ps) = normalize_peers ps"
| "active_peers (MJoint old new) = normalize_peers (old @ new)"

fun validation_peers :: "raft_membership \<Rightarrow> raft_peer list" where
  "validation_peers (MSimple ps) = ps"
| "validation_peers (MJoint old new) = old @ new"

fun contains_id :: "raft_membership \<Rightarrow> string \<Rightarrow> bool" where
  "contains_id (MSimple ps) i = list_ex (\<lambda>p. rp_id p = i) ps"
| "contains_id (MJoint old new) i = list_ex (\<lambda>p. rp_id p = i) (old @ new)"

definition contains_peer :: "raft_membership \<Rightarrow> raft_peer \<Rightarrow> bool" where
  "contains_peer m p =
     list_ex (\<lambda>a. rp_id a = rp_id p \<and> rp_addr a = rp_addr p) (active_peers m)"

fun cluster_size :: "raft_membership \<Rightarrow> nat" where
  "cluster_size (MSimple ps) = fcard (fset_of_list (map rp_id ps))"
| "cluster_size (MJoint old new) = fcard (fset_of_list (map rp_id (old @ new)))"

definition quorum_for :: "nat \<Rightarrow> nat" where
  "quorum_for n = (if n = 0 then 0 else n div 2 + 1)"

definition joint_quorum_size :: "raft_peer list \<Rightarrow> raft_peer list \<Rightarrow> nat" where
  "joint_quorum_size old new =
     (let old_quorum = quorum_for (length old); new_quorum = quorum_for (length new)
      in if old_quorum = 0 \<or> new_quorum = 0 then 0
         else (let new_ids = fset_of_list (map rp_id new);
                   overlap = length (filter (\<lambda>p. rp_id p |\<in>| new_ids) old)
               in old_quorum + new_quorum - min (min overlap old_quorum) new_quorum))"

fun quorum_size :: "raft_membership \<Rightarrow> nat" where
  "quorum_size (MSimple ps) = quorum_for (length ps)"
| "quorum_size (MJoint old new) = joint_quorum_size old new"

fun is_joint :: "raft_membership \<Rightarrow> bool" where
  "is_joint (MSimple _) = False"
| "is_joint (MJoint _ _) = True"

definition peer_votes :: "raft_peer list \<Rightarrow> string fset \<Rightarrow> nat" where
  "peer_votes ps ack_ids = length (filter (\<lambda>p. rp_id p |\<in>| ack_ids) ps)"

fun quorum_met :: "raft_membership \<Rightarrow> string fset \<Rightarrow> bool" where
  "quorum_met (MSimple ps) acks \<longleftrightarrow> ps \<noteq> [] \<and> quorum_for (length ps) \<le> peer_votes ps acks"
| "quorum_met (MJoint old new) acks \<longleftrightarrow> old \<noteq> [] \<and> new \<noteq> [] \<and>
     quorum_for (length old) \<le> peer_votes old acks \<and> quorum_for (length new) \<le> peer_votes new acks"

definition add_peer_if_present :: "raft_peer list \<Rightarrow> string \<Rightarrow> string fset \<Rightarrow> string fset" where
  "add_peer_if_present ps i acks = (if list_ex (\<lambda>p. rp_id p = i) ps then finsert i acks else acks)"

text \<open>The loop of \<open>add_peers_until_quorum\<close> over the rest of the peers.\<close>

fun add_peers_loop :: "raft_peer list \<Rightarrow> nat \<Rightarrow> raft_peer list \<Rightarrow> string fset \<Rightarrow> string fset" where
  "add_peers_loop ps quorum [] acks = acks"
| "add_peers_loop ps quorum (p # rest) acks =
     (if quorum \<le> peer_votes ps acks then acks
      else add_peers_loop ps quorum rest (finsert (rp_id p) acks))"

definition add_peers_until_quorum :: "raft_peer list \<Rightarrow> nat \<Rightarrow> string fset \<Rightarrow> string fset" where
  "add_peers_until_quorum ps quorum acks = add_peers_loop ps quorum ps acks"

definition minimal_quorum_ack_set :: "raft_membership \<Rightarrow> string \<Rightarrow> string fset option" where
  "minimal_quorum_ack_set m local_id =
     (let acks = (case m of
            MSimple ps \<Rightarrow>
              add_peers_until_quorum ps (quorum_for (length ps)) (add_peer_if_present ps local_id {||})
          | MJoint old new \<Rightarrow>
              add_peers_until_quorum new (quorum_for (length new))
                (add_peers_until_quorum old (quorum_for (length old))
                  (add_peer_if_present new local_id (add_peer_if_present old local_id {||}))))
      in if quorum_met m acks then Some acks else None)"

fun quorum_gain :: "raft_membership \<Rightarrow> string fset \<Rightarrow> string fset \<Rightarrow> nat" where
  "quorum_gain (MSimple ps) before after =
     min (peer_votes ps after) (quorum_for (length ps)) - min (peer_votes ps before) (quorum_for (length ps))"
| "quorum_gain (MJoint old new) before after =
     (let old_quorum = quorum_for (length old); new_quorum = quorum_for (length new)
      in (min (peer_votes old after) old_quorum - min (peer_votes old before) old_quorum) +
         (min (peer_votes new after) new_quorum - min (peer_votes new before) new_quorum))"

section \<open>Choosing the peers to replicate to\<close>

text \<open>
  The inner \<open>for\<close> loop keeps the largest triple of gain, match index and inverted position.
  \<open>usize::MAX - pos\<close> is exact, since a position is below \<open>usize::MAX\<close>.
\<close>

definition usize_max :: int where
  "usize_max = 2 ^ 64 - 1"

definition consider_peer ::
  "raft_membership \<Rightarrow> (string, raft_peer) fmap \<Rightarrow> string fset \<Rightarrow> nat \<times> raft_peer \<times> u64 \<Rightarrow>
   (nat \<times> u64 \<times> int) option \<Rightarrow> (nat \<times> u64 \<times> int) option" where
  "consider_peer m selected acks x best =
     (let (pos, p, match_index) = x in
      if rp_id p |\<in>| fmdom selected then best
      else (let gain = quorum_gain m acks (finsert (rp_id p) acks) in
        if gain = 0 then best
        else (let candidate = (gain, match_index, usize_max - int pos) in
          case best of
            None \<Rightarrow> Some candidate
          | Some current \<Rightarrow> if current < candidate then Some candidate else best)))"

definition best_candidate ::
  "raft_membership \<Rightarrow> (raft_peer \<times> u64) list \<Rightarrow> (string, raft_peer) fmap \<Rightarrow> string fset \<Rightarrow>
   (nat \<times> u64 \<times> int) option" where
  "best_candidate m remote selected acks =
     fold (consider_peer m selected acks) (enumerate 0 remote) None"

lemma fold_consider_peer:
  assumes "fold (consider_peer m selected acks) xs best = Some (g, i, w)"
  shows "best = Some (g, i, w) \<or>
    (\<exists>pos p. (pos, p, i) \<in> set xs \<and> w = usize_max - int pos \<and> rp_id p |\<notin>| fmdom selected \<and>
       g = quorum_gain m acks (finsert (rp_id p) acks) \<and> 0 < g)"
  using assms
proof (induction xs arbitrary: best)
  case (Cons x xs)
  let ?P = "\<lambda>xs. \<exists>pos p. (pos, p, i) \<in> set xs \<and> w = usize_max - int pos \<and> rp_id p |\<notin>| fmdom selected \<and>
       g = quorum_gain m acks (finsert (rp_id p) acks) \<and> 0 < g"
  have step: "best = Some (g, i, w) \<or> ?P [x]" if "consider_peer m selected acks x best = Some (g, i, w)"
    using that by (cases x) (auto simp: consider_peer_def Let_def split: if_splits option.splits)
  from Cons.IH [of "consider_peer m selected acks x best"] Cons.prems
  have "consider_peer m selected acks x best = Some (g, i, w) \<or> ?P xs" by simp
  with step show ?case by (metis list.set_intros(1,2) set_ConsD empty_iff list.set(1))
qed simp

lemma best_candidate_Some:
  assumes "best_candidate m remote selected acks = Some (g, i, w)"
  shows "\<exists>pos < length remote. w = usize_max - int pos \<and> rp_id (fst (remote ! pos)) |\<notin>| fmdom selected \<and>
    0 < quorum_gain m acks (finsert (rp_id (fst (remote ! pos))) acks)"
  using fold_consider_peer [OF assms [unfolded best_candidate_def]]
  by (auto simp: in_set_enumerate_eq)

text \<open>
  The \<open>while\<close> loop; \<open>None\<close> is the early return with all remote peers.  Every round selects a
  peer that was not selected before, so it ends.
\<close>

function select_loop ::
  "raft_membership \<Rightarrow> (raft_peer \<times> u64) list \<Rightarrow> (string, raft_peer) fmap \<Rightarrow> string fset \<Rightarrow>
   (string, raft_peer) fmap option" where
  "select_loop m remote selected acks =
     (if quorum_met m acks then Some selected
      else (case best_candidate m remote selected acks of
              None \<Rightarrow> None
            | Some (_, _, inverted_pos) \<Rightarrow>
                (let p = fst (remote ! nat (usize_max - inverted_pos))
                 in select_loop m remote (fmupd (rp_id p) p selected) (finsert (rp_id p) acks))))"
  by pat_completeness auto

definition unselected :: "(raft_peer \<times> u64) list \<Rightarrow> (string, raft_peer) fmap \<Rightarrow> nat" where
  "unselected remote selected = card ((\<lambda>x. rp_id (fst x)) ` set remote - fset (fmdom selected))"

lemma unselected_decreases:
  assumes "p \<in> fst ` set remote" and "rp_id p |\<notin>| fmdom selected"
  shows "unselected remote (fmupd (rp_id p) p selected) < unselected remote selected"
  unfolding unselected_def using assms by (intro psubset_card_mono) auto

termination select_loop
proof (relation "measure (\<lambda>(m, remote, selected, acks). unselected remote selected)")
  fix m remote selected acks x g y i w p
  assume b: "best_candidate m remote selected acks = Some x" "(g, y) = x" "(i, w) = y"
    and p: "p = fst (remote ! nat (usize_max - w))"
  from b best_candidate_Some obtain pos where "pos < length remote" "w = usize_max - int pos"
    "rp_id (fst (remote ! pos)) |\<notin>| fmdom selected" by metis
  then have "p \<in> fst ` set remote" "rp_id p |\<notin>| fmdom selected" by (auto simp: p)
  then show "((m, remote, fmupd (rp_id p) p selected, finsert (rp_id p) acks), m, remote, selected, acks)
      \<in> measure (\<lambda>(m, remote, selected, acks). unselected remote selected)"
    by (simp add: unselected_decreases)
qed simp

declare select_loop.simps [simp del]

fun add_extra_fanout ::
  "nat \<Rightarrow> nat \<Rightarrow> (raft_peer \<times> u64) list \<Rightarrow> (string, raft_peer) fmap \<Rightarrow> (string, raft_peer) fmap" where
  "add_extra_fanout limit remaining_extra [] selected = selected"
| "add_extra_fanout limit remaining_extra ((p, j) # rest) selected =
     (if remaining_extra = 0 \<or> limit \<le> hm_len selected then selected
      else if rp_id p |\<in>| fmdom selected then add_extra_fanout limit remaining_extra rest selected
      else add_extra_fanout limit (remaining_extra - 1) rest (fmupd (rp_id p) p selected))"

definition rotated_remote_peers :: "(raft_peer \<times> u64) list \<Rightarrow> u64 \<Rightarrow> (raft_peer \<times> u64) list" where
  "rotated_remote_peers remote fanout_round =
     (let sorted = sort_key (\<lambda>(p, j). (- uint j, rp_id p)) remote
      in if 1 < length sorted
         then rotate ((unat fanout_round - 1) mod length sorted) sorted else sorted)"

definition select_target_replication_peers ::
  "raft_membership \<Rightarrow> u64 option \<Rightarrow> string fset \<Rightarrow> (raft_peer \<times> u64) list \<Rightarrow> u64 \<Rightarrow> nat \<Rightarrow>
   raft_peer list" where
  "select_target_replication_peers m target_index acks original_remote fanout_round extra_fanout =
     (if target_index = None then map fst original_remote
      else if quorum_met m acks then []
      else if original_remote = [] then []
      else (let remote = rotated_remote_peers original_remote fanout_round
            in case select_loop m remote fmempty acks of
                 None \<Rightarrow> map fst original_remote
               | Some selected \<Rightarrow>
                   if length original_remote \<le> hm_len selected then map fst original_remote
                   else into_values
                     (if 0 < extra_fanout
                      then add_extra_fanout (length original_remote) extra_fanout remote selected
                      else selected)))"

record target_replication_peer_selection =
  ts_peers :: "raft_peer list"
  ts_busy_replacements :: "(raft_peer \<times> u64) list"
  ts_extra_fanout_peers :: nat

definition select_target_replication_peers_avoiding_busy ::
  "raft_membership \<Rightarrow> u64 option \<Rightarrow> string fset \<Rightarrow> (raft_peer \<times> u64) list \<Rightarrow> u64 \<Rightarrow> nat \<Rightarrow>
   string fset \<Rightarrow> target_replication_peer_selection" where
  "select_target_replication_peers_avoiding_busy m target_index acks remote fanout_round extra_fanout busy =
     (let minimal_selected = select_target_replication_peers m target_index acks remote fanout_round 0;
          selected = select_target_replication_peers m target_index acks remote fanout_round extra_fanout;
          plain = \<lparr>ts_peers = selected, ts_busy_replacements = [],
                   ts_extra_fanout_peers = length selected - length minimal_selected\<rparr>
      in if target_index = None \<or> selected = [] \<or> busy = {||} \<or>
            \<not> list_ex (\<lambda>p. rp_id p |\<in>| busy) selected
         then plain
         else (let ready_remote = filter (\<lambda>(p, _). rp_id p |\<notin>| busy) remote in
           if ready_remote = [] then plain
           else (let ready_minimal =
                       select_target_replication_peers m target_index acks ready_remote fanout_round 0;
                     ready = select_target_replication_peers m target_index acks ready_remote
                       fanout_round extra_fanout
                 in if \<not> quorum_met m (acks |\<union>| fset_of_list (map rp_id ready)) then plain
                    else \<lparr>ts_peers = ready,
                          ts_busy_replacements = filter (\<lambda>(p, _).
                            rp_id p |\<in>| fset_of_list (map rp_id selected) \<and> rp_id p |\<in>| busy \<and>
                            rp_id p |\<notin>| fset_of_list (map rp_id ready)) remote,
                          ts_extra_fanout_peers = length ready - length ready_minimal\<rparr>)))"

end
