(* ===== verification/Raft_Quorums.thy ===== *)
theory Raft_Quorums
  imports Raft_Membership
begin

text \<open>
  What quorums are good for.  \<open>quorum_pair\<close> is the interface a protocol needs from two
  configurations that may be in force at the same time: more acknowledgements never hurt,
  and a quorum of one shares a node with every quorum of the other.  Simple and joint
  configurations with distinct node ids provide it, for a configuration with itself and for
  every step of a membership change through a joint configuration.
\<close>

section \<open>The interface\<close>

locale quorum_pair =
  fixes Q1 Q2 :: "string fset \<Rightarrow> bool"
  assumes mono1: "Q1 A \<Longrightarrow> A |\<subseteq>| B \<Longrightarrow> Q1 B"
    and mono2: "Q2 A \<Longrightarrow> A |\<subseteq>| B \<Longrightarrow> Q2 B"
    and intersect: "Q1 A \<Longrightarrow> Q2 B \<Longrightarrow> \<exists>i. i |\<in>| A \<and> i |\<in>| B"
begin

text \<open>If every node gives its vote to one candidate, two elected candidates are the same.\<close>

lemma elected_unique:
  assumes "Q1 A" and "Q2 B" and "\<forall>i. i |\<in>| A \<longrightarrow> vote i = Some c" and "\<forall>i. i |\<in>| B \<longrightarrow> vote i = Some d"
  shows "c = d"
  using intersect [OF assms(1,2)] assms(3,4) by force

text \<open>What a quorum has stored, some member of every quorum knows.\<close>

lemma known_to_every_quorum:
  assumes "Q1 A" and "\<forall>i. i |\<in>| A \<longrightarrow> P i" and "Q2 B"
  shows "\<exists>i. i |\<in>| B \<and> P i"
  using intersect [OF assms(1,3)] assms(2) by blast

end

section \<open>Counting votes\<close>

lemma votes_card:
  assumes "distinct (map rp_id ps)"
  shows "peer_votes ps A = card (set (map rp_id ps) \<inter> fset A)"
proof -
  have d: "distinct (map rp_id (filter (\<lambda>p. rp_id p |\<in>| A) ps))" using assms by (rule distinct_map_filter)
  have "peer_votes ps A = card (set (map rp_id (filter (\<lambda>p. rp_id p |\<in>| A) ps)))"
    using distinct_card [OF d] by (simp add: peer_votes_def)
  also have "set (map rp_id (filter (\<lambda>p. rp_id p |\<in>| A) ps)) = set (map rp_id ps) \<inter> fset A" by auto
  finally show ?thesis .
qed

lemma votes_mono: "A |\<subseteq>| B \<Longrightarrow> peer_votes ps A \<le> peer_votes ps B"
  unfolding peer_votes_def by (induction ps) auto

lemma votes_le: "peer_votes ps A \<le> length ps"
  by (simp add: peer_votes_def)

lemma quorum_met_mono: "quorum_met m A \<Longrightarrow> A |\<subseteq>| B \<Longrightarrow> quorum_met m B"
  by (cases m) (auto intro: order_trans [OF _ votes_mono])

text \<open>Two majorities of the same peers share one of them.\<close>

lemma majorities_share:
  assumes "distinct (map rp_id ps)" and "ps \<noteq> []"
    and "quorum_for (length ps) \<le> peer_votes ps A" and "quorum_for (length ps) \<le> peer_votes ps B"
  shows "\<exists>i. i |\<in>| A \<and> i |\<in>| B"
proof (rule ccontr)
  let ?I = "set (map rp_id ps)"
  assume "\<nexists>i. i |\<in>| A \<and> i |\<in>| B"
  then have "card (?I \<inter> fset A) + card (?I \<inter> fset B) = card ((?I \<inter> fset A) \<union> (?I \<inter> fset B))"
    by (subst card_Un_disjoint) auto
  also have "\<dots> \<le> card ?I" by (rule card_mono) auto
  also have "\<dots> = length ps" using distinct_card [OF assms(1)] by simp
  finally have "peer_votes ps A + peer_votes ps B \<le> length ps" by (simp add: votes_card [OF assms(1)])
  with assms(2-4) show False by (simp add: quorum_for_def split: if_splits)
qed

section \<open>Configurations provide the interface\<close>

fun voters_ok :: "raft_membership \<Rightarrow> bool" where
  "voters_ok (MSimple ps) \<longleftrightarrow> distinct (map rp_id ps)"
| "voters_ok (MJoint old new) \<longleftrightarrow> distinct (map rp_id old) \<and> distinct (map rp_id new)"

text \<open>Configurations that can be in force at the same time.\<close>

fun adjacent :: "raft_membership \<Rightarrow> raft_membership \<Rightarrow> bool" where
  "adjacent (MSimple ps) (MSimple qs) \<longleftrightarrow> ps = qs"
| "adjacent (MSimple ps) (MJoint old new) \<longleftrightarrow> ps = old \<or> ps = new"
| "adjacent (MJoint old new) (MSimple ps) \<longleftrightarrow> ps = old \<or> ps = new"
| "adjacent (MJoint old new) (MJoint old' new') \<longleftrightarrow> old = old' \<or> new = new'"

lemma adjacent_share:
  assumes "voters_ok m" and "voters_ok m'" and "adjacent m m'" and "quorum_met m A" and "quorum_met m' B"
  shows "\<exists>i. i |\<in>| A \<and> i |\<in>| B"
  using assms by (cases m; cases m') (auto intro: majorities_share)

locale adjacent_memberships =
  fixes m m' :: raft_membership
  assumes ok: "voters_ok m" "voters_ok m'" and adjacent: "adjacent m m'"

sublocale adjacent_memberships \<subseteq> quorum_pair "quorum_met m" "quorum_met m'"
  by unfold_locales (auto intro: quorum_met_mono adjacent_share [OF ok adjacent])

context adjacent_memberships
begin

lemma shared_node: "quorum_met m A \<Longrightarrow> quorum_met m' B \<Longrightarrow> \<exists>i. i |\<in>| A \<and> i |\<in>| B"
  by (rule intersect)

lemma one_winner:
  assumes "quorum_met m A" and "quorum_met m' B" and "\<forall>i. i |\<in>| A \<longrightarrow> vote i = Some c"
    and "\<forall>i. i |\<in>| B \<longrightarrow> vote i = Some d"
  shows "c = d"
  by (rule elected_unique [OF assms])

end

text \<open>A cluster of three in which one node is replaced.\<close>

definition test_peer :: "string \<Rightarrow> raft_peer" where
  "test_peer i = \<lparr>rp_id = i, rp_addr = ''127.0.0.1:900'' @ tl i\<rparr>"

definition three_peers :: "raft_peer list" where
  "three_peers = map test_peer [''n1'', ''n2'', ''n3'']"

definition next_peers :: "raft_peer list" where
  "next_peers = map test_peer [''n2'', ''n3'', ''n4'']"

lemmas peers_defs = test_peer_def three_peers_def next_peers_def

interpretation enter_joint: adjacent_memberships "MSimple three_peers" "MJoint three_peers next_peers"
  by unfold_locales (simp_all add: peers_defs)

interpretation leave_joint: adjacent_memberships "MJoint three_peers next_peers" "MSimple next_peers"
  by unfold_locales (simp_all add: peers_defs)

section \<open>The smallest number of acknowledgements\<close>

text \<open>No quorum has fewer members than \<open>quorum_size\<close>.\<close>

fun voter_ids :: "raft_membership \<Rightarrow> string set" where
  "voter_ids (MSimple ps) = set (map rp_id ps)"
| "voter_ids (MJoint old new) = set (map rp_id old) \<union> set (map rp_id new)"

lemma overlap_card:
  fixes old new :: "raft_peer list"
  assumes "distinct (map rp_id old)"
  shows "length (filter (\<lambda>p. rp_id p |\<in>| fset_of_list (map rp_id new)) old) =
    card (set (map rp_id old) \<inter> set (map rp_id new))"
  using votes_card [OF assms, of "fset_of_list (map rp_id new)"]
  by (simp add: peer_votes_def fset_of_list.rep_eq)

lemma quorum_for_pos: "ps \<noteq> [] \<Longrightarrow> 0 < quorum_for (length ps)"
  by (simp add: quorum_for_def)

lemma quorum_for_le: "ps \<noteq> [] \<Longrightarrow> quorum_for (length ps) \<le> length ps"
  by (cases ps) (auto simp: quorum_for_def)

lemma quorum_size_lower:
  assumes "voters_ok m" and "quorum_met m A"
  shows "quorum_size m \<le> card (voter_ids m \<inter> fset A)"
proof (cases m)
  case (MSimple ps)
  with assms votes_card [of ps A] show ?thesis by simp
next
  case (MJoint old new)
  let ?O = "set (map rp_id old)" and ?N = "set (map rp_id new)"
  let ?a = "card (?O \<inter> fset A)" and ?b = "card (?N \<inter> fset A)" and ?c = "card (?O \<inter> ?N \<inter> fset A)"
  have d: "distinct (map rp_id old)" "distinct (map rp_id new)" using assms MJoint by simp_all
  have ab: "quorum_for (length old) \<le> ?a" "quorum_for (length new) \<le> ?b" "old \<noteq> []" "new \<noteq> []"
    using assms MJoint by (simp_all add: votes_card d)
  have "card ((?O \<inter> fset A) \<union> (?N \<inter> fset A)) + card ((?O \<inter> fset A) \<inter> (?N \<inter> fset A)) = ?a + ?b"
    by (rule card_Un_Int [symmetric]) auto
  moreover have "(?O \<inter> fset A) \<union> (?N \<inter> fset A) = voter_ids m \<inter> fset A"
    "(?O \<inter> fset A) \<inter> (?N \<inter> fset A) = ?O \<inter> ?N \<inter> fset A"
    using MJoint by auto
  ultimately have u: "card (voter_ids m \<inter> fset A) + ?c = ?a + ?b" by simp
  have c: "?c \<le> card (?O \<inter> ?N)" "?c \<le> ?a" "?c \<le> ?b" by (auto intro: card_mono)
  have "joint_quorum_size old new = quorum_for (length old) + quorum_for (length new) -
      min (min (card (?O \<inter> ?N)) (quorum_for (length old))) (quorum_for (length new))"
    using quorum_for_pos [OF ab(3)] quorum_for_pos [OF ab(4)]
    by (simp add: joint_quorum_size_def Let_def overlap_card [OF d(1), of new, simplified])
  with u c ab(1,2) MJoint show ?thesis by (simp add: min_def split: if_splits)
qed

text \<open>Some quorum has exactly that many members.\<close>

lemma subset_of_card: "k \<le> card S \<Longrightarrow> finite S \<Longrightarrow> \<exists>T \<subseteq> S. card T = k"
  by (metis obtain_subset_with_card_n)

lemma joint_quorum_exists:
  assumes fin: "finite X" "finite Y" and q: "a \<le> card X" "b \<le> card Y"
  shows "\<exists>T \<subseteq> X \<union> Y. a \<le> card (X \<inter> T) \<and> b \<le> card (Y \<inter> T) \<and>
    card T = a + b - min (min (card (X \<inter> Y)) a) b"
proof -
  define c where "c = min (min (card (X \<inter> Y)) a) b"
  have "c \<le> card (X \<inter> Y)" by (simp add: c_def)
  then obtain S where S: "S \<subseteq> X \<inter> Y" "card S = c" using subset_of_card fin by (metis finite_Int)
  have finS: "finite S" using S fin finite_subset by blast
  have "a - c \<le> card (X - S)" "b - c \<le> card (Y - S)"
    using q S fin finS by (simp_all add: card_Diff_subset)
  then obtain U V where U: "U \<subseteq> X - S" "card U = a - c" and V: "V \<subseteq> Y - S" "card V = b - c"
    using subset_of_card fin by (metis finite_Diff)
  have fins: "finite U" "finite V" using U V fin finite_subset by blast+
  have dj: "U \<inter> V = {}"
  proof (cases "c = card (X \<inter> Y)")
    case True
    with S fin have "S = X \<inter> Y" by (metis card_subset_eq finite_Int)
    with U V show ?thesis by blast
  next
    case False
    then have "c = a \<or> c = b" by (auto simp: c_def min_def)
    with U V fins show ?thesis by auto
  qed
  have le: "c \<le> a" "c \<le> b" by (simp_all add: c_def)
  have "S \<inter> U = {}" "S \<inter> V = {}" "(S \<union> U) \<inter> V = {}" using U V dj by blast+
  then have T: "card (S \<union> U) = a" "card (S \<union> V) = b" "card (S \<union> U \<union> V) = a + b - c"
    using S(2) U(2) V(2) finS fins le by (simp_all add: card_Un_disjoint)
  moreover have "card (S \<union> U) \<le> card (X \<inter> (S \<union> U \<union> V))" "card (S \<union> V) \<le> card (Y \<inter> (S \<union> U \<union> V))"
    using S U V fin by (auto intro!: card_mono)
  moreover have "S \<union> U \<union> V \<subseteq> X \<union> Y" using S U V by blast
  ultimately show ?thesis unfolding c_def by (metis le_refl)
qed

fun nonempty :: "raft_membership \<Rightarrow> bool" where
  "nonempty (MSimple ps) \<longleftrightarrow> ps \<noteq> []"
| "nonempty (MJoint old new) \<longleftrightarrow> old \<noteq> [] \<and> new \<noteq> []"

lemma quorum_met_nonempty: "quorum_met m A \<Longrightarrow> nonempty m"
  by (cases m) simp_all

lemma quorum_size_attained:
  assumes "voters_ok m" and "nonempty m"
  shows "\<exists>A. quorum_met m A \<and> fset A \<subseteq> voter_ids m \<and> fcard A = quorum_size m"
proof (cases m)
  case (MSimple ps)
  have d: "distinct (map rp_id ps)" "ps \<noteq> []" using assms MSimple by simp_all
  have "quorum_for (length ps) \<le> card (set (map rp_id ps))"
    using quorum_for_le [OF d(2)] distinct_card [OF d(1)] by simp
  then obtain T where T: "T \<subseteq> set (map rp_id ps)" "card T = quorum_for (length ps)"
    using subset_of_card by (metis List.finite_set)
  let ?A = "Abs_fset T"
  have "finite T" using T(1) finite_subset by blast
  then have A: "fset ?A = T" by (simp add: Abs_fset_inverse)
  then have "set (map rp_id ps) \<inter> fset ?A = T" using T by blast
  with T A d MSimple votes_card [OF d(1), of ?A] show ?thesis
    by (intro exI [of _ ?A]) (simp add: fcard.rep_eq)
next
  case (MJoint old new)
  let ?O = "set (map rp_id old)" and ?N = "set (map rp_id new)"
  have d: "distinct (map rp_id old)" "distinct (map rp_id new)" "old \<noteq> []" "new \<noteq> []"
    using assms MJoint by simp_all
  have "quorum_for (length old) \<le> card ?O" "quorum_for (length new) \<le> card ?N"
    using quorum_for_le d distinct_card [OF d(1)] distinct_card [OF d(2)] by simp_all
  from joint_quorum_exists [OF _ _ this] obtain T where T: "T \<subseteq> ?O \<union> ?N"
    "quorum_for (length old) \<le> card (?O \<inter> T)" "quorum_for (length new) \<le> card (?N \<inter> T)"
    "card T = quorum_for (length old) + quorum_for (length new) -
      min (min (card (?O \<inter> ?N)) (quorum_for (length old))) (quorum_for (length new))" by auto
  let ?A = "Abs_fset T"
  have "finite T" using T(1) finite_subset by blast
  then have A: "fset ?A = T" by (simp add: Abs_fset_inverse)
  have "joint_quorum_size old new = card T"
    using quorum_for_pos [OF d(3)] quorum_for_pos [OF d(4)] T(4)
    by (simp add: joint_quorum_size_def Let_def overlap_card [OF d(1), of new, simplified])
  with T A d MJoint show ?thesis
    by (intro exI [of _ ?A]) (simp add: fcard.rep_eq votes_card)
qed

section \<open>Adding peers until the quorum is met\<close>

lemma add_peers_loop_bounds:
  "acks |\<subseteq>| add_peers_loop ps q rest acks"
  "fset (add_peers_loop ps q rest acks) \<subseteq> fset acks \<union> set (map rp_id rest)"
  by (induction rest arbitrary: acks) auto

lemma votes_insert:
  assumes "distinct (map rp_id ps)"
  shows "peer_votes ps (finsert i A) \<le> Suc (peer_votes ps A)"
proof -
  have "card (set (map rp_id ps) \<inter> insert i (fset A)) \<le> card (insert i (set (map rp_id ps) \<inter> fset A))"
    by (rule card_mono) auto
  then show ?thesis unfolding votes_card [OF assms] using card_insert_le_m1 by (simp add: card_insert_if split: if_splits)
qed

lemma add_peers_loop_votes:
  assumes "distinct (map rp_id ps)" and "set (map rp_id ps) \<subseteq> fset acks \<union> set (map rp_id rest)"
    and "q \<le> length ps"
  shows "q \<le> peer_votes ps (add_peers_loop ps q rest acks)"
    and "peer_votes ps (add_peers_loop ps q rest acks) \<le> max q (peer_votes ps acks)"
  using assms(2)
proof (induction rest arbitrary: acks)
  case Nil
  case 1
  then have "set (map rp_id ps) \<inter> fset acks = set (map rp_id ps)" by auto
  then show ?case using assms(1,3) distinct_card [OF assms(1)] by (simp add: votes_card)
next
  case Nil
  case 2
  then show ?case by simp
next
  case (Cons p rest)
  case 1
  then show ?case using Cons.IH(1) [of "finsert (rp_id p) acks"] by auto
next
  case (Cons p rest)
  case 2
  then show ?case
    using Cons.IH(2) [of "finsert (rp_id p) acks"] votes_insert [OF assms(1), of "rp_id p" acks] by auto
qed

lemma add_peers_until_quorum_votes:
  assumes "distinct (map rp_id ps)" and "ps \<noteq> []"
    and A: "A = add_peers_until_quorum ps (quorum_for (length ps)) acks"
  shows "quorum_for (length ps) \<le> peer_votes ps A"
    and "peer_votes ps A \<le> max (quorum_for (length ps)) (peer_votes ps acks)"
    and "acks |\<subseteq>| A" and "fset A \<subseteq> fset acks \<union> set (map rp_id ps)"
  unfolding A add_peers_until_quorum_def
  using add_peers_loop_votes [OF assms(1) _ quorum_for_le [OF assms(2)], where acks = acks and rest = ps]
    add_peers_loop_bounds [where acks = acks and ps = ps and q = "quorum_for (length ps)" and rest = ps] by auto

lemma add_peer_if_present_subset: "fset (add_peer_if_present ps i A) \<subseteq> fset A \<union> set (map rp_id ps)"
  by (auto simp: add_peer_if_present_def list_ex_iff)

lemma minimal_set_found:
  assumes "voters_ok m" and "nonempty m"
  shows "\<exists>A. minimal_quorum_ack_set m i = Some A \<and> quorum_met m A \<and> fset A \<subseteq> voter_ids m"
proof (cases m)
  case (MSimple ps)
  have d: "distinct (map rp_id ps)" "ps \<noteq> []" using assms MSimple by simp_all
  from add_peers_until_quorum_votes [OF d refl, of "add_peer_if_present ps i {||}"] d MSimple
    add_peer_if_present_subset [of ps i "{||}"]
  show ?thesis by (auto simp: minimal_quorum_ack_set_def Let_def)
next
  case (MJoint old new)
  have d: "distinct (map rp_id old)" "distinct (map rp_id new)" "old \<noteq> []" "new \<noteq> []"
    using assms MJoint by simp_all
  let ?a0 = "add_peer_if_present new i (add_peer_if_present old i {||})"
  let ?a1 = "add_peers_until_quorum old (quorum_for (length old)) ?a0"
  let ?a2 = "add_peers_until_quorum new (quorum_for (length new)) ?a1"
  note o = add_peers_until_quorum_votes [OF d(1,3) refl, of ?a0] and n = add_peers_until_quorum_votes [OF d(2,4) refl, of ?a1]
  have "quorum_met m ?a2" using o(1) n(1) votes_mono [OF n(3), of old] d MJoint by simp
  moreover have "fset ?a2 \<subseteq> voter_ids m"
    using o(4) n(4) add_peer_if_present_subset [of old i "{||}"]
      add_peer_if_present_subset [of new i "add_peer_if_present old i {||}"]
    unfolding MJoint voter_ids.simps by (simp; blast)
  ultimately show ?thesis using MJoint by (simp add: minimal_quorum_ack_set_def Let_def)
qed

lemma minimal_set_simple_size:
  assumes "distinct (map rp_id ps)" and "minimal_quorum_ack_set (MSimple ps) i = Some A"
  shows "fcard A = quorum_size (MSimple ps)"
proof -
  have ne: "ps \<noteq> []" and A: "A = add_peers_until_quorum ps (quorum_for (length ps)) (add_peer_if_present ps i {||})"
    using assms(2) by (auto simp: minimal_quorum_ack_set_def Let_def split: if_splits)
  note v = add_peers_until_quorum_votes [OF assms(1) ne A]
  have "fset A \<subseteq> set (map rp_id ps)" using v(4) add_peer_if_present_subset [of ps i "{||}"] by auto
  then have "set (map rp_id ps) \<inter> fset A = fset A" by blast
  then have f: "fcard A = peer_votes ps A" by (simp add: votes_card [OF assms(1)] fcard.rep_eq)
  have "peer_votes ps {||} = 0" by (simp add: peer_votes_def)
  then have "peer_votes ps (add_peer_if_present ps i {||}) \<le> 1"
    using votes_insert [OF assms(1), of i "{||}"] by (simp add: add_peer_if_present_def)
  with v(1,2) f quorum_for_pos [OF ne] show ?thesis by simp
qed

end
