(* ===== verification/Raft_Selection.thy ===== *)
theory Raft_Selection
  imports Raft_Quorums
begin

text \<open>
  Correctness of \<open>select_target_replication_peers\<close>: whenever the quorum can still be met with
  the remote peers at hand, it can be met with the selected ones, and only remote peers are
  selected.
\<close>

section \<open>Gaining votes\<close>

lemma votes_gain:
  "p \<in> set ps \<Longrightarrow> rp_id p |\<notin>| A \<Longrightarrow> peer_votes ps A < peer_votes ps (finsert (rp_id p) A)"
proof (induction ps)
  case (Cons q ps)
  have "peer_votes ps A \<le> peer_votes ps (finsert (rp_id p) A)" by (rule votes_mono) auto
  with Cons show ?case by (auto simp: peer_votes_def)
qed simp

lemma votes_same:
  "\<forall>i \<in> fset I. \<forall>p \<in> set ps. rp_id p = i \<longrightarrow> i |\<in>| A \<Longrightarrow> peer_votes ps (A |\<union>| I) = peer_votes ps A"
  unfolding peer_votes_def by (rule arg_cong [where f = length], rule filter_cong) auto

lemma no_gain_votes:
  assumes "\<forall>i \<in> fset I. min (peer_votes ps (finsert i A)) q - min (peer_votes ps A) q = 0"
    and "peer_votes ps A < q"
  shows "peer_votes ps (A |\<union>| I) = peer_votes ps A"
proof (rule votes_same, intro ballI impI)
  fix i p
  assume i: "i \<in> fset I" "p \<in> set ps" "rp_id p = i"
  show "i |\<in>| A"
  proof (rule ccontr)
    assume "i |\<notin>| A"
    with votes_gain [OF i(2), of A] i assms show False by (auto simp: min_def split: if_splits)
  qed
qed

lemma no_gain_no_quorum:
  assumes "\<forall>i \<in> fset I. quorum_gain m A (finsert i A) = 0" and "\<not> quorum_met m A"
  shows "\<not> quorum_met m (A |\<union>| I)"
proof (cases m)
  case (MSimple ps)
  with assms show ?thesis using no_gain_votes [of I ps A "quorum_for (length ps)"] by auto
next
  case (MJoint old new)
  with assms have "\<forall>i \<in> fset I. min (peer_votes old (finsert i A)) (quorum_for (length old)) -
      min (peer_votes old A) (quorum_for (length old)) = 0"
    "\<forall>i \<in> fset I. min (peer_votes new (finsert i A)) (quorum_for (length new)) -
      min (peer_votes new A) (quorum_for (length new)) = 0"
    by (simp_all add: Let_def)
  with no_gain_votes [of I old A "quorum_for (length old)"] no_gain_votes [of I new A "quorum_for (length new)"]
    assms(2) MJoint show ?thesis by auto
qed

section \<open>The selection loop\<close>

lemma fold_consider_None:
  "fold (consider_peer m selected acks) xs best = None \<Longrightarrow>
   best = None \<and> (\<forall>(pos, p, j) \<in> set xs. rp_id p |\<in>| fmdom selected \<or>
     quorum_gain m acks (finsert (rp_id p) acks) = 0)"
proof (induction xs arbitrary: best)
  case (Cons x xs)
  have "consider_peer m selected acks x best = None \<Longrightarrow> best = None \<and>
      (case x of (pos, p, j) \<Rightarrow> rp_id p |\<in>| fmdom selected \<or> quorum_gain m acks (finsert (rp_id p) acks) = 0)"
    by (cases x) (auto simp: consider_peer_def Let_def split: if_splits option.splits)
  with Cons show ?case by auto
qed simp

definition remote_ids :: "(raft_peer \<times> u64) list \<Rightarrow> string fset" where
  "remote_ids remote = fset_of_list (map (\<lambda>x. rp_id (fst x)) remote)"

lemma best_candidate_None:
  assumes "best_candidate m remote selected acks = None" and "i |\<in>| remote_ids remote" and "i |\<notin>| fmdom selected"
  shows "quorum_gain m acks (finsert i acks) = 0"
proof -
  from assms(2) obtain p j where x: "(p, j) \<in> set remote" "rp_id p = i"
    by (auto simp: remote_ids_def fset_of_list.rep_eq)
  from x(1) obtain k where "k < length remote" "remote ! k = (p, j)" by (auto simp: in_set_conv_nth)
  then have "(k, p, j) \<in> set (enumerate 0 remote)" by (simp add: in_set_enumerate_eq)
  with fold_consider_None [OF assms(1) [unfolded best_candidate_def]] assms(3) x show ?thesis by fastforce
qed

text \<open>What has been selected: remote peers, filed under their ids.\<close>

definition filed :: "(raft_peer \<times> u64) list \<Rightarrow> (string, raft_peer) fmap \<Rightarrow> bool" where
  "filed remote selected \<longleftrightarrow> (\<forall>i p. fmlookup selected i = Some p \<longrightarrow> rp_id p = i \<and> p \<in> fst ` set remote)"

lemma filed_upd: "filed remote selected \<Longrightarrow> p \<in> fst ` set remote \<Longrightarrow> filed remote (fmupd (rp_id p) p selected)"
  by (auto simp: filed_def)

lemma select_loop_Some:
  assumes "select_loop m remote selected acks = Some sel" and "filed remote selected"
  shows "quorum_met m (acks |\<union>| fmdom sel) \<and> fmdom selected |\<subseteq>| fmdom sel \<and> filed remote sel"
  using assms
proof (induction m remote selected acks rule: select_loop.induct)
  case (1 m remote selected acks)
  show ?case
  proof (cases "quorum_met m acks")
    case True
    with 1(2,3) have "sel = selected" by (simp add: select_loop.simps)
    with True 1(3) show ?thesis by (auto intro: quorum_met_mono)
  next
    case False
    with 1(2) obtain g i w where b: "best_candidate m remote selected acks = Some (g, i, w)"
      by (auto simp: select_loop.simps [of m] split: option.splits)
    from best_candidate_Some [OF b] obtain pos where pos: "pos < length remote" "w = usize_max - int pos" by blast
    define p where "p = fst (remote ! pos)"
    have p: "p \<in> fst ` set remote" using pos by (auto simp: p_def)
    have rec: "select_loop m remote (fmupd (rp_id p) p selected) (finsert (rp_id p) acks) = Some sel"
      using 1(2) False b pos by (simp add: select_loop.simps [of m _ selected] p_def Let_def)
    have "quorum_met m (finsert (rp_id p) acks |\<union>| fmdom sel) \<and> fmdom (fmupd (rp_id p) p selected) |\<subseteq>| fmdom sel \<and>
        filed remote sel"
      by (rule 1(1) [OF False b refl refl _ rec filed_upd [OF 1(3) p]]) (simp add: p_def pos)
    moreover then have "finsert (rp_id p) acks |\<union>| fmdom sel = acks |\<union>| fmdom sel" by auto
    ultimately show ?thesis by auto
  qed
qed

lemma select_loop_None:
  assumes "select_loop m remote selected acks = None" and "fmdom selected |\<subseteq>| acks"
  shows "\<not> quorum_met m (acks |\<union>| remote_ids remote)"
  using assms
proof (induction m remote selected acks rule: select_loop.induct)
  case (1 m remote selected acks)
  from 1(2) have nq: "\<not> quorum_met m acks" by (auto simp: select_loop.simps [of m] split: if_splits)
  show ?case
  proof (cases "best_candidate m remote selected acks")
    case None
    have "\<forall>i \<in> fset (remote_ids remote |-| acks). quorum_gain m acks (finsert i acks) = 0"
      using best_candidate_None [OF None] 1(3) by auto
    from no_gain_no_quorum [OF this nq] show ?thesis by (simp add: sup_commute)
  next
    case (Some x)
    obtain g i w where x: "x = (g, i, w)" by (cases x)
    from best_candidate_Some [OF Some [unfolded x]] obtain pos
      where pos: "pos < length remote" "w = usize_max - int pos" by blast
    define p where "p = fst (remote ! pos)"
    have rec: "select_loop m remote (fmupd (rp_id p) p selected) (finsert (rp_id p) acks) = None"
      using 1(2) nq Some x pos by (simp add: select_loop.simps [of m _ selected] p_def Let_def)
    have "rp_id p |\<in>| remote_ids remote"
      using pos by (auto simp: p_def remote_ids_def fset_of_list.rep_eq)
    then have "finsert (rp_id p) acks |\<union>| remote_ids remote = acks |\<union>| remote_ids remote" by auto
    moreover have "\<not> quorum_met m (finsert (rp_id p) acks |\<union>| remote_ids remote)"
      by (rule 1(1) [OF nq Some [unfolded x] refl refl _ rec]) (use 1(3) in \<open>auto simp: p_def pos\<close>)
    ultimately show ?thesis by simp
  qed
qed

section \<open>The selected peers\<close>

lemma add_extra_fanout_grows:
  "filed remote0 selected \<Longrightarrow> set remote \<subseteq> set remote0 \<Longrightarrow>
   fmdom selected |\<subseteq>| fmdom (add_extra_fanout limit k remote selected) \<and>
   filed remote0 (add_extra_fanout limit k remote selected)"
proof (induction limit k remote selected rule: add_extra_fanout.induct)
  case (2 limit k p j rest selected)
  have "p \<in> fst ` set remote0" using 2(4) by force
  then have "filed remote0 (fmupd (rp_id p) p selected)" using filed_upd 2(3) by blast
  with 2 show ?case by auto
qed simp

lemma set_rotated [simp]: "set (rotated_remote_peers remote r) = set remote"
  by (simp add: rotated_remote_peers_def Let_def)

lemma rotated_ids [simp]: "remote_ids (rotated_remote_peers remote r) = remote_ids remote"
  by (simp add: remote_ids_def fset_of_list_def)

lemma into_values_filed:
  assumes "filed remote selected"
  shows "set (into_values selected) \<subseteq> fst ` set remote" and "rp_id ` set (into_values selected) = fset (fmdom selected)"
proof -
  have v: "the (fmlookup selected i) \<in> fst ` set remote" "rp_id (the (fmlookup selected i)) = i"
    if "i |\<in>| fmdom selected" for i
    using assms that by (auto simp: filed_def fmlookup_dom_iff)
  show "set (into_values selected) \<subseteq> fst ` set remote" using v(1) by (auto simp: into_values_def)
  show "rp_id ` set (into_values selected) = fset (fmdom selected)"
    using v(2) by (auto simp: into_values_def image_image)
qed

text \<open>The three outcomes of a selection for a target index that is not acknowledged yet.\<close>

lemma selection_cases:
  assumes "\<not> quorum_met m acks" and "remote \<noteq> []"
  obtains (all) "select_target_replication_peers m (Some t) acks remote r extra = map fst remote"
  | (some) sel where "select_target_replication_peers m (Some t) acks remote r extra = into_values sel"
      "filed remote sel" "quorum_met m (acks |\<union>| fmdom sel)"
proof (cases "select_loop m (rotated_remote_peers remote r) fmempty acks")
  case None
  with assms all show ?thesis by (simp add: select_target_replication_peers_def Let_def)
next
  case (Some sel)
  have f: "filed remote' = filed remote" if "remote' = rotated_remote_peers remote r" for remote'
    by (rule ext) (simp add: filed_def that)
  have sel: "quorum_met m (acks |\<union>| fmdom sel)" "filed remote sel"
    using select_loop_Some [OF Some] f by (auto simp: filed_def)
  show ?thesis
  proof (cases "length remote \<le> hm_len sel")
    case True
    with assms Some all show ?thesis by (simp add: select_target_replication_peers_def Let_def)
  next
    case False
    let ?s = "if 0 < extra then add_extra_fanout (length remote) extra (rotated_remote_peers remote r) sel else sel"
    have "fmdom sel |\<subseteq>| fmdom ?s \<and> filed remote ?s"
      using add_extra_fanout_grows [OF sel(2), of "rotated_remote_peers remote r" "length remote" extra] sel(2)
      by simp
    then have "filed remote ?s" "quorum_met m (acks |\<union>| fmdom ?s)"
      using quorum_met_mono [OF sel(1), of "acks |\<union>| fmdom ?s"] by blast+
    with assms Some False some [of ?s] show ?thesis
      by (simp add: select_target_replication_peers_def Let_def)
  qed
qed

lemma selection_subset: "set (select_target_replication_peers m t acks remote r extra) \<subseteq> fst ` set remote"
proof (cases "t = None \<or> quorum_met m acks \<or> remote = []")
  case True
  then show ?thesis by (auto simp: select_target_replication_peers_def)
next
  case False
  then obtain t' where t: "t = Some t'" "\<not> quorum_met m acks" "remote \<noteq> []" by auto
  from t(2,3) show ?thesis unfolding t(1)
    by (rule selection_cases [where t = t' and r = r and extra = extra])
      (use into_values_filed in \<open>simp, fastforce\<close>)
qed

lemma selection_meets_quorum:
  assumes "quorum_met m (acks |\<union>| remote_ids remote)"
  shows "quorum_met m (acks |\<union>| fset_of_list (map rp_id (select_target_replication_peers m t acks remote r extra)))"
proof (cases "t = None \<or> quorum_met m acks \<or> remote = []")
  case True
  then show ?thesis using assms
    by (auto simp: select_target_replication_peers_def remote_ids_def comp_def)
next
  case False
  then obtain t' where t: "t = Some t'" "\<not> quorum_met m acks" "remote \<noteq> []" by auto
  from t(2,3) show ?thesis
  proof (cases rule: selection_cases [where t = t' and r = r and extra = extra])
    case all
    then show ?thesis using assms by (simp add: t(1) remote_ids_def fset.map_comp comp_def)
  next
    case (some sel)
    then have "fset_of_list (map rp_id (into_values sel)) = fmdom sel"
      using into_values_filed(2) [of remote sel] by (auto simp: fset_of_list.rep_eq fset_eq_iff)
    with some show ?thesis unfolding t(1) by simp
  qed
qed

end
