(* ===== verification/Raft_Validation.thy ===== *)
theory Raft_Validation
  imports Raft_Membership
begin

text \<open>
  Validation of node ids, peer addresses, memberships and staged learners, and the client ids
  of a node, from \<open>src/broker_raft.rs\<close>.  A Rust string is the list of its UTF-8 bytes:
  \<open>str_chars\<close> cuts it into the encodings of its characters, \<open>code_point\<close> decodes one of them.
  The error messages of the code are constructors.
\<close>

unbundle bit_operations_syntax

section \<open>Characters of a string\<close>

abbreviation byte :: "char \<Rightarrow> int" where
  "byte c \<equiv> of_char c"

definition is_continuation :: "char \<Rightarrow> bool" where
  "is_continuation c \<longleftrightarrow> 128 \<le> byte c \<and> byte c < 192"

function str_chars :: "string \<Rightarrow> string list" where
  "str_chars [] = []"
| "str_chars (c # cs) = (c # takeWhile is_continuation cs) # str_chars (dropWhile is_continuation cs)"
  by pat_completeness auto

termination str_chars
  by (relation "measure length") (auto simp: length_dropWhile_le less_Suc_eq_le)

fun code_point :: "string \<Rightarrow> int" where
  "code_point [a] = byte a"
| "code_point [a, b] = (byte a - 192) * 64 + (byte b - 128)"
| "code_point [a, b, c] = ((byte a - 224) * 64 + (byte b - 128)) * 64 + (byte c - 128)"
| "code_point [a, b, c, d] =
     (((byte a - 240) * 64 + (byte b - 128)) * 64 + (byte c - 128)) * 64 + (byte d - 128)"
| "code_point _ = 0"

text \<open>\<open>char::is_whitespace\<close> (the Unicode property White\_Space) and \<open>char::is_control\<close>.\<close>

definition is_whitespace :: "string \<Rightarrow> bool" where
  "is_whitespace ch \<longleftrightarrow> (let n = code_point ch in
     (9 \<le> n \<and> n \<le> 13) \<or> n = 32 \<or> n = 133 \<or> n = 160 \<or> n = 5760 \<or> (8192 \<le> n \<and> n \<le> 8202) \<or>
     n = 8232 \<or> n = 8233 \<or> n = 8239 \<or> n = 8287 \<or> n = 12288)"

definition is_control :: "string \<Rightarrow> bool" where
  "is_control ch \<longleftrightarrow> (let n = code_point ch in n < 32 \<or> (127 \<le> n \<and> n < 160))"

definition trim :: "string \<Rightarrow> string" where
  "trim s = concat (rev (dropWhile is_whitespace (rev (dropWhile is_whitespace (str_chars s)))))"

definition strip_prefix :: "string \<Rightarrow> string \<Rightarrow> string option" where
  "strip_prefix p s = (if take (length p) s = p then Some (drop (length p) s) else None)"

text \<open>\<open>str::parse::<u16>\<close>: an optional plus sign, then digits, with an upper bound.\<close>

definition parse_u16 :: "string \<Rightarrow> int option" where
  "parse_u16 s =
     (let ds = (case s of c # cs \<Rightarrow> if c = CHR ''+'' then cs else s | [] \<Rightarrow> []) in
      if ds = [] \<or> \<not> list_all (\<lambda>c. 48 \<le> byte c \<and> byte c \<le> 57) ds then None
      else (let n = fold (\<lambda>c n. 10 * n + (byte c - 48)) ds 0 in if n < 65536 then Some n else None))"

section \<open>Node ids and addresses\<close>

datatype node_id_error = IdEmpty | IdWhitespace | IdControl | IdSeparator

definition validate_raft_node_id :: "string \<Rightarrow> node_id_error + unit" where
  "validate_raft_node_id i =
     (if i = [] then Inl IdEmpty
      else if list_ex is_whitespace (str_chars i) then Inl IdWhitespace
      else if list_ex is_control (str_chars i) then Inl IdControl
      else if CHR ''/'' \<in> set i \<or> char_of (92 :: nat) \<in> set i then Inl IdSeparator
      else Inr ())"

datatype addr_error =
    MemoryAddrNotAllowed
  | MemoryAddrName node_id_error
  | BracketNotClosed
  | BracketForm
  | NotHostPort
  | Ipv6NeedsBrackets
  | StrayBrackets
  | HostEmpty | HostWhitespace | HostControl | HostSeparator
  | PortEmpty | PortNotInteger | PortZero

definition validate_raft_peer_addr_host :: "string \<Rightarrow> addr_error + unit" where
  "validate_raft_peer_addr_host host =
     (if host = [] then Inl HostEmpty
      else if list_ex is_whitespace (str_chars host) then Inl HostWhitespace
      else if list_ex is_control (str_chars host) then Inl HostControl
      else if CHR ''/'' \<in> set host \<or> char_of (92 :: nat) \<in> set host then Inl HostSeparator
      else Inr ())"

definition validate_raft_peer_addr_port :: "string \<Rightarrow> addr_error + unit" where
  "validate_raft_peer_addr_port port =
     (if port = [] then Inl PortEmpty
      else case parse_u16 port of
        None \<Rightarrow> Inl PortNotInteger
      | Some n \<Rightarrow> if n = 0 then Inl PortZero else Inr ())"

text \<open>\<open>rsplit_once(':')\<close>: the parts before and after the last colon.\<close>

definition rsplit_once_colon :: "string \<Rightarrow> (string \<times> string) option" where
  "rsplit_once_colon s =
     (if CHR '':'' \<in> set s
      then Some (rev (tl (dropWhile (\<lambda>c. c \<noteq> CHR '':'') (rev s))),
                 rev (takeWhile (\<lambda>c. c \<noteq> CHR '':'') (rev s)))
      else None)"

definition validate_raft_peer_addr_for_transport :: "string \<Rightarrow> bool \<Rightarrow> addr_error + unit" where
  "validate_raft_peer_addr_for_transport addr allow_memory =
     (case strip_prefix ''memory://'' addr of
        Some node_name \<Rightarrow>
          if \<not> allow_memory then Inl MemoryAddrNotAllowed
          else (case validate_raft_node_id node_name of
                  Inl e \<Rightarrow> Inl (MemoryAddrName e) | Inr _ \<Rightarrow> Inr ())
      | None \<Rightarrow>
        (case strip_prefix ''['' addr of
           Some after_open \<Rightarrow>
             if CHR '']'' \<notin> set after_open then Inl BracketNotClosed
             else (let host = takeWhile (\<lambda>c. c \<noteq> CHR '']'') after_open;
                       suffix = tl (dropWhile (\<lambda>c. c \<noteq> CHR '']'') after_open)
                   in case validate_raft_peer_addr_host host of
                        Inl e \<Rightarrow> Inl e
                      | Inr _ \<Rightarrow>
                          if strip_prefix '':'' suffix = None \<or> length suffix = 1 then Inl BracketForm
                          else validate_raft_peer_addr_port (tl suffix))
         | None \<Rightarrow>
           (case rsplit_once_colon addr of
              None \<Rightarrow> Inl NotHostPort
            | Some (host, port) \<Rightarrow>
                (case validate_raft_peer_addr_host host of
                   Inl e \<Rightarrow> Inl e
                 | Inr _ \<Rightarrow>
                     if CHR '':'' \<in> set host then Inl Ipv6NeedsBrackets
                     else if CHR ''['' \<in> set host \<or> CHR '']'' \<in> set host then Inl StrayBrackets
                     else validate_raft_peer_addr_port port))))"

section \<open>Client ids of a node\<close>

definition stable_node_jitter :: "string \<Rightarrow> u64 \<Rightarrow> u64" where
  "stable_node_jitter node_id tick =
     fold (\<lambda>c h. (h XOR of_int (byte c)) * 1099511628211) node_id (tick * 1099511628211)"

definition RAFT_CLIENT_ID_PREFIX_SHIFT :: nat where
  "RAFT_CLIENT_ID_PREFIX_SHIFT = 48"

definition RAFT_CLIENT_ID_SEQUENCE_MASK :: u64 where
  "RAFT_CLIENT_ID_SEQUENCE_MASK = push_bit RAFT_CLIENT_ID_PREFIX_SHIFT 1 - 1"

definition raft_client_id_prefix :: "string \<Rightarrow> u64" where
  "raft_client_id_prefix node_id = max (stable_node_jitter node_id 0 AND 0xffff) 1"

definition raft_client_id_for_node :: "string \<Rightarrow> u64 \<Rightarrow> u64" where
  "raft_client_id_for_node node_id sq =
     (let sq = max (sq AND RAFT_CLIENT_ID_SEQUENCE_MASK) 1
      in push_bit RAFT_CLIENT_ID_PREFIX_SHIFT (raft_client_id_prefix node_id) OR sq)"

section \<open>Memberships\<close>

datatype config_error =
    TooFewPeers
  | PeerIdEmpty
  | PeerIdInvalid string node_id_error
  | PeerAddrEmpty string
  | PeerAddrInvalid string string addr_error
  | PeerIdRepeated string
  | PeerAddrRepeated string
  | PrefixCollision string string u64
  | LearnerIsVoter string
  | LearnerAddrUsed string
  | JointAddrChanged string string string
  | JointAddrShared string string string
  | NoIds
  | SetIdInvalid string node_id_error

fun check_client_id_prefixes :: "raft_peer list \<Rightarrow> (u64, string) fmap \<Rightarrow> config_error + unit" where
  "check_client_id_prefixes [] by_prefix = Inr ()"
| "check_client_id_prefixes (p # ps) by_prefix =
     (let pre = raft_client_id_prefix (rp_id p) in
      case fmlookup by_prefix pre of
        Some previous \<Rightarrow>
          if previous = rp_id p then check_client_id_prefixes ps by_prefix
          else Inl (PrefixCollision previous (rp_id p) pre)
      | None \<Rightarrow> check_client_id_prefixes ps (fmupd pre (rp_id p) by_prefix))"

definition validate_raft_client_id_prefixes :: "raft_peer list \<Rightarrow> config_error + unit" where
  "validate_raft_client_id_prefixes ps = check_client_id_prefixes ps fmempty"

text \<open>
  The loop over the peers, which voters and learners share up to the wording of the errors:
  \<open>ids\<close> and \<open>addrs\<close> are the sets of what was seen, \<open>acc\<close> is \<open>normalized\<close>.  The loop of the
  learners trims once more before it asks whether an id or address is empty, which changes
  nothing: \<open>trim_idem\<close>.
\<close>

fun check_peers ::
  "bool \<Rightarrow> raft_peer list \<Rightarrow> string fset \<Rightarrow> string fset \<Rightarrow> raft_peer list \<Rightarrow>
   config_error + raft_peer list" where
  "check_peers allow_memory [] ids addrs acc = Inr acc"
| "check_peers allow_memory (p # ps) ids addrs acc =
     (let i = trim (rp_id p); a = trim (rp_addr p) in
      if i = [] then Inl PeerIdEmpty
      else case validate_raft_node_id i of
        Inl e \<Rightarrow> Inl (PeerIdInvalid i e)
      | Inr _ \<Rightarrow>
          if a = [] then Inl (PeerAddrEmpty i)
          else case validate_raft_peer_addr_for_transport a allow_memory of
            Inl e \<Rightarrow> Inl (PeerAddrInvalid i a e)
          | Inr _ \<Rightarrow>
              if i |\<in>| ids then Inl (PeerIdRepeated i)
              else if a |\<in>| addrs then Inl (PeerAddrRepeated a)
              else check_peers allow_memory ps (finsert i ids) (finsert a addrs)
                     (acc @ [\<lparr>rp_id = i, rp_addr = a\<rparr>]))"

definition validate_membership_peers_for_transport ::
  "raft_peer list \<Rightarrow> bool \<Rightarrow> config_error + raft_peer list" where
  "validate_membership_peers_for_transport ps allow_memory =
     (if length ps < 3 then Inl TooFewPeers
      else case check_peers allow_memory ps {||} {||} [] of
        Inl e \<Rightarrow> Inl e
      | Inr qs \<Rightarrow>
          (let normalized = normalize_peers qs in
           case validate_raft_client_id_prefixes normalized of
             Inl e \<Rightarrow> Inl e | Inr _ \<Rightarrow> Inr normalized))"

definition validate_staged_learner_peer_shapes_for_transport ::
  "raft_peer list \<Rightarrow> bool \<Rightarrow> config_error + raft_peer list" where
  "validate_staged_learner_peer_shapes_for_transport learners allow_memory =
     (case check_peers allow_memory learners {||} {||} [] of
        Inl e \<Rightarrow> Inl e
      | Inr qs \<Rightarrow>
          (let normalized = normalize_peers qs in
           case validate_raft_client_id_prefixes normalized of
             Inl e \<Rightarrow> Inl e | Inr _ \<Rightarrow> Inr normalized))"

fun check_learners_inactive ::
  "string fset \<Rightarrow> string fset \<Rightarrow> raft_peer list \<Rightarrow> config_error + unit" where
  "check_learners_inactive active_ids active_addrs [] = Inr ()"
| "check_learners_inactive active_ids active_addrs (p # ps) =
     (if rp_id p |\<in>| active_ids then Inl (LearnerIsVoter (rp_id p))
      else if rp_addr p |\<in>| active_addrs then Inl (LearnerAddrUsed (rp_addr p))
      else check_learners_inactive active_ids active_addrs ps)"

definition validate_staged_learner_peers_for_transport ::
  "raft_peer list \<Rightarrow> raft_peer list \<Rightarrow> bool \<Rightarrow> config_error + raft_peer list" where
  "validate_staged_learner_peers_for_transport learners active allow_memory =
     (case validate_staged_learner_peer_shapes_for_transport learners allow_memory of
        Inl e \<Rightarrow> Inl e
      | Inr normalized \<Rightarrow>
        (case check_learners_inactive (fset_of_list (map rp_id active)) (fset_of_list (map rp_addr active))
                normalized of
           Inl e \<Rightarrow> Inl e
         | Inr _ \<Rightarrow>
           (case validate_raft_client_id_prefixes (active @ normalized) of
              Inl e \<Rightarrow> Inl e | Inr _ \<Rightarrow> Inr normalized)))"

fun check_cross_addresses ::
  "(string, string) fmap \<Rightarrow> (string, string) fmap \<Rightarrow> raft_peer list \<Rightarrow> config_error + unit" where
  "check_cross_addresses old_by_id old_by_addr [] = Inr ()"
| "check_cross_addresses old_by_id old_by_addr (p # ps) =
     (case fmlookup old_by_id (rp_id p) of
        Some old_addr \<Rightarrow>
          if old_addr \<noteq> rp_addr p then Inl (JointAddrChanged (rp_id p) old_addr (rp_addr p))
          else (case fmlookup old_by_addr (rp_addr p) of
                  Some old_id \<Rightarrow>
                    if old_id \<noteq> rp_id p then Inl (JointAddrShared (rp_addr p) old_id (rp_id p))
                    else check_cross_addresses old_by_id old_by_addr ps
                | None \<Rightarrow> check_cross_addresses old_by_id old_by_addr ps)
      | None \<Rightarrow>
          (case fmlookup old_by_addr (rp_addr p) of
             Some old_id \<Rightarrow>
               if old_id \<noteq> rp_id p then Inl (JointAddrShared (rp_addr p) old_id (rp_id p))
               else check_cross_addresses old_by_id old_by_addr ps
           | None \<Rightarrow> check_cross_addresses old_by_id old_by_addr ps))"

definition validate_joint_membership_cross_addresses ::
  "raft_peer list \<Rightarrow> raft_peer list \<Rightarrow> config_error + unit" where
  "validate_joint_membership_cross_addresses old new =
     check_cross_addresses (fold (\<lambda>p. fmupd (rp_id p) (rp_addr p)) old fmempty)
       (fold (\<lambda>p. fmupd (rp_addr p) (rp_id p)) old fmempty) new"

fun validate_raft_membership_for_transport ::
  "raft_membership \<Rightarrow> bool \<Rightarrow> config_error + raft_membership" where
  "validate_raft_membership_for_transport (MSimple ps) allow_memory =
     (case validate_membership_peers_for_transport ps allow_memory of
        Inl e \<Rightarrow> Inl e | Inr qs \<Rightarrow> Inr (MSimple qs))"
| "validate_raft_membership_for_transport (MJoint old new) allow_memory =
     (case validate_membership_peers_for_transport old allow_memory of
        Inl e \<Rightarrow> Inl e
      | Inr old \<Rightarrow>
        (case validate_membership_peers_for_transport new allow_memory of
           Inl e \<Rightarrow> Inl e
         | Inr new \<Rightarrow>
           (case validate_joint_membership_cross_addresses old new of
              Inl e \<Rightarrow> Inl e
            | Inr _ \<Rightarrow>
              (case validate_raft_client_id_prefixes (old @ new) of
                 Inl e \<Rightarrow> Inl e | Inr _ \<Rightarrow> Inr (MJoint old new)))))"

fun check_id_set :: "string list \<Rightarrow> string fset \<Rightarrow> config_error + string fset" where
  "check_id_set [] acc = Inr acc"
| "check_id_set (i # is) acc =
     (let i = trim i in
      case validate_raft_node_id i of
        Inl e \<Rightarrow> Inl (SetIdInvalid i e)
      | Inr _ \<Rightarrow> check_id_set is (finsert i acc))"

definition validate_raft_node_id_set :: "string list \<Rightarrow> config_error + string fset" where
  "validate_raft_node_id_set is = (if is = [] then Inl NoIds else check_id_set is {||})"

end
