(* ===== verification/Raft_Voters.thy ===== *)
theory Raft_Voters
  imports Raft_Validation Raft_Quorums
begin

text \<open>
  What a validated membership is: the checks of the code say exactly that the trimmed peers
  are well formed, have distinct ids and addresses and distinct client id prefixes.  A
  validated membership is normalised, validates again to itself, and provides what
  \<open>Raft_Quorums\<close> asks of voters.
\<close>

section \<open>Trimming\<close>

definition whole_chars :: "string list \<Rightarrow> bool" where
  "whole_chars gs \<longleftrightarrow> list_all (\<lambda>g. g \<noteq> [] \<and> list_all is_continuation (tl g)) gs \<and>
     list_all (\<lambda>g. \<not> is_continuation (hd g)) (tl gs)"

lemma head_after_drop:
  assumes "str_chars (dropWhile P cs) = g # gs"
  shows "\<not> P (hd g)"
proof (cases "dropWhile P cs")
  case Nil
  with assms show ?thesis by simp
next
  case (Cons x xs)
  with assms have "hd g = x" by auto
  with Cons show ?thesis by (metis dropWhile_eq_Cons_conv)
qed

lemma whole_str_chars: "whole_chars (str_chars s)"
proof (induction s rule: str_chars.induct)
  case 1
  then show ?case by (simp add: whole_chars_def)
next
  case (2 c cs)
  have "list_all is_continuation (takeWhile is_continuation cs)"
    by (simp add: list_all_iff) (meson set_takeWhileD)
  with 2 show ?case
    using head_after_drop [of is_continuation cs]
    by (cases "str_chars (dropWhile is_continuation cs)") (auto simp: whole_chars_def)
qed

lemma concat_str_chars [simp]: "concat (str_chars s) = s"
  by (induction s rule: str_chars.induct) simp_all

lemma str_chars_concat:
  assumes "whole_chars gs"
  shows "str_chars (concat gs) = gs"
  using assms
proof (induction gs)
  case Nil
  then show ?case by simp
next
  case (Cons g gs)
  obtain c cs where g: "g = c # cs" and cs: "list_all is_continuation cs"
    using Cons.prems by (cases g) (auto simp: whole_chars_def)
  have rest: "whole_chars gs" using Cons.prems by (cases gs) (auto simp: whole_chars_def)
  have "takeWhile is_continuation (concat gs) = [] \<and> dropWhile is_continuation (concat gs) = concat gs"
  proof (cases gs)
    case (Cons h hs)
    then obtain d ds where "h = d # ds" "\<not> is_continuation d"
      using Cons.prems by (cases h) (auto simp: whole_chars_def)
    then show ?thesis using Cons by simp
  qed simp
  then show ?case using cs Cons.IH [OF rest]
    by (simp add: g takeWhile_append2 dropWhile_append2 list_all_iff)
qed

lemma whole_chars_infix: "whole_chars (xs @ ys @ zs) \<Longrightarrow> whole_chars ys"
  by (cases xs; cases ys) (auto simp: whole_chars_def)

definition trimmed :: "string list \<Rightarrow> string list" where
  "trimmed gs = rev (dropWhile is_whitespace (rev (dropWhile is_whitespace gs)))"

lemma trim_eq: "trim s = concat (trimmed (str_chars s))"
  by (simp add: trim_def trimmed_def)

lemma whole_trimmed: "whole_chars gs \<Longrightarrow> whole_chars (trimmed gs)"
proof -
  assume w: "whole_chars gs"
  let ?d = "dropWhile is_whitespace gs"
  have "?d = trimmed gs @ rev (takeWhile is_whitespace (rev ?d))"
    unfolding trimmed_def by (metis rev_append rev_rev_ident takeWhile_dropWhile_id)
  then have "gs = takeWhile is_whitespace gs @ trimmed gs @ rev (takeWhile is_whitespace (rev ?d))"
    by (metis takeWhile_dropWhile_id)
  with w whole_chars_infix show ?thesis by metis
qed

lemma str_chars_trim: "str_chars (trim s) = trimmed (str_chars s)"
  by (simp add: trim_eq str_chars_concat whole_trimmed whole_str_chars)

lemma trimmed_idem: "trimmed (trimmed gs) = trimmed gs"
proof -
  let ?d = "dropWhile is_whitespace gs"
  have "dropWhile is_whitespace (trimmed gs) = trimmed gs"
  proof (cases "trimmed gs")
    case (Cons x xs)
    have "?d = trimmed gs @ rev (takeWhile is_whitespace (rev ?d))"
      unfolding trimmed_def by (metis rev_append rev_rev_ident takeWhile_dropWhile_id)
    with Cons have "?d = x # xs @ rev (takeWhile is_whitespace (rev ?d))" by simp
    then have "\<not> is_whitespace x" by (metis dropWhile_eq_Cons_conv)
    with Cons show ?thesis by simp
  qed simp
  then show ?thesis unfolding trimmed_def by simp
qed

lemma trim_idem [simp]: "trim (trim s) = trim s"
  by (simp add: trim_eq [of "trim s"] str_chars_trim trimmed_idem) (simp add: trim_eq)

section \<open>The loop over the peers\<close>

definition trim_peer :: "raft_peer \<Rightarrow> raft_peer" where
  "trim_peer p = \<lparr>rp_id = trim (rp_id p), rp_addr = trim (rp_addr p)\<rparr>"

definition peer_ok :: "bool \<Rightarrow> raft_peer \<Rightarrow> bool" where
  "peer_ok allow_memory p \<longleftrightarrow> validate_raft_node_id (rp_id p) = Inr () \<and> rp_addr p \<noteq> [] \<and>
     validate_raft_peer_addr_for_transport (rp_addr p) allow_memory = Inr ()"

lemma trim_peer_sel [simp]: "rp_id (trim_peer p) = trim (rp_id p)" "rp_addr (trim_peer p) = trim (rp_addr p)"
  by (simp_all add: trim_peer_def)

lemma trim_peer_idem [simp]: "trim_peer (trim_peer p) = trim_peer p"
  by (simp add: trim_peer_def)

lemma valid_id_nonempty: "validate_raft_node_id i = Inr () \<Longrightarrow> i \<noteq> []"
  by (auto simp: validate_raft_node_id_def)

lemma check_peers_iff:
  "check_peers am ps ids addrs acc = Inr qs \<longleftrightarrow>
     qs = acc @ map trim_peer ps \<and> list_all (peer_ok am) (map trim_peer ps) \<and>
     distinct (map (\<lambda>p. trim (rp_id p)) ps) \<and> distinct (map (\<lambda>p. trim (rp_addr p)) ps) \<and>
     set (map (\<lambda>p. trim (rp_id p)) ps) \<inter> fset ids = {} \<and>
     set (map (\<lambda>p. trim (rp_addr p)) ps) \<inter> fset addrs = {}"
proof (induction am ps ids addrs acc rule: check_peers.induct)
  case (1 am ids addrs acc)
  then show ?case by auto
next
  case (2 am p ps ids addrs acc)
  show ?case
  proof (cases "peer_ok am (trim_peer p) \<and> trim (rp_id p) |\<notin>| ids \<and> trim (rp_addr p) |\<notin>| addrs")
    case True
    then show ?thesis
      using "2.IH" [OF refl refl _ _ _ _ _ _] valid_id_nonempty [of "trim (rp_id p)"]
      by (auto simp: peer_ok_def Let_def trim_peer_def)
  next
    case False
    then show ?thesis
      using valid_id_nonempty [of "trim (rp_id p)"]
      by (auto simp: peer_ok_def Let_def split: sum.splits if_splits)
  qed
qed

section \<open>Client id prefixes\<close>

definition prefixes_ok :: "raft_peer list \<Rightarrow> bool" where
  "prefixes_ok ps \<longleftrightarrow> (\<forall>p \<in> set ps. \<forall>q \<in> set ps.
     raft_client_id_prefix (rp_id p) = raft_client_id_prefix (rp_id q) \<longrightarrow> rp_id p = rp_id q)"

lemma prefixes_ok_Cons:
  "prefixes_ok (p # ps) \<longleftrightarrow> prefixes_ok ps \<and>
     (\<forall>q \<in> set ps. raft_client_id_prefix (rp_id q) = raft_client_id_prefix (rp_id p) \<longrightarrow> rp_id q = rp_id p)"
  (is "?l \<longleftrightarrow> ?r")
proof
  show "?l \<Longrightarrow> ?r" unfolding prefixes_ok_def by simp
  assume r: ?r
  show ?l unfolding prefixes_ok_def
  proof (intro ballI impI)
    fix a b :: raft_peer
    assume "a \<in> set (p # ps)" "b \<in> set (p # ps)"
      and e: "raft_client_id_prefix (rp_id a) = raft_client_id_prefix (rp_id b)"
    then consider "a = p" "b = p" | "a = p" "b \<in> set ps" | "a \<in> set ps" "b = p" | "a \<in> set ps" "b \<in> set ps" by auto
    then show "rp_id a = rp_id b" using r e unfolding prefixes_ok_def by cases auto
  qed
qed

definition agrees :: "(u64, string) fmap \<Rightarrow> raft_peer \<Rightarrow> bool" where
  "agrees m q \<longleftrightarrow> (case fmlookup m (raft_client_id_prefix (rp_id q)) of Some i \<Rightarrow> rp_id q = i | None \<Rightarrow> True)"

lemma agrees_upd:
  assumes "fmlookup m (raft_client_id_prefix (rp_id p)) = None"
  shows "agrees (fmupd (raft_client_id_prefix (rp_id p)) (rp_id p) m) q \<longleftrightarrow>
    (raft_client_id_prefix (rp_id q) = raft_client_id_prefix (rp_id p) \<longrightarrow> rp_id q = rp_id p) \<and> agrees m q"
  using assms by (cases "raft_client_id_prefix (rp_id q) = raft_client_id_prefix (rp_id p)")
    (simp_all add: agrees_def)

lemma agrees_same:
  assumes "fmlookup m (raft_client_id_prefix (rp_id p)) = Some (rp_id p)" and "agrees m q"
  shows "raft_client_id_prefix (rp_id q) = raft_client_id_prefix (rp_id p) \<longrightarrow> rp_id q = rp_id p"
  using assms by (auto simp: agrees_def split: option.splits)

lemma check_prefixes_iff:
  "check_client_id_prefixes ps m = Inr () \<longleftrightarrow> prefixes_ok ps \<and> (\<forall>p \<in> set ps. agrees m p)"
proof (induction ps arbitrary: m)
  case Nil
  then show ?case by (simp add: prefixes_ok_def)
next
  case (Cons p ps)
  show ?case
  proof (cases "fmlookup m (raft_client_id_prefix (rp_id p))")
    case None
    then have "agrees m p" by (simp add: agrees_def)
    with None show ?thesis
      by (simp add: Cons.IH agrees_upd [OF None] prefixes_ok_Cons ball_conj_distrib)
  next
    case (Some i)
    then have "agrees m p \<longleftrightarrow> i = rp_id p" by (auto simp: agrees_def)
    with Some show ?thesis using agrees_same [of m p]
      by (cases "i = rp_id p") (simp_all add: Cons.IH prefixes_ok_Cons, blast)
  qed
qed

lemma validate_prefixes_iff: "validate_raft_client_id_prefixes ps = Inr () \<longleftrightarrow> prefixes_ok ps"
  by (simp add: validate_raft_client_id_prefixes_def check_prefixes_iff agrees_def)

section \<open>Normalised peers\<close>

definition by_id :: "raft_peer list \<Rightarrow> (string, raft_peer) fmap" where
  "by_id ps = fold (\<lambda>p. fmupd (rp_id p) p) ps fmempty"

lemma fold_by_id:
  assumes "distinct (map rp_id ps)"
  shows "fmlookup (fold (\<lambda>p. fmupd (rp_id p) p) ps m) i =
    (case find (\<lambda>p. rp_id p = i) ps of Some p \<Rightarrow> Some p | None \<Rightarrow> fmlookup m i)"
  using assms
proof (induction ps arbitrary: m)
  case (Cons p ps)
  then have "rp_id p = i \<Longrightarrow> find (\<lambda>p. rp_id p = i) ps = None"
    by (auto simp: find_None_iff rev_image_eqI)
  with Cons show ?case by (auto split: option.splits)
qed simp

lemma lookup_by_id:
  assumes "distinct (map rp_id ps)"
  shows "fmlookup (by_id ps) i = Some p \<longleftrightarrow> p \<in> set ps \<and> rp_id p = i"
proof -
  have "fmlookup (by_id ps) i = find (\<lambda>p. rp_id p = i) ps"
    unfolding by_id_def fold_by_id [OF assms] by (simp split: option.splits)
  moreover have "find (\<lambda>p. rp_id p = i) ps = Some p \<longleftrightarrow> p \<in> set ps \<and> rp_id p = i"
    using assms by (induction ps) (auto simp: rev_image_eqI)
  ultimately show ?thesis by simp
qed

lemma dom_by_id:
  assumes "distinct (map rp_id ps)"
  shows "fset (fmdom (by_id ps)) = set (map rp_id ps)"
proof (rule set_eqI)
  fix i
  have "i |\<in>| fmdom (by_id ps) \<longleftrightarrow> (\<exists>p. fmlookup (by_id ps) i = Some p)" by (auto simp: fmlookup_dom_iff)
  then show "i \<in> fset (fmdom (by_id ps)) \<longleftrightarrow> i \<in> set (map rp_id ps)"
    using lookup_by_id [OF assms] by auto
qed

lemma normalize_ids:
  assumes "distinct (map rp_id ps)"
  shows "map rp_id (normalize_peers ps) = sorted_list_of_set (set (map rp_id ps))"
proof -
  have "map rp_id (normalize_peers ps) = map (\<lambda>i. i) (sorted_list_of_fset (fmdom (by_id ps)))"
    unfolding normalize_peers_def into_values_def by_id_def [symmetric] map_map
  proof (rule map_cong [OF refl])
    fix i
    assume "i \<in> set (sorted_list_of_fset (fmdom (by_id ps)))"
    then obtain p where p: "fmlookup (by_id ps) i = Some p" by (auto simp: fmlookup_dom_iff)
    then have "rp_id p = i" using lookup_by_id [OF assms] by blast
    with p show "(rp_id \<circ> (\<lambda>k. the (fmlookup (by_id ps) k))) i = i" by simp
  qed
  then show ?thesis using dom_by_id [OF assms] by (simp add: sorted_list_of_fset.rep_eq)
qed

lemma set_normalize:
  assumes "distinct (map rp_id ps)"
  shows "set (normalize_peers ps) = set ps"
proof -
  have "set (normalize_peers ps) = (\<lambda>i. the (fmlookup (by_id ps) i)) ` set (map rp_id ps)"
    unfolding normalize_peers_def into_values_def by_id_def [symmetric]
    using dom_by_id [OF assms] by simp
  also have "\<dots> = (\<lambda>p. the (fmlookup (by_id ps) (rp_id p))) ` set ps" by auto
  also have "\<dots> = (\<lambda>p. p) ` set ps"
    by (rule image_cong [OF refl]) (simp add: iffD2 [OF lookup_by_id [OF assms]])
  finally show ?thesis by simp
qed

lemma distinct_normalize:
  assumes "distinct (map rp_id ps)"
  shows "distinct (map rp_id (normalize_peers ps))"
  unfolding normalize_ids [OF assms] by simp

lemma length_normalize:
  assumes "distinct (map rp_id ps)"
  shows "length (normalize_peers ps) = length ps"
  using distinct_card [OF assms] arg_cong [OF normalize_ids [OF assms], of length] by simp

text \<open>Peers with distinct ids in order of id stay where they are.\<close>

lemma normalize_same_set:
  assumes "distinct (map rp_id ps)" and "distinct (map rp_id qs)" and "set ps = set qs"
  shows "normalize_peers ps = normalize_peers qs"
proof -
  have "by_id ps = by_id qs"
    by (rule fmap_ext) (metis assms lookup_by_id option.exhaust)
  then show ?thesis by (simp add: normalize_peers_def by_id_def)
qed

lemma normalize_idem:
  assumes "distinct (map rp_id ps)"
  shows "normalize_peers (normalize_peers ps) = normalize_peers ps"
  by (rule normalize_same_set) (simp_all add: assms distinct_normalize set_normalize)

section \<open>Validated peers\<close>

definition voters_valid :: "bool \<Rightarrow> raft_peer list \<Rightarrow> bool" where
  "voters_valid am ps \<longleftrightarrow> list_all (peer_ok am) ps \<and> distinct (map rp_id ps) \<and>
     distinct (map rp_addr ps) \<and> prefixes_ok ps"

lemma voters_valid_same_set:
  assumes "voters_valid am ps" and "set ps = set qs" and "distinct (map rp_id qs)"
  shows "voters_valid am qs"
proof -
  have d: "distinct ps" "distinct qs" using assms by (auto simp: voters_valid_def distinct_map)
  have "distinct (map rp_addr qs)" using assms d by (simp add: voters_valid_def distinct_map)
  with assms show ?thesis by (simp add: voters_valid_def list_all_iff prefixes_ok_def)
qed

lemma map_trim_sel: "map (\<lambda>p. trim (rp_id p)) ps = map rp_id (map trim_peer ps)"
  "map (\<lambda>p. trim (rp_addr p)) ps = map rp_addr (map trim_peer ps)"
  by simp_all

lemma check_peers_start:
  "check_peers am ps {||} {||} [] = Inr qs \<longleftrightarrow> qs = map trim_peer ps \<and> list_all (peer_ok am) qs \<and>
     distinct (map rp_id qs) \<and> distinct (map rp_addr qs)"
  unfolding check_peers_iff map_trim_sel by auto

lemma prefixes_normalize:
  assumes "distinct (map rp_id ps)"
  shows "prefixes_ok (normalize_peers ps) \<longleftrightarrow> prefixes_ok ps"
  by (simp add: prefixes_ok_def set_normalize [OF assms])

text \<open>The checks accept a list of voters or learners exactly if its trimmed peers are valid.\<close>

lemma learner_shapes_iff:
  "validate_staged_learner_peer_shapes_for_transport ps am = Inr qs \<longleftrightarrow>
     voters_valid am (map trim_peer ps) \<and> qs = normalize_peers (map trim_peer ps)"
proof (cases "check_peers am ps {||} {||} []")
  case (Inl e)
  then have "\<not> voters_valid am (map trim_peer ps)"
    using check_peers_start [of am ps "map trim_peer ps"] by (auto simp: voters_valid_def)
  with Inl show ?thesis by (simp add: validate_staged_learner_peer_shapes_for_transport_def)
next
  case (Inr rs)
  then have rs: "rs = map trim_peer ps" and ok: "list_all (peer_ok am) rs" "distinct (map rp_id rs)" "distinct (map rp_addr rs)"
    using iffD1 [OF check_peers_start Inr] by blast+
  have "voters_valid am rs \<longleftrightarrow> validate_raft_client_id_prefixes (normalize_peers rs) = Inr ()"
    unfolding voters_valid_def validate_prefixes_iff prefixes_normalize [OF ok(2)] using ok by simp
  with Inr show ?thesis unfolding rs [symmetric]
    by (auto simp: validate_staged_learner_peer_shapes_for_transport_def Let_def split: sum.splits)
qed

lemma membership_peers_iff:
  "validate_membership_peers_for_transport ps am = Inr qs \<longleftrightarrow>
     3 \<le> length ps \<and> voters_valid am (map trim_peer ps) \<and> qs = normalize_peers (map trim_peer ps)"
  using learner_shapes_iff [of ps am qs]
  unfolding validate_membership_peers_for_transport_def validate_staged_learner_peer_shapes_for_transport_def
  by simp

lemma membership_peers_valid:
  assumes "validate_membership_peers_for_transport ps am = Inr qs"
  shows "3 \<le> length qs" and "voters_valid am qs" and "normalize_peers qs = qs" and "map trim_peer qs = qs"
proof -
  let ?t = "map trim_peer ps"
  have v: "3 \<le> length ps" "voters_valid am ?t" and qs: "qs = normalize_peers ?t"
    using assms by (simp_all add: membership_peers_iff)
  then have d: "distinct (map rp_id ?t)" by (simp add: voters_valid_def)
  show "3 \<le> length qs" using v(1) length_normalize [OF d] qs by simp
  show "voters_valid am qs"
    unfolding qs by (rule voters_valid_same_set [OF v(2)]) (simp_all only: set_normalize [OF d] distinct_normalize [OF d])
  show "normalize_peers qs = qs" unfolding qs by (rule normalize_idem [OF d])
  have "\<forall>p \<in> set qs. trim_peer p = p" unfolding qs set_normalize [OF d] by auto
  then show "map trim_peer qs = qs" by (simp add: map_idI)
qed

lemma membership_peers_idem:
  assumes "validate_membership_peers_for_transport ps am = Inr qs"
  shows "validate_membership_peers_for_transport qs am = Inr qs"
  using membership_peers_valid [OF assms] by (simp add: membership_peers_iff)

section \<open>Validated memberships\<close>

text \<open>Both configurations of a joint membership know a shared node, and a shared address, alike.\<close>

definition cross_ok :: "raft_peer list \<Rightarrow> raft_peer list \<Rightarrow> bool" where
  "cross_ok old new \<longleftrightarrow> (\<forall>p \<in> set old. \<forall>q \<in> set new. rp_id p = rp_id q \<longleftrightarrow> rp_addr p = rp_addr q)"

lemma check_cross_iff:
  "check_cross_addresses ia ai ps = Inr () \<longleftrightarrow> (\<forall>p \<in> set ps.
     (\<forall>a. fmlookup ia (rp_id p) = Some a \<longrightarrow> a = rp_addr p) \<and>
     (\<forall>i. fmlookup ai (rp_addr p) = Some i \<longrightarrow> i = rp_id p))"
  by (induction ps) (auto split: option.splits)

lemma fold_upd_lookup:
  assumes "distinct (map k ps)"
  shows "fmlookup (fold (\<lambda>p. fmupd (k p) (v p)) ps m) i = Some x \<longleftrightarrow>
    (\<exists>p \<in> set ps. k p = i \<and> v p = x) \<or> i \<notin> k ` set ps \<and> fmlookup m i = Some x"
  using assms by (induction ps arbitrary: m) (auto simp: rev_image_eqI)

lemma cross_addresses_iff:
  assumes "distinct (map rp_id old)" and "distinct (map rp_addr old)"
  shows "validate_joint_membership_cross_addresses old new = Inr () \<longleftrightarrow> cross_ok old new"
proof -
  have i: "(\<forall>a. fmlookup (fold (\<lambda>p. fmupd (rp_id p) (rp_addr p)) old fmempty) i = Some a \<longrightarrow> a = x) \<longleftrightarrow>
      (\<forall>p \<in> set old. rp_id p = i \<longrightarrow> rp_addr p = x)" for i x
    unfolding fold_upd_lookup [OF assms(1)] by auto
  have a: "(\<forall>a. fmlookup (fold (\<lambda>p. fmupd (rp_addr p) (rp_id p)) old fmempty) i = Some a \<longrightarrow> a = x) \<longleftrightarrow>
      (\<forall>p \<in> set old. rp_addr p = i \<longrightarrow> rp_id p = x)" for i x
    unfolding fold_upd_lookup [OF assms(2)] by auto
  show ?thesis
    unfolding validate_joint_membership_cross_addresses_def check_cross_iff cross_ok_def i a by blast
qed

fun membership_valid :: "bool \<Rightarrow> raft_membership \<Rightarrow> bool" where
  "membership_valid am (MSimple ps) \<longleftrightarrow> 3 \<le> length ps \<and> voters_valid am ps \<and> normalize_peers ps = ps"
| "membership_valid am (MJoint old new) \<longleftrightarrow>
     3 \<le> length old \<and> voters_valid am old \<and> normalize_peers old = old \<and>
     3 \<le> length new \<and> voters_valid am new \<and> normalize_peers new = new \<and>
     cross_ok old new \<and> prefixes_ok (old @ new)"

lemma joint_iff:
  "validate_raft_membership_for_transport (MJoint old new) am = Inr m \<longleftrightarrow>
     (\<exists>old' new'. validate_membership_peers_for_transport old am = Inr old' \<and>
        validate_membership_peers_for_transport new am = Inr new' \<and> cross_ok old' new' \<and>
        prefixes_ok (old' @ new') \<and> m = MJoint old' new')"
proof (cases "validate_membership_peers_for_transport old am")
  case (Inr old')
  then have d: "distinct (map rp_id old')" "distinct (map rp_addr old')"
    using membership_peers_valid(2) [OF Inr] by (simp_all add: voters_valid_def)
  show ?thesis
    unfolding validate_prefixes_iff [symmetric]
    using Inr by (cases "validate_membership_peers_for_transport new am")
      (auto simp: cross_addresses_iff [OF d, symmetric] split: sum.splits)
qed simp

lemma validated:
  assumes "validate_raft_membership_for_transport m am = Inr m'"
  shows "membership_valid am m'" and "validate_raft_membership_for_transport m' am = Inr m'"
proof -
  have "membership_valid am m' \<and> validate_raft_membership_for_transport m' am = Inr m'"
  proof (cases m)
    case (MSimple ps)
    with assms obtain qs where qs: "validate_membership_peers_for_transport ps am = Inr qs" and m': "m' = MSimple qs"
      by (auto split: sum.splits)
    then show ?thesis using membership_peers_valid [OF qs] membership_peers_idem [OF qs] by simp
  next
    case (MJoint old new)
    then obtain old' new' where o: "validate_membership_peers_for_transport old am = Inr old'"
      and n: "validate_membership_peers_for_transport new am = Inr new'" and c: "cross_ok old' new'"
      "prefixes_ok (old' @ new')" and m': "m' = MJoint old' new'"
      using assms joint_iff by metis
    have "validate_raft_membership_for_transport m' am = Inr m'"
      unfolding m' joint_iff using membership_peers_idem [OF o] membership_peers_idem [OF n] c by blast
    then show ?thesis using membership_peers_valid [OF o] membership_peers_valid [OF n] c m' by simp
  qed
  then show "membership_valid am m'" "validate_raft_membership_for_transport m' am = Inr m'" by simp_all
qed

lemma valid_voters:
  assumes "membership_valid am m"
  shows "voters_ok m" and "nonempty m"
  using assms by (cases m; auto simp: voters_valid_def)+

section \<open>Client ids\<close>

definition client_sequence :: "u64 \<Rightarrow> u64" where
  "client_sequence sq = max (sq AND RAFT_CLIENT_ID_SEQUENCE_MASK) 1"

lemma sequence_mask: "RAFT_CLIENT_ID_SEQUENCE_MASK = mask 48"
  by (simp add: RAFT_CLIENT_ID_SEQUENCE_MASK_def RAFT_CLIENT_ID_PREFIX_SHIFT_def mask_eq_exp_minus_1 push_bit_eq_mult)

lemma take_bit_one [simp]: "0 < n \<Longrightarrow> take_bit n (1 :: u64) = 1"
  by (cases n) simp_all

lemma sequence_bits: "take_bit 48 (client_sequence sq) = client_sequence sq"
  by (simp add: client_sequence_def sequence_mask max_def flip: take_bit_eq_mask)

lemma prefix_bits: "take_bit 16 (raft_client_id_prefix i) = raft_client_id_prefix i"
proof -
  have m: "(0xffff :: u64) = mask 16" by (simp add: mask_eq_exp_minus_1)
  show ?thesis unfolding raft_client_id_prefix_def m by (simp add: max_def flip: take_bit_eq_mask)
qed

lemma client_id_fields:
  fixes p s :: u64
  assumes "take_bit 16 p = p" and "take_bit 48 s = s"
  shows "drop_bit 48 (push_bit 48 p OR s) = p" and "take_bit 48 (push_bit 48 p OR s) = s"
proof -
  have p: "bit p n \<Longrightarrow> n < 16" for n using assms(1) by (metis bit_take_bit_iff)
  have s: "bit s n \<Longrightarrow> n < 48" for n using assms(2) by (metis bit_take_bit_iff)
  show "drop_bit 48 (push_bit 48 p OR s) = p"
    using p s by (intro bit_word_eqI) (auto simp: bit_drop_bit_eq bit_or_iff bit_push_bit_iff dest: s)
  show "take_bit 48 (push_bit 48 p OR s) = s"
    using s by (intro bit_word_eqI) (auto simp: bit_take_bit_iff bit_or_iff bit_push_bit_iff)
qed

lemma client_id_eq_iff:
  "raft_client_id_for_node i s = raft_client_id_for_node j t \<longleftrightarrow>
     raft_client_id_prefix i = raft_client_id_prefix j \<and> client_sequence s = client_sequence t"
proof -
  have id: "raft_client_id_for_node i s = push_bit 48 (raft_client_id_prefix i) OR client_sequence s" for i s
    by (simp add: raft_client_id_for_node_def client_sequence_def RAFT_CLIENT_ID_PREFIX_SHIFT_def)
  note f = client_id_fields [OF prefix_bits sequence_bits]
  show ?thesis unfolding id using f by metis
qed

lemma client_id_nonzero: "raft_client_id_for_node i s \<noteq> 0"
proof
  assume 0: "raft_client_id_for_node i s = 0"
  have "client_sequence s = take_bit 48 (raft_client_id_for_node i s)"
    using client_id_fields(2) [OF prefix_bits sequence_bits]
    by (simp add: raft_client_id_for_node_def client_sequence_def RAFT_CLIENT_ID_PREFIX_SHIFT_def)
  with 0 have "client_sequence s = 0" by simp
  then show False by (simp add: client_sequence_def max_def split: if_splits)
qed

lemma valid_prefixes:
  assumes "membership_valid am m"
  shows "prefixes_ok (validation_peers m)"
  using assms by (cases m) (auto simp: voters_valid_def)

end
