(* ===== verification/Raft_Commands.thy ===== *)
theory Raft_Commands
  imports Raft_Validation Protocol
begin

text \<open>
  The commands of the replicated log, from \<open>src/broker_raft.rs\<close>: their validation, the grants
  that are fixed by the index of an entry, and the request ids that make a retried request
  take effect once.  \<open>fp\<close> stands for the fingerprint of a request, the SHA-256 of what
  \<open>serde_json\<close> writes; it is \<open>None\<close> where the serialiser reports an error.
\<close>

record raft_grant_plan =
  gp_lock_uuid :: "string option"
  gp_fencing_seed :: "u64 option"

datatype raft_command =
    Noop
  | ClientRequest u64 request "raft_grant_plan option"
  | ClientRequestWithIdentity u64 request "raft_grant_plan option" string string
  | DropClient u64
  | SetMembership raft_membership
  | SetStagedLearners "raft_peer list"

record raft_log_entry =
  le_index :: u64
  le_term :: u64
  le_created_at_ms :: u64
  le_command :: raft_command

datatype request_error = CompositeEmpty | CompositeTooMany nat | NotReplicable

datatype (plugins only: code) raft_error =
    InvalidConfig config_error
  | UnsupportedReplicated request_error
  | EmptyRequestId | EmptyFingerprint | FingerprintFailed | FingerprintMismatch
  | EntryCommand u64 raft_error
  | EntryMembership u64 raft_error
  | EntryLearners u64 raft_error
  | EntryIndexZero
  | EntryTermZero u64
  | IndexOverflow u64
  | NotContiguous u64 u64
  | TermDecreases u64 u64 u64
  | LogStartsLate u64
  | LogEndsEarly u64 u64
  | SnapshotGap u64 u64
  | SnapshotEntryMissing u64
  | SnapshotTermMismatch u64 u64 u64
  | PrefixTooLong nat nat
  | ByteCacheMismatch nat nat
  | SuffixTooLong nat nat
  | LengthOverflow
  | LeaderTermZero | PrevTermNotZero | PrevTermZero | PrevTermAhead | PrevIndexTooLarge
  | EntryTermAhead u64 u64 u64
  | RequestIdReused u64 string
  | SnapshotIdReused u64 string
  | RetainedIdReused u64 string
  | IncomingIdReused u64 string
  | TermIndexStale u64
  | LogMatchingViolated u64 u64
  | RewritesCommitted u64 u64
  | FillsCommitted u64 u64
  | LocalTermZero
  | LocalTermOld u64 u64
  | VoteReplaced string string u64
  | GenerationOverflow
  | NoSnapshot
  | CompactionAheadOfSnapshot u64 u64
  | Io
  | ReloadFailed raft_error

section \<open>Which requests are replicated\<close>

definition RAFT_MAX_COMPOSITE_KEYS :: nat where
  "RAFT_MAX_COMPOSITE_KEYS = 3"

definition ensure_supported_raft_composite_keys :: "string list \<Rightarrow> request_error + unit" where
  "ensure_supported_raft_composite_keys ks =
     (if ks = [] then Inl CompositeEmpty
      else (let d = fcard (fset_of_list ks) in
            if RAFT_MAX_COMPOSITE_KEYS < d then Inl (CompositeTooMany d) else Inr ()))"

fun ensure_supported_raft_client_request :: "request \<Rightarrow> request_error + unit" where
  "ensure_supported_raft_client_request (ReqLock l) =
     (case lk_keys l of Some ks \<Rightarrow> ensure_supported_raft_composite_keys ks | None \<Rightarrow> Inr ())"
| "ensure_supported_raft_client_request (ReqUnlock u) =
     (case ul_keys u of Some ks \<Rightarrow> ensure_supported_raft_composite_keys ks | None \<Rightarrow> Inr ())"
| "ensure_supported_raft_client_request _ = Inr ()"

fun ensure_replicable_raft_client_request :: "request \<Rightarrow> request_error + unit" where
  "ensure_replicable_raft_client_request (ReqVersion _ _) = Inl NotReplicable"
| "ensure_replicable_raft_client_request (ReqAuth _ _) = Inl NotReplicable"
| "ensure_replicable_raft_client_request (ReqHeartbeat _) = Inl NotReplicable"
| "ensure_replicable_raft_client_request r = ensure_supported_raft_client_request r"

definition validate_replicated_client_request :: "request \<Rightarrow> raft_error + unit" where
  "validate_replicated_client_request r =
     (case ensure_replicable_raft_client_request r of
        Inl e \<Rightarrow> Inl (UnsupportedReplicated e) | Inr _ \<Rightarrow> Inr ())"

fun validate_raft_command :: "(request \<Rightarrow> string option) \<Rightarrow> raft_command \<Rightarrow> raft_error + unit" where
  "validate_raft_command fp (SetMembership m) =
     (case validate_raft_membership_for_transport m True of
        Inl e \<Rightarrow> Inl (InvalidConfig e) | Inr _ \<Rightarrow> Inr ())"
| "validate_raft_command fp (SetStagedLearners ls) =
     (case validate_staged_learner_peers_for_transport ls [] True of
        Inl e \<Rightarrow> Inl (InvalidConfig e) | Inr _ \<Rightarrow> Inr ())"
| "validate_raft_command fp (ClientRequestWithIdentity c r g request_id fingerprint) =
     (case validate_replicated_client_request r of
        Inl e \<Rightarrow> Inl e
      | Inr _ \<Rightarrow>
          if request_id = [] then Inl EmptyRequestId
          else if fingerprint = [] then Inl EmptyFingerprint
          else case fp r of
            None \<Rightarrow> Inl FingerprintFailed
          | Some expected \<Rightarrow> if fingerprint \<noteq> expected then Inl FingerprintMismatch else Inr ())"
| "validate_raft_command fp (ClientRequest c r g) = validate_replicated_client_request r"
| "validate_raft_command fp Noop = Inr ()"
| "validate_raft_command fp (DropClient c) = Inr ()"

fun validate_staged_learner_entries_against_membership ::
  "raft_membership \<Rightarrow> raft_log_entry list \<Rightarrow> bool \<Rightarrow> raft_error + raft_membership" where
  "validate_staged_learner_entries_against_membership m [] allow_memory = Inr m"
| "validate_staged_learner_entries_against_membership m (e # es) allow_memory =
     (case le_command e of
        SetMembership next_m \<Rightarrow>
          (case validate_raft_membership_for_transport next_m allow_memory of
             Inl err \<Rightarrow> Inl (EntryMembership (le_index e) (InvalidConfig err))
           | Inr m' \<Rightarrow> validate_staged_learner_entries_against_membership m' es allow_memory)
      | SetStagedLearners ls \<Rightarrow>
          (case validate_staged_learner_peers_for_transport ls (validation_peers m) allow_memory of
             Inl err \<Rightarrow> Inl (EntryLearners (le_index e) (InvalidConfig err))
           | Inr _ \<Rightarrow> validate_staged_learner_entries_against_membership m es allow_memory)
      | _ \<Rightarrow> validate_staged_learner_entries_against_membership m es allow_memory)"

section \<open>Grants fixed by the index of an entry\<close>

definition RAFT_FENCING_TOKEN_BASE :: u64 where
  "RAFT_FENCING_TOKEN_BASE = 4000000000000000"

definition saturating_mul :: "u64 \<Rightarrow> u64 \<Rightarrow> u64" where
  "saturating_mul a b = (if unat a * unat b < 2 ^ 64 then a * b else - 1)"

definition deterministic_fencing_seed :: "u64 \<Rightarrow> u64" where
  "deterministic_fencing_seed index =
     saturating_add RAFT_FENCING_TOKEN_BASE (saturating_mul index (of_nat (MAX_COMPOSITE_KEYS + 1)))"

fun decimal_digits :: "nat \<Rightarrow> nat \<Rightarrow> string" where
  "decimal_digits 0 n = []"
| "decimal_digits (Suc w) n = decimal_digits w (n div 10) @ [char_of (48 + n mod 10)]"

text \<open>\<open>{index:020}\<close>: every \<open>u64\<close> has at most twenty digits, so the padding never grows.\<close>

definition deterministic_lock_uuid :: "u64 \<Rightarrow> string" where
  "deterministic_lock_uuid index = ''raft-'' @ decimal_digits 20 (unat index)"

fun request_can_grant :: "request \<Rightarrow> bool" where
  "request_can_grant (ReqLock _) = True"
| "request_can_grant (ReqRegisterRead _ _) = True"
| "request_can_grant (ReqRegisterWrite _ _) = True"
| "request_can_grant _ = False"

definition deterministic_grant_plan :: "request \<Rightarrow> u64 \<Rightarrow> raft_grant_plan option" where
  "deterministic_grant_plan r index =
     (if \<not> request_can_grant r then None
      else Some \<lparr>gp_lock_uuid = Some (deterministic_lock_uuid index),
                 gp_fencing_seed = Some (deterministic_fencing_seed index)\<rparr>)"

definition option_or_else :: "'a option \<Rightarrow> 'a option \<Rightarrow> 'a option" where
  "option_or_else a b = (case a of Some x \<Rightarrow> Some x | None \<Rightarrow> b)"

fun command_with_deterministic_grant :: "raft_command \<Rightarrow> u64 \<Rightarrow> raft_command" where
  "command_with_deterministic_grant (ClientRequest c r g) index =
     ClientRequest c r (option_or_else g (deterministic_grant_plan r index))"
| "command_with_deterministic_grant (ClientRequestWithIdentity c r g i f) index =
     ClientRequestWithIdentity c r (option_or_else g (deterministic_grant_plan r index)) i f"
| "command_with_deterministic_grant other index = other"

definition client_request_identities_from_commands :: "raft_command list \<Rightarrow> (string \<times> string) list" where
  "client_request_identities_from_commands cs =
     List.map_filter (\<lambda>c. case c of ClientRequestWithIdentity _ _ _ i f \<Rightarrow> Some (i, f) | _ \<Rightarrow> None) cs"

section \<open>Request identities in the log\<close>

record retained_fingerprint =
  rf_fingerprint :: string
  rf_first_index :: u64

fun request_identity :: "raft_command \<Rightarrow> (string \<times> string) option" where
  "request_identity (ClientRequestWithIdentity _ _ _ i f) = Some (i, f)"
| "request_identity _ = None"

fun add_client_request_identity_entries ::
  "(string, string) fmap \<Rightarrow> raft_log_entry list \<Rightarrow> raft_error + (string, string) fmap" where
  "add_client_request_identity_entries fps [] = Inr fps"
| "add_client_request_identity_entries fps (e # es) =
     (case request_identity (le_command e) of
        None \<Rightarrow> add_client_request_identity_entries fps es
      | Some (i, f) \<Rightarrow>
          (case fmlookup fps i of
             Some previous \<Rightarrow>
               if previous \<noteq> f then Inl (RequestIdReused (le_index e) i)
               else add_client_request_identity_entries fps es
           | None \<Rightarrow> add_client_request_identity_entries (fmupd i f fps) es))"

definition validate_client_request_identity_entries ::
  "(string, string) fmap \<Rightarrow> raft_log_entry list \<Rightarrow> raft_error + unit" where
  "validate_client_request_identity_entries fps es =
     (case add_client_request_identity_entries fps es of Inl e \<Rightarrow> Inl e | Inr _ \<Rightarrow> Inr ())"

text \<open>
  The map is changed in place, so a failure leaves the entries before the failing one added.
\<close>

fun add_retained_request_identity_entries ::
  "(string, retained_fingerprint) fmap \<Rightarrow> raft_log_entry list \<Rightarrow>
   (string, retained_fingerprint) fmap \<times> raft_error option" where
  "add_retained_request_identity_entries fps [] = (fps, None)"
| "add_retained_request_identity_entries fps (e # es) =
     (case request_identity (le_command e) of
        None \<Rightarrow> add_retained_request_identity_entries fps es
      | Some (i, f) \<Rightarrow>
          (case fmlookup fps i of
             Some previous \<Rightarrow>
               if rf_fingerprint previous \<noteq> f then (fps, Some (RequestIdReused (le_index e) i))
               else add_retained_request_identity_entries
                      (fmupd i (previous\<lparr>rf_first_index := min (rf_first_index previous) (le_index e)\<rparr>) fps) es
           | None \<Rightarrow>
               add_retained_request_identity_entries
                 (fmupd i \<lparr>rf_fingerprint = f, rf_first_index = le_index e\<rparr> fps) es))"

definition truncate_retained_request_identity_fingerprints ::
  "(string, retained_fingerprint) fmap \<Rightarrow> u64 \<Rightarrow> (string, retained_fingerprint) fmap" where
  "truncate_retained_request_identity_fingerprints fps prefix_last =
     (if prefix_last = 0 then fmempty
      else fmfilter (\<lambda>i. case fmlookup fps i of
                           Some f \<Rightarrow> rf_first_index f \<le> prefix_last | None \<Rightarrow> False) fps)"

definition entries_have_client_request_identities :: "raft_log_entry list \<Rightarrow> bool" where
  "entries_have_client_request_identities es \<longleftrightarrow> list_ex (\<lambda>e. request_identity (le_command e) \<noteq> None) es"

fun repaired_identity_loop ::
  "(string, string) fmap \<Rightarrow> (string, retained_fingerprint) fmap \<Rightarrow> u64 \<Rightarrow> raft_log_entry list \<Rightarrow>
   (string, string) fmap \<Rightarrow> raft_error + unit" where
  "repaired_identity_loop snap ret prefix_last [] incoming = Inr ()"
| "repaired_identity_loop snap ret prefix_last (e # es) incoming =
     (case request_identity (le_command e) of
        None \<Rightarrow> repaired_identity_loop snap ret prefix_last es incoming
      | Some (i, f) \<Rightarrow>
          if (case fmlookup snap i of Some sf \<Rightarrow> sf \<noteq> f | None \<Rightarrow> False)
          then Inl (SnapshotIdReused (le_index e) i)
          else if (case fmlookup ret i of
                     Some rf \<Rightarrow> 0 < prefix_last \<and> rf_first_index rf \<le> prefix_last \<and> rf_fingerprint rf \<noteq> f
                   | None \<Rightarrow> False)
          then Inl (RetainedIdReused (le_index e) i)
          else if (case fmlookup incoming i of Some previous \<Rightarrow> previous \<noteq> f | None \<Rightarrow> False)
          then Inl (IncomingIdReused (le_index e) i)
          else repaired_identity_loop snap ret prefix_last es (fmupd i f incoming))"

definition validate_repaired_request_identity_context ::
  "(string, string) fmap \<Rightarrow> (string, retained_fingerprint) fmap \<Rightarrow> u64 \<Rightarrow> raft_log_entry list \<Rightarrow>
   raft_error + unit" where
  "validate_repaired_request_identity_context snap ret prefix_last suffix =
     (if \<not> entries_have_client_request_identities suffix then Inr ()
      else repaired_identity_loop snap ret prefix_last suffix fmempty)"

end
