(* ===== verification/Raft_Log.thy ===== *)
theory Raft_Log
  imports Raft_Commands
begin

text \<open>
  The log store of \<open>src/broker_raft.rs\<close>: the retained entries with their caches, the
  validation of persisted and received entries, appending as leader and as follower,
  compaction and the persisted vote.  \<open>partition_point\<close> on the sorted entries is the length
  of the prefix that satisfies the predicate.  The file system and the serialiser are the
  record \<open>raft_disk\<close>: the serialised length of an entry, whether a write succeeds, and what
  reading the log back returns.  Telemetry and log messages are left out.
\<close>

section \<open>State\<close>

record raft_hard_state =
  hs_current_term :: u64
  hs_voted_for :: "string option"
  hs_commit_index :: u64

record raft_snapshot_metadata =
  sm_last_included_index :: u64
  sm_last_included_term :: u64
  sm_created_at_ms :: u64
  sm_payload_sha256 :: "string option"

record age_cache =
  ac_max_age_ms :: u64
  ac_oldest_retained_ms :: u64
  ac_max_through_index :: u64
  ac_eligible_index :: "u64 option"

record raft_log_state =
  ls_last_index :: u64
  ls_last_term :: u64
  ls_hard_state :: raft_hard_state
  ls_commit_generation :: u64
  ls_latest_snapshot :: "raft_snapshot_metadata option"
  ls_snapshot_fingerprints :: "(string, string) fmap"
  ls_retained_fingerprints :: "(string, retained_fingerprint) fmap"
  ls_entries :: "raft_log_entry list"
  ls_entry_bytes :: "nat list"
  ls_term_by_index :: "(u64, u64) fmap"
  ls_first_index_by_term :: "(u64, u64) fmap"
  ls_last_index_by_term :: "(u64, u64) fmap"
  ls_age_cache :: "age_cache option"

record raft_append_report =
  ar_success :: bool
  ar_match_index :: u64
  ar_conflict_index :: "u64 option"
  ar_conflict_term :: "u64 option"
  ar_appended_entries :: nat
  ar_rewritten_entries :: nat
  ar_truncated_entries :: nat

record raft_disk =
  dk_entry_len :: "raft_log_entry \<Rightarrow> nat"
  dk_append_ok :: bool
  dk_truncate_ok :: bool
  dk_rewrite_ok :: bool
  dk_hard_state_ok :: bool
  dk_parsed_log :: "raft_log_entry list option"

definition checked_succ :: "u64 \<Rightarrow> u64 option" where
  "checked_succ a = (if a = - 1 then None else Some (a + 1))"

definition saturating_sub :: "u64 \<Rightarrow> u64 \<Rightarrow> u64" where
  "saturating_sub a b = (if b \<le> a then a - b else 0)"

section \<open>Positions in the retained entries\<close>

definition retained_entry_lower_bound :: "raft_log_entry list \<Rightarrow> u64 \<Rightarrow> nat" where
  "retained_entry_lower_bound es index = length (takeWhile (\<lambda>e. le_index e < index) es)"

definition retained_entry_upper_bound :: "raft_log_entry list \<Rightarrow> u64 \<Rightarrow> nat" where
  "retained_entry_upper_bound es index = length (takeWhile (\<lambda>e. le_index e \<le> index) es)"

definition retained_entry_at :: "raft_log_entry list \<Rightarrow> u64 \<Rightarrow> raft_log_entry option" where
  "retained_entry_at es index =
     (let pos = retained_entry_lower_bound es index in
      if pos < length es \<and> le_index (es ! pos) = index then Some (es ! pos) else None)"

definition entries_from_cached :: "raft_log_entry list \<Rightarrow> u64 \<Rightarrow> raft_log_entry list" where
  "entries_from_cached es index = drop (retained_entry_lower_bound es (max index 1)) es"

definition entries_range_cached :: "raft_log_entry list \<Rightarrow> u64 \<Rightarrow> u64 \<Rightarrow> raft_log_entry list" where
  "entries_range_cached es start_index end_index =
     (if end_index < start_index then []
      else (let start = retained_entry_lower_bound es (max start_index 1);
                stop = retained_entry_upper_bound es end_index
            in drop start (take stop es)))"

section \<open>Validation\<close>

fun validate_persisted_loop ::
  "(request \<Rightarrow> string option) \<Rightarrow> raft_log_entry option \<Rightarrow> raft_log_entry list \<Rightarrow> raft_error + unit" where
  "validate_persisted_loop fp previous [] = Inr ()"
| "validate_persisted_loop fp previous (e # es) =
     (if le_index e = 0 then Inl EntryIndexZero
      else if le_term e = 0 then Inl (EntryTermZero (le_index e))
      else case (case previous of
                   None \<Rightarrow> Inr ()
                 | Some prev \<Rightarrow>
                     (case checked_succ (le_index prev) of
                        None \<Rightarrow> Inl (IndexOverflow (le_index prev))
                      | Some expected \<Rightarrow>
                          if le_index e \<noteq> expected then Inl (NotContiguous (le_index e) expected)
                          else if le_term e < le_term prev
                          then Inl (TermDecreases (le_index e) (le_term e) (le_term prev))
                          else Inr ())) of
        Inl err \<Rightarrow> Inl err
      | Inr _ \<Rightarrow>
          (case validate_raft_command fp (le_command e) of
             Inl err \<Rightarrow> Inl (EntryCommand (le_index e) err)
           | Inr _ \<Rightarrow> validate_persisted_loop fp (Some e) es))"

definition validate_persisted_log_entries ::
  "(request \<Rightarrow> string option) \<Rightarrow> raft_log_entry list \<Rightarrow> raft_error + unit" where
  "validate_persisted_log_entries fp es = validate_persisted_loop fp None es"

definition validate_snapshot_log_boundary ::
  "raft_log_entry list \<Rightarrow> raft_snapshot_metadata option \<Rightarrow> raft_error + unit" where
  "validate_snapshot_log_boundary es latest =
     (if es = [] then Inr ()
      else (let first = hd es; final = last es in
        case latest of
          None \<Rightarrow> if le_index first \<noteq> 1 then Inl (LogStartsLate (le_index first)) else Inr ()
        | Some snap \<Rightarrow>
            (let si = sm_last_included_index snap; st = sm_last_included_term snap in
             if le_index final < si then Inl (LogEndsEarly (le_index final) si)
             else case checked_succ si of
               None \<Rightarrow> Inl (IndexOverflow si)
             | Some max_first \<Rightarrow>
                 if max_first < le_index first then Inl (SnapshotGap (le_index first) si)
                 else if le_index first \<le> si then
                   (case find (\<lambda>e. le_index e = si) es of
                      None \<Rightarrow> Inl (SnapshotEntryMissing si)
                    | Some e \<Rightarrow>
                        if le_term e \<noteq> st then Inl (SnapshotTermMismatch (le_term e) si st) else Inr ())
                 else Inr ())))"

definition validate_log_entries_for_snapshot ::
  "(request \<Rightarrow> string option) \<Rightarrow> raft_log_entry list \<Rightarrow> raft_snapshot_metadata option \<Rightarrow> raft_error + unit" where
  "validate_log_entries_for_snapshot fp es latest =
     (case validate_persisted_log_entries fp es of
        Inl e \<Rightarrow> Inl e | Inr _ \<Rightarrow> validate_snapshot_log_boundary es latest)"

definition validate_repaired_log_suffix ::
  "(request \<Rightarrow> string option) \<Rightarrow> raft_log_entry list \<Rightarrow> nat \<Rightarrow> raft_log_entry list \<Rightarrow>
   raft_snapshot_metadata option \<Rightarrow> raft_error + unit" where
  "validate_repaired_log_suffix fp retained prefix_len suffix latest =
     (if length retained < prefix_len then Inl (PrefixTooLong prefix_len (length retained))
      else (let prefix = take prefix_len retained in
        case validate_persisted_log_entries fp suffix of
          Inl e \<Rightarrow> Inl e
        | Inr _ \<Rightarrow>
          (case validate_snapshot_log_boundary (if prefix = [] then suffix else prefix) latest of
             Inl e \<Rightarrow> Inl e
           | Inr _ \<Rightarrow>
             if prefix = [] \<or> suffix = [] then Inr ()
             else (let prev = last prefix; first = hd suffix in
               case checked_succ (le_index prev) of
                 None \<Rightarrow> Inl (IndexOverflow (le_index prev))
               | Some expected \<Rightarrow>
                   if le_index first \<noteq> expected then Inl (NotContiguous (le_index first) expected)
                   else if le_term first < le_term prev
                   then Inl (TermDecreases (le_index first) (le_term first) (le_term prev))
                   else Inr ()))))"

fun append_shape_loop ::
  "(request \<Rightarrow> string option) \<Rightarrow> u64 \<Rightarrow> u64 \<Rightarrow> u64 \<Rightarrow> raft_log_entry list \<Rightarrow> raft_error + unit" where
  "append_shape_loop fp leader_term expected prev_term [] = Inr ()"
| "append_shape_loop fp leader_term expected prev_term (e # es) =
     (if le_index e = 0 then Inl EntryIndexZero
      else if le_index e \<noteq> expected then Inl (NotContiguous (le_index e) expected)
      else if le_term e = 0 then Inl (EntryTermZero (le_index e))
      else if le_term e < prev_term then Inl (TermDecreases (le_index e) (le_term e) prev_term)
      else if leader_term < le_term e then Inl (EntryTermAhead (le_index e) (le_term e) leader_term)
      else case validate_raft_command fp (le_command e) of
        Inl err \<Rightarrow> Inl (EntryCommand (le_index e) err)
      | Inr _ \<Rightarrow>
          if es = [] then Inr ()
          else case checked_succ (le_index e) of
            None \<Rightarrow> Inl (IndexOverflow (le_index e))
          | Some expected' \<Rightarrow> append_shape_loop fp leader_term expected' (le_term e) es)"

definition validate_append_entries_shape ::
  "(request \<Rightarrow> string option) \<Rightarrow> u64 \<Rightarrow> u64 \<Rightarrow> u64 \<Rightarrow> raft_log_entry list \<Rightarrow> raft_error + unit" where
  "validate_append_entries_shape fp prev_index prev_term leader_term es =
     (if leader_term = 0 then Inl LeaderTermZero
      else if prev_index = 0 \<and> prev_term \<noteq> 0 then Inl PrevTermNotZero
      else if 0 < prev_index \<and> prev_term = 0 then Inl PrevTermZero
      else if leader_term < prev_term then Inl PrevTermAhead
      else case checked_succ prev_index of
        None \<Rightarrow> if es = [] then Inr () else Inl PrevIndexTooLarge
      | Some expected \<Rightarrow> append_shape_loop fp leader_term expected prev_term es)"

datatype hint_reason =
    ConflictTermZero | ConflictTermAhead | ConflictIndexMissing | ConflictIndexZero
  | MatchAtNext | MatchAtPrev | ConflictAtNext

definition invalid_append_conflict_hint_reason ::
  "u64 option \<Rightarrow> u64 option \<Rightarrow> u64 \<Rightarrow> u64 \<Rightarrow> u64 \<Rightarrow> u64 \<Rightarrow> hint_reason option" where
  "invalid_append_conflict_hint_reason conflict_term conflict_index match_index prev_index next_index response_term =
     (if conflict_term = Some 0 then Some ConflictTermZero
      else if (case conflict_term of Some t \<Rightarrow> response_term < t | None \<Rightarrow> False) then Some ConflictTermAhead
      else if conflict_term \<noteq> None \<and> conflict_index = None then Some ConflictIndexMissing
      else if conflict_index = Some 0 then Some ConflictIndexZero
      else if next_index \<le> match_index then Some MatchAtNext
      else if 0 < prev_index \<and> prev_index \<le> match_index then Some MatchAtPrev
      else if conflict_term \<noteq> None \<and> (case conflict_index of Some i \<Rightarrow> next_index \<le> i | None \<Rightarrow> False)
      then Some ConflictAtNext
      else None)"

datatype vote_reason = VoteTermZero | LastTermNotZero | LastTermZero | LastTermAhead

definition malformed_vote_request_reason :: "u64 \<Rightarrow> u64 \<Rightarrow> u64 \<Rightarrow> vote_reason option" where
  "malformed_vote_request_reason term last_index last_term =
     (if term = 0 then Some VoteTermZero
      else if last_index = 0 \<and> last_term \<noteq> 0 then Some LastTermNotZero
      else if 0 < last_index \<and> last_term = 0 then Some LastTermZero
      else if term < last_term then Some LastTermAhead
      else None)"

section \<open>Terms\<close>

definition term_at_index :: "raft_log_state \<Rightarrow> u64 \<Rightarrow> u64 option" where
  "term_at_index s index =
     (if index = 0 then Some 0
      else case fmlookup (ls_term_by_index s) index of
        Some t \<Rightarrow> Some t
      | None \<Rightarrow>
          (case ls_latest_snapshot s of
             None \<Rightarrow> None
           | Some snap \<Rightarrow>
               if sm_last_included_index snap = index then Some (sm_last_included_term snap) else None))"

definition snapshot_term_match :: "raft_log_state \<Rightarrow> u64 \<Rightarrow> u64 option" where
  "snapshot_term_match s t =
     (case ls_latest_snapshot s of
        None \<Rightarrow> None
      | Some snap \<Rightarrow>
          if sm_last_included_term snap = t then Some (sm_last_included_index snap) else None)"

definition first_index_for_term :: "raft_log_state \<Rightarrow> u64 \<Rightarrow> u64 option" where
  "first_index_for_term s t =
     option_or_else (fmlookup (ls_first_index_by_term s) t) (snapshot_term_match s t)"

definition last_index_for_term :: "raft_log_state \<Rightarrow> u64 \<Rightarrow> u64 option" where
  "last_index_for_term s t =
     option_or_else (fmlookup (ls_last_index_by_term s) t) (snapshot_term_match s t)"

definition or_insert :: "'k \<Rightarrow> 'v \<Rightarrow> ('k, 'v) fmap \<Rightarrow> ('k, 'v) fmap" where
  "or_insert k v m = (if fmlookup m k = None then fmupd k v m else m)"

type_synonym term_indexes = "(u64, u64) fmap \<times> (u64, u64) fmap \<times> (u64, u64) fmap"

fun add_term_index :: "raft_log_entry \<Rightarrow> term_indexes \<Rightarrow> term_indexes" where
  "add_term_index e (tbi, fibt, libt) =
     (fmupd (le_index e) (le_term e) tbi, or_insert (le_term e) (le_index e) fibt,
      fmupd (le_term e) (le_index e) libt)"

definition term_indexes_from_entries :: "raft_log_entry list \<Rightarrow> term_indexes" where
  "term_indexes_from_entries es = fold add_term_index es (fmempty, fmempty, fmempty)"

definition state_term_indexes :: "raft_log_state \<Rightarrow> term_indexes" where
  "state_term_indexes s = (ls_term_by_index s, ls_first_index_by_term s, ls_last_index_by_term s)"

definition put_term_indexes :: "term_indexes \<Rightarrow> raft_log_state \<Rightarrow> raft_log_state" where
  "put_term_indexes x s =
     s\<lparr>ls_term_by_index := fst x, ls_first_index_by_term := fst (snd x), ls_last_index_by_term := snd (snd x)\<rparr>"

end
