(* ===== verification/Raft_Log_Store.thy ===== *)
theory Raft_Log_Store
  imports Raft_Log
begin

text \<open>
  The operations of \<open>RaftLogStore\<close> in \<open>src/broker_raft.rs\<close> that change its state.  An operation
  returns the state it leaves and its result, since a failing write may leave the state
  changed.  \<open>fp\<close> is the fingerprint function, \<open>D\<close> the disk, \<open>trailing\<close> the setting
  \<open>startup_trailing_log_entries\<close>.
\<close>

section \<open>Lengths of serialised entries\<close>

definition validate_retained_log_entry_bytes_len :: "nat \<Rightarrow> nat \<Rightarrow> raft_error + unit" where
  "validate_retained_log_entry_bytes_len n sizes =
     (if n \<noteq> sizes then Inl (ByteCacheMismatch sizes n) else Inr ())"

definition retained_log_entry_file_len :: "nat \<Rightarrow> raft_error + nat" where
  "retained_log_entry_file_len n = (if n + 1 < 2 ^ 64 then Inr (n + 1) else Inl LengthOverflow)"

definition checked_add_len :: "nat \<Rightarrow> nat \<Rightarrow> raft_error + nat" where
  "checked_add_len a b = (if a + b < 2 ^ 64 then Inr (a + b) else Inl LengthOverflow)"

fun sum_line_lens :: "nat \<Rightarrow> nat list \<Rightarrow> raft_error + nat" where
  "sum_line_lens acc [] = Inr acc"
| "sum_line_lens acc (n # ns) =
     (case retained_log_entry_file_len n of
        Inl e \<Rightarrow> Inl e
      | Inr line \<Rightarrow> (case checked_add_len acc line of Inl e \<Rightarrow> Inl e | Inr acc' \<Rightarrow> sum_line_lens acc' ns))"

definition retained_prefix_file_len :: "nat list \<Rightarrow> nat \<Rightarrow> raft_error + nat" where
  "retained_prefix_file_len sizes prefix_len =
     (if length sizes < prefix_len then Inl (PrefixTooLong prefix_len (length sizes))
      else sum_line_lens 0 (take prefix_len sizes))"

definition retained_log_prefix_file_len ::
  "raft_log_entry list \<Rightarrow> nat list \<Rightarrow> nat \<Rightarrow> raft_error + nat" where
  "retained_log_prefix_file_len es sizes prefix_len =
     (case validate_retained_log_entry_bytes_len (length es) (length sizes) of
        Inl e \<Rightarrow> Inl e | Inr _ \<Rightarrow> retained_prefix_file_len sizes prefix_len)"

definition retained_log_entry_bytes_suffix ::
  "raft_log_entry list \<Rightarrow> nat list \<Rightarrow> nat \<Rightarrow> raft_error + nat list" where
  "retained_log_entry_bytes_suffix es sizes start =
     (case validate_retained_log_entry_bytes_len (length es) (length sizes) of
        Inl e \<Rightarrow> Inl e
      | Inr _ \<Rightarrow>
          if length es < start then Inl (SuffixTooLong start (length es)) else Inr (drop start sizes))"

section \<open>Replacing the retained entries\<close>

definition snapshot_index :: "raft_log_state \<Rightarrow> u64" where
  "snapshot_index s = (case ls_latest_snapshot s of Some snap \<Rightarrow> sm_last_included_index snap | None \<Rightarrow> 0)"

definition retained_request_identity_fingerprints_after ::
  "raft_log_entry list \<Rightarrow> u64 \<Rightarrow> raft_error + (string, retained_fingerprint) fmap" where
  "retained_request_identity_fingerprints_after es after =
     (case add_retained_request_identity_entries fmempty (drop (retained_entry_upper_bound es after) es) of
        (fps, None) \<Rightarrow> Inr fps
      | (_, Some e) \<Rightarrow> Inl e)"

text \<open>The end of the log: of the entries, else of the snapshot, else nothing.\<close>

definition log_end :: "raft_log_entry list \<Rightarrow> raft_snapshot_metadata option \<Rightarrow> u64 \<times> u64" where
  "log_end es latest =
     (if es \<noteq> [] then (le_index (last es), le_term (last es))
      else case latest of
        Some snap \<Rightarrow> (sm_last_included_index snap, sm_last_included_term snap)
      | None \<Rightarrow> (0, 0))"

definition replace_retained_log_state_with_fingerprints ::
  "raft_log_state \<Rightarrow> raft_log_entry list \<Rightarrow> nat list \<Rightarrow> (string, retained_fingerprint) fmap \<Rightarrow>
   raft_error + raft_log_state" where
  "replace_retained_log_state_with_fingerprints s retained sizes fps =
     (case validate_retained_log_entry_bytes_len (length retained) (length sizes) of
        Inl e \<Rightarrow> Inl e
      | Inr _ \<Rightarrow>
          Inr (put_term_indexes (term_indexes_from_entries retained)
            (s\<lparr>ls_last_index := fst (log_end retained (ls_latest_snapshot s)),
               ls_last_term := snd (log_end retained (ls_latest_snapshot s)),
               ls_entries := retained, ls_entry_bytes := sizes,
               ls_retained_fingerprints := fps, ls_age_cache := None\<rparr>)))"

definition replace_retained_log_state ::
  "raft_log_state \<Rightarrow> raft_log_entry list \<Rightarrow> nat list \<Rightarrow> raft_error + raft_log_state" where
  "replace_retained_log_state s retained sizes =
     (case validate_retained_log_entry_bytes_len (length retained) (length sizes) of
        Inl e \<Rightarrow> Inl e
      | Inr _ \<Rightarrow>
        (case retained_request_identity_fingerprints_after retained (snapshot_index s) of
           Inl e \<Rightarrow> Inl e
         | Inr fps \<Rightarrow> replace_retained_log_state_with_fingerprints s retained sizes fps))"

record reconciled_log =
  rl_entries :: "raft_log_entry list"
  rl_rewrite_needed :: bool

definition reconcile_persisted_log_with_snapshot ::
  "raft_log_entry list \<Rightarrow> raft_snapshot_metadata option \<Rightarrow> u64 \<Rightarrow> raft_error + reconciled_log" where
  "reconcile_persisted_log_with_snapshot es latest trailing =
     (let kept = (\<lambda>xs. Inr \<lparr>rl_entries = xs, rl_rewrite_needed = False\<rparr>);
          dropped = Inr \<lparr>rl_entries = [], rl_rewrite_needed = True\<rparr>
      in case latest of
        None \<Rightarrow> (case validate_snapshot_log_boundary es None of Inl e \<Rightarrow> Inl e | Inr _ \<Rightarrow> kept es)
      | Some snap \<Rightarrow>
        if es = [] then kept es
        else (let si = sm_last_included_index snap in
          if le_index (last es) < si then dropped
          else case checked_succ si of
            None \<Rightarrow> Inl (IndexOverflow si)
          | Some max_first \<Rightarrow>
              if max_first < le_index (hd es) then Inl (SnapshotGap (le_index (hd es)) si)
              else if le_index (hd es) \<le> si then
                (if (case retained_entry_at es si of
                       Some e \<Rightarrow> le_term e = sm_last_included_term snap | None \<Rightarrow> False)
                 then (let floor = saturating_add (saturating_sub si trailing) 1;
                           start = retained_entry_lower_bound es floor;
                           retained = drop start es
                       in case validate_snapshot_log_boundary retained (Some snap) of
                            Inl e \<Rightarrow> Inl e
                          | Inr _ \<Rightarrow> Inr \<lparr>rl_entries = retained, rl_rewrite_needed = (0 < start)\<rparr>)
                 else dropped)
              else (case validate_snapshot_log_boundary es (Some snap) of
                      Inl e \<Rightarrow> Inl e | Inr _ \<Rightarrow> kept es)))"

definition read_log_entries ::
  "(request \<Rightarrow> string option) \<Rightarrow> raft_disk \<Rightarrow> raft_error + raft_log_entry list" where
  "read_log_entries fp D =
     (case dk_parsed_log D of
        None \<Rightarrow> Inl Io
      | Some es \<Rightarrow> (case validate_persisted_log_entries fp es of Inl e \<Rightarrow> Inl e | Inr _ \<Rightarrow> Inr es))"

definition reload_retained_log_from_disk_locked ::
  "(request \<Rightarrow> string option) \<Rightarrow> raft_disk \<Rightarrow> u64 \<Rightarrow> raft_log_state \<Rightarrow> raft_error + raft_log_state" where
  "reload_retained_log_from_disk_locked fp D trailing s =
     (case read_log_entries fp D of
        Inl e \<Rightarrow> Inl e
      | Inr persisted \<Rightarrow>
        (case reconcile_persisted_log_with_snapshot persisted (ls_latest_snapshot s) trailing of
           Inl e \<Rightarrow> Inl e
         | Inr r \<Rightarrow>
             if rl_rewrite_needed r \<and> \<not> dk_rewrite_ok D then Inl Io
             else replace_retained_log_state s (rl_entries r) (map (dk_entry_len D) (rl_entries r))))"

section \<open>Appending\<close>

text \<open>What both kinds of append do to the caches once the entries are on disk.\<close>

definition append_to_caches :: "raft_disk \<Rightarrow> raft_log_entry list \<Rightarrow> raft_log_state \<Rightarrow> raft_log_state" where
  "append_to_caches D es s =
     (let s1 = (if es = [] then s
                else s\<lparr>ls_last_index := le_index (last es), ls_last_term := le_term (last es)\<rparr>);
          s2 = put_term_indexes (fold add_term_index es (state_term_indexes s1)) s1
      in s2\<lparr>ls_entries := ls_entries s @ es, ls_entry_bytes := ls_entry_bytes s @ map (dk_entry_len D) es\<rparr>)"

fun validate_commands :: "(request \<Rightarrow> string option) \<Rightarrow> raft_command list \<Rightarrow> raft_error + unit" where
  "validate_commands fp [] = Inr ()"
| "validate_commands fp (c # cs) =
     (case validate_raft_command fp c of Inl e \<Rightarrow> Inl e | Inr _ \<Rightarrow> validate_commands fp cs)"

definition batch_entries :: "u64 \<Rightarrow> u64 \<Rightarrow> u64 \<Rightarrow> raft_command list \<Rightarrow> raft_log_entry list" where
  "batch_entries last_index term now cs =
     map (\<lambda>(offset, c). \<lparr>le_index = saturating_add last_index (of_nat offset + 1), le_term = term,
                          le_created_at_ms = now, le_command = c\<rparr>) (List.enumerate 0 cs)"

definition append_batch ::
  "(request \<Rightarrow> string option) \<Rightarrow> raft_disk \<Rightarrow> u64 \<Rightarrow> u64 \<Rightarrow> raft_command list \<Rightarrow> raft_log_state \<Rightarrow>
   raft_log_state \<times> (raft_error + raft_log_entry list)" where
  "append_batch fp D now term cs s =
     (if cs = [] then (s, Inr [])
      else case validate_commands fp cs of
        Inl e \<Rightarrow> (s, Inl e)
      | Inr _ \<Rightarrow>
        if term = 0 then (s, Inl LocalTermZero)
        else if term < ls_last_term s then (s, Inl (LocalTermOld term (ls_last_term s)))
        else (let es = batch_entries (ls_last_index s) term now cs in
          case validate_repaired_request_identity_context (ls_snapshot_fingerprints s)
                 (ls_retained_fingerprints s) (ls_last_index s) es of
            Inl e \<Rightarrow> (s, Inl e)
          | Inr _ \<Rightarrow>
            if \<not> dk_append_ok D then (s, Inl Io)
            else (let s1 = append_to_caches D es s in
              case add_retained_request_identity_entries (ls_retained_fingerprints s1) es of
                (fps, Some e) \<Rightarrow> (s1\<lparr>ls_retained_fingerprints := fps\<rparr>, Inl e)
              | (fps, None) \<Rightarrow> (s1\<lparr>ls_retained_fingerprints := fps\<rparr>, Inr es))))"

definition rejected :: "u64 \<Rightarrow> u64 option \<Rightarrow> u64 option \<Rightarrow> raft_append_report" where
  "rejected match_index conflict_index conflict_term =
     \<lparr>ar_success = False, ar_match_index = match_index, ar_conflict_index = conflict_index,
      ar_conflict_term = conflict_term, ar_appended_entries = 0, ar_rewritten_entries = 0,
      ar_truncated_entries = 0\<rparr>"

definition append_entries_prev_conflict ::
  "u64 \<Rightarrow> u64 \<Rightarrow> raft_log_state \<Rightarrow> raft_append_report option" where
  "append_entries_prev_conflict prev_index prev_term s =
     (if ls_last_index s < prev_index
      then Some (rejected (ls_last_index s) (Some (saturating_add (ls_last_index s) 1)) None)
      else (let upto = min (ls_last_index s) (saturating_sub prev_index 1) in
        case term_at_index s prev_index of
          Some t \<Rightarrow>
            if t = prev_term then None else Some (rejected upto (first_index_for_term s t) (Some t))
        | None \<Rightarrow> Some (rejected upto (Some (saturating_add (snapshot_index s) 1)) None)))"

datatype scan = Matched | Rewrite nat | Append nat | Refused raft_error

fun scan_incoming :: "raft_log_state \<Rightarrow> nat \<Rightarrow> raft_log_entry list \<Rightarrow> scan" where
  "scan_incoming s pos [] = Matched"
| "scan_incoming s pos (e # es) =
     (case fmlookup (ls_term_by_index s) (le_index e) of
        Some local_term \<Rightarrow>
          if local_term = le_term e then
            (case retained_entry_at (ls_entries s) (le_index e) of
               None \<Rightarrow> Refused (TermIndexStale (le_index e))
             | Some local_entry \<Rightarrow>
                 if le_command local_entry \<noteq> le_command e
                 then Refused (LogMatchingViolated (le_index e) (le_term e))
                 else scan_incoming s (Suc pos) es)
          else Rewrite pos
      | None \<Rightarrow> if le_index e \<le> ls_last_index s then Rewrite pos else Append pos)"

definition accepted :: "u64 \<Rightarrow> nat \<Rightarrow> nat \<Rightarrow> nat \<Rightarrow> raft_append_report" where
  "accepted match_index appended rewritten truncated =
     \<lparr>ar_success = True, ar_match_index = match_index, ar_conflict_index = None,
      ar_conflict_term = None, ar_appended_entries = appended, ar_rewritten_entries = rewritten,
      ar_truncated_entries = truncated\<rparr>"

text \<open>After a failed write or cache update the retained log is read back from disk.\<close>

definition reload_after ::
  "(request \<Rightarrow> string option) \<Rightarrow> raft_disk \<Rightarrow> u64 \<Rightarrow> raft_error \<Rightarrow> raft_log_state \<Rightarrow>
   raft_log_state \<times> (raft_error + raft_append_report)" where
  "reload_after fp D trailing err s =
     (case reload_retained_log_from_disk_locked fp D trailing s of
        Inl e \<Rightarrow> (s, Inl (ReloadFailed e))
      | Inr s' \<Rightarrow> (s', Inl err))"

definition rewrite_suffix ::
  "(request \<Rightarrow> string option) \<Rightarrow> raft_disk \<Rightarrow> u64 \<Rightarrow> u64 \<Rightarrow> u64 \<Rightarrow> raft_log_entry list \<Rightarrow> raft_log_state \<Rightarrow>
   raft_log_state \<times> (raft_error + raft_append_report)" where
  "rewrite_suffix fp D trailing commit match_index suffix s =
     (let rewrite_index = le_index (hd suffix) in
      if rewrite_index \<le> commit then (s, Inl (RewritesCommitted rewrite_index commit))
      else (let keep = retained_entry_lower_bound (ls_entries s) rewrite_index;
                truncated = length (ls_entries s) - keep;
                prefix_last = (if 0 < keep then le_index (ls_entries s ! (keep - 1)) else 0)
        in case retained_log_prefix_file_len (ls_entries s) (ls_entry_bytes s) keep of
          Inl e \<Rightarrow> (s, Inl e)
        | Inr _ \<Rightarrow>
          (case validate_repaired_log_suffix fp (ls_entries s) keep suffix (ls_latest_snapshot s) of
             Inl e \<Rightarrow> (s, Inl e)
           | Inr _ \<Rightarrow>
             (case validate_repaired_request_identity_context (ls_snapshot_fingerprints s)
                     (ls_retained_fingerprints s) prefix_last suffix of
                Inl e \<Rightarrow> (s, Inl e)
              | Inr _ \<Rightarrow>
                if \<not> dk_truncate_ok D then reload_after fp D trailing Io s
                else (let es = take keep (ls_entries s) @ suffix;
                          s1 = s\<lparr>ls_entries := es,
                                 ls_entry_bytes := take keep (ls_entry_bytes s) @ map (dk_entry_len D) suffix,
                                 ls_age_cache := None\<rparr>
                  in case add_retained_request_identity_entries
                            (truncate_retained_request_identity_fingerprints
                              (ls_retained_fingerprints s) prefix_last) suffix of
                       (fps, Some e) \<Rightarrow>
                         reload_after fp D trailing e (s1\<lparr>ls_retained_fingerprints := fps\<rparr>)
                     | (fps, None) \<Rightarrow>
                         (put_term_indexes (term_indexes_from_entries es)
                            (s1\<lparr>ls_retained_fingerprints := fps,
                                ls_last_index := fst (log_end es (ls_latest_snapshot s)),
                                ls_last_term := snd (log_end es (ls_latest_snapshot s))\<rparr>),
                          Inr (accepted match_index 0 (length suffix) truncated)))))))"

definition append_suffix ::
  "(request \<Rightarrow> string option) \<Rightarrow> raft_disk \<Rightarrow> u64 \<Rightarrow> u64 \<Rightarrow> u64 \<Rightarrow> raft_log_entry list \<Rightarrow> raft_log_state \<Rightarrow>
   raft_log_state \<times> (raft_error + raft_append_report)" where
  "append_suffix fp D trailing commit match_index suffix s =
     (if le_index (hd suffix) \<le> commit then (s, Inl (FillsCommitted (le_index (hd suffix)) commit))
      else case validate_repaired_request_identity_context (ls_snapshot_fingerprints s)
                  (ls_retained_fingerprints s) (ls_last_index s) suffix of
        Inl e \<Rightarrow> (s, Inl e)
      | Inr _ \<Rightarrow>
        if \<not> dk_append_ok D then (s, Inl Io)
        else (let s1 = append_to_caches D suffix s in
          case add_retained_request_identity_entries (ls_retained_fingerprints s1) suffix of
            (fps, Some e) \<Rightarrow> reload_after fp D trailing e (s1\<lparr>ls_retained_fingerprints := fps\<rparr>)
          | (fps, None) \<Rightarrow>
              (s1\<lparr>ls_retained_fingerprints := fps\<rparr>, Inr (accepted match_index (length suffix) 0 0))))"

definition append_entries_from_leader ::
  "(request \<Rightarrow> string option) \<Rightarrow> raft_disk \<Rightarrow> u64 \<Rightarrow> u64 \<Rightarrow> u64 \<Rightarrow> u64 \<Rightarrow> u64 \<Rightarrow> raft_log_entry list \<Rightarrow>
   raft_log_state \<Rightarrow> raft_log_state \<times> (raft_error + raft_append_report)" where
  "append_entries_from_leader fp D trailing prev_index prev_term leader_term local_commit es s =
     (case validate_append_entries_shape fp prev_index prev_term leader_term es of
        Inl e \<Rightarrow> (s, Inl e)
      | Inr _ \<Rightarrow>
        (let commit = max local_commit (hs_commit_index (ls_hard_state s)) in
         case append_entries_prev_conflict prev_index prev_term s of
           Some report \<Rightarrow> (s, Inr report)
         | None \<Rightarrow>
           (let start = (case position (\<lambda>e. snapshot_index s < le_index e \<and> prev_index < le_index e) es of
                           Some p \<Rightarrow> p | None \<Rightarrow> length es);
                incoming = drop start es;
                match_index = (if incoming = [] then prev_index else le_index (last incoming))
            in case scan_incoming s 0 incoming of
                 Refused e \<Rightarrow> (s, Inl e)
               | Rewrite pos \<Rightarrow> rewrite_suffix fp D trailing commit match_index (drop pos incoming) s
               | Append pos \<Rightarrow> append_suffix fp D trailing commit match_index (drop pos incoming) s
               | Matched \<Rightarrow> (s, Inr (accepted match_index 0 0 0)))))"

end
