(* ===== verification/Raft_Log_Facts.thy ===== *)
theory Raft_Log_Facts
  imports Raft_Log_Store
begin

text \<open>
  Facts about consecutive log entries: their indexes count up without wrapping, the searches by
  index find what they look for, the term caches answer like the entries themselves, and the
  validations accept exactly the lists they should.
\<close>

section \<open>Consecutive entries\<close>

fun chain :: "raft_log_entry list \<Rightarrow> bool" where
  "chain [] \<longleftrightarrow> True"
| "chain [e] \<longleftrightarrow> le_index e \<noteq> 0 \<and> le_term e \<noteq> 0"
| "chain (a # b # es) \<longleftrightarrow> le_index a \<noteq> 0 \<and> le_term a \<noteq> 0 \<and>
     checked_succ (le_index a) = Some (le_index b) \<and> le_term a \<le> le_term b \<and> chain (b # es)"

lemma unat_max: "unat (- 1 :: u64) = 2 ^ 64 - 1"
  by transfer (simp add: take_bit_minus_one_eq_mask mask_eq_exp_minus_1 nat_mask_eq)

lemma unat_bound: "unat (a :: u64) < 2 ^ 64"
  using unsigned_less [of a, where 'a = nat] by simp

lemma checked_succ_iff: "checked_succ a = Some b \<longleftrightarrow> unat b = Suc (unat a)"
proof (cases "a = - 1")
  case True
  then show ?thesis using unat_bound [of b] by (simp add: checked_succ_def unat_max)
next
  case False
  then have "unat a \<noteq> 2 ^ 64 - 1" using unat_max word_unat_eq_iff by metis
  then have "unat (a + 1) = Suc (unat a)" using unat_bound [of a] by (simp add: unat_word_ariths)
  with False show ?thesis by (auto simp: checked_succ_def word_unat_eq_iff)
qed
lemma checked_succ_nonzero: "checked_succ a = Some b \<Longrightarrow> b \<noteq> 0"
  by (auto simp: checked_succ_iff)

lemma chain_Cons:
  "chain (a # es) \<longleftrightarrow> le_index a \<noteq> 0 \<and> le_term a \<noteq> 0 \<and>
     (es = [] \<or> unat (le_index (hd es)) = Suc (unat (le_index a)) \<and> le_term a \<le> le_term (hd es) \<and> chain es)"
  by (cases es) (auto simp: checked_succ_iff)

lemma chain_append:
  "chain (xs @ ys) \<longleftrightarrow> chain xs \<and> chain ys \<and>
     (xs = [] \<or> ys = [] \<or> unat (le_index (hd ys)) = Suc (unat (le_index (last xs))) \<and>
        le_term (last xs) \<le> le_term (hd ys))"
proof (induction xs)
  case Nil
  then show ?case by simp
next
  case (Cons a xs)
  then show ?case by (cases xs) (auto simp: chain_Cons)
qed

lemma chain_take: "chain es \<Longrightarrow> chain (take n es)"
  using chain_append [of "take n es" "drop n es"] by simp

lemma chain_drop: "chain es \<Longrightarrow> chain (drop n es)"
  using chain_append [of "take n es" "drop n es"] by simp

lemma chain_nth:
  assumes "chain es" and "i < length es"
  shows "unat (le_index (es ! i)) = unat (le_index (hd es)) + i"
  using assms
proof (induction es arbitrary: i)
  case (Cons a es)
  then show ?case by (cases i; cases es) (auto simp: chain_Cons)
qed simp

lemma chain_nonzero: "chain es \<Longrightarrow> e \<in> set es \<Longrightarrow> le_index e \<noteq> 0 \<and> le_term e \<noteq> 0"
  by (induction es) (auto simp: chain_Cons)

lemma chain_sorted: "chain es \<Longrightarrow> sorted_wrt (\<lambda>a b. le_index a < le_index b) es"
proof (induction es)
  case (Cons a es)
  show ?case
  proof (cases es)
    case Nil
    then show ?thesis by simp
  next
    case (Cons b bs)
    with Cons.prems Cons.IH have *: "sorted_wrt (\<lambda>a b. le_index a < le_index b) es" "unat (le_index b) = Suc (unat (le_index a))"
      by (auto simp: chain_Cons)
    then have "le_index a < le_index b" by (simp add: word_less_nat_alt)
    with * Cons show ?thesis by auto
  qed
qed simp

lemma chain_terms: "chain es \<Longrightarrow> sorted_wrt (\<lambda>a b. le_term a \<le> le_term b) es"
proof (induction es)
  case (Cons a es)
  then show ?case by (cases es) (auto simp: chain_Cons intro: order_trans)
qed simp

lemma sorted_unique:
  assumes "sorted_wrt (\<lambda>a b. le_index a < le_index b) es" and "a \<in> set es" and "b \<in> set es" and "le_index a = le_index b"
  shows "a = b"
  using assms by (induction es) auto

lemma chain_unique: "chain es \<Longrightarrow> a \<in> set es \<Longrightarrow> b \<in> set es \<Longrightarrow> le_index a = le_index b \<Longrightarrow> a = b"
  using sorted_unique chain_sorted by blast

lemma chain_last:
  assumes "chain es" and "es \<noteq> []"
  shows "unat (le_index (last es)) = unat (le_index (hd es)) + (length es - 1)"
  using chain_nth [OF assms(1), of "length es - 1"] assms(2) by (simp add: last_conv_nth)

lemma chain_member:
  assumes "chain es" and "es \<noteq> []" and "le_index (hd es) \<le> i" and "i \<le> le_index (last es)"
  shows "\<exists>e \<in> set es. le_index e = i"
proof -
  let ?k = "unat i - unat (le_index (hd es))"
  have "unat (le_index (hd es)) \<le> unat i" "unat i \<le> unat (le_index (last es))"
    using assms(3,4) by (simp_all add: word_le_nat_alt)
  then have k: "?k < length es" "unat (le_index (hd es)) + ?k = unat i"
    using chain_last [OF assms(1,2)] assms(2) by (cases es; simp; fail)+
  then have "le_index (es ! ?k) = i" using chain_nth [OF assms(1) k(1)] by (simp add: word_unat_eq_iff)
  with k(1) show ?thesis by force
qed

lemma chain_bounds:
  assumes "chain es" and "e \<in> set es"
  shows "le_index (hd es) \<le> le_index e" and "le_index e \<le> le_index (last es)"
proof -
  from assms(2) obtain i where i: "i < length es" "e = es ! i" by (auto simp: in_set_conv_nth)
  then have ne: "es \<noteq> []" by auto
  show "le_index (hd es) \<le> le_index e" "le_index e \<le> le_index (last es)"
    using chain_nth [OF assms(1) i(1)] chain_last [OF assms(1) ne] i by (auto simp: word_le_nat_alt)
qed

section \<open>Searching by index\<close>

text \<open>A predicate that holds of an entry only if it holds of every earlier one.\<close>

lemma split_sorted:
  assumes "sorted_wrt (\<lambda>a b. le_index a < le_index b) es" and "\<And>a b. le_index a < le_index b \<Longrightarrow> P b \<Longrightarrow> P a"
  shows "takeWhile P es = filter P es" and "dropWhile P es = filter (\<lambda>e. \<not> P e) es"
proof -
  have "takeWhile P es = filter P es \<and> dropWhile P es = filter (\<lambda>e. \<not> P e) es"
    using assms(1)
  proof (induction es)
    case (Cons a es)
    then have "\<not> P a \<Longrightarrow> \<forall>x \<in> set es. \<not> P x" using assms(2) by auto
    with Cons show ?case by (auto simp: filter_empty_conv [THEN iffD2] filter_id_conv)
  qed simp
  then show "takeWhile P es = filter P es" "dropWhile P es = filter (\<lambda>e. \<not> P e) es" by simp_all
qed

lemma takeWhile_sorted:
  assumes "sorted_wrt (\<lambda>a b. le_index a < le_index b) es"
  shows "takeWhile (\<lambda>e. le_index e < i) es = filter (\<lambda>e. le_index e < i) es"
    and "takeWhile (\<lambda>e. le_index e \<le> i) es = filter (\<lambda>e. le_index e \<le> i) es"
  by (rule split_sorted(1) [OF assms]; simp; fail)+

lemma dropWhile_sorted:
  assumes "sorted_wrt (\<lambda>a b. le_index a < le_index b) es"
  shows "dropWhile (\<lambda>e. le_index e < i) es = filter (\<lambda>e. i \<le> le_index e) es"
    and "dropWhile (\<lambda>e. le_index e \<le> i) es = filter (\<lambda>e. i < le_index e) es"
  using split_sorted(2) [OF assms, of "\<lambda>e. le_index e < i"] split_sorted(2) [OF assms, of "\<lambda>e. le_index e \<le> i"]
  by (simp_all add: not_less not_le)

lemma take_lower: "take (retained_entry_lower_bound es i) es = takeWhile (\<lambda>e. le_index e < i) es"
  by (metis retained_entry_lower_bound_def takeWhile_eq_take)

lemma drop_lower: "drop (retained_entry_lower_bound es i) es = dropWhile (\<lambda>e. le_index e < i) es"
  by (metis retained_entry_lower_bound_def dropWhile_eq_drop)

lemma drop_upper: "drop (retained_entry_upper_bound es i) es = dropWhile (\<lambda>e. le_index e \<le> i) es"
  by (metis retained_entry_upper_bound_def dropWhile_eq_drop)

lemma lower_le: "retained_entry_lower_bound es i \<le> length es"
  by (simp add: retained_entry_lower_bound_def length_takeWhile_le)

lemma retained_entry_at_iff:
  assumes "chain es"
  shows "retained_entry_at es i = Some e \<longleftrightarrow> e \<in> set es \<and> le_index e = i"
proof
  assume "retained_entry_at es i = Some e"
  then obtain n where "n < length es" "es ! n = e" "le_index e = i"
    by (auto simp: retained_entry_at_def Let_def split: if_splits)
  then show "e \<in> set es \<and> le_index e = i" by (auto simp: in_set_conv_nth)
next
  assume e: "e \<in> set es \<and> le_index e = i"
  let ?p = "retained_entry_lower_bound es i"
  have "e \<in> set (drop ?p es)"
    unfolding drop_lower dropWhile_sorted(1) [OF chain_sorted [OF assms]] using e by simp
  then have ne: "drop ?p es \<noteq> []" by auto
  then have len: "?p < length es" by simp
  have "le_index (hd (drop ?p es)) \<le> i" using chain_bounds(1) [OF chain_drop [OF assms]] e \<open>e \<in> set (drop ?p es)\<close> by blast
  moreover have "\<not> le_index (hd (drop ?p es)) < i" using ne unfolding drop_lower by (rule hd_dropWhile)
  ultimately have "le_index (es ! ?p) = i" using len by (simp add: hd_drop_conv_nth)
  then have "es ! ?p = e" using chain_unique [OF assms] e len nth_mem by metis
  with len \<open>le_index (es ! ?p) = i\<close> show "retained_entry_at es i = Some e" by (simp add: retained_entry_at_def)
qed

lemma retained_entry_at_None:
  assumes "chain es"
  shows "retained_entry_at es i = None \<longleftrightarrow> (\<forall>e \<in> set es. le_index e \<noteq> i)"
  using retained_entry_at_iff [OF assms] by (metis not_None_eq)

section \<open>Term caches\<close>

lemma fold_term_index:
  "fold add_term_index es (t, f, l) =
     (fold (\<lambda>e. fmupd (le_index e) (le_term e)) es t, fold (\<lambda>e. or_insert (le_term e) (le_index e)) es f,
      fold (\<lambda>e. fmupd (le_term e) (le_index e)) es l)"
  by (induction es arbitrary: t f l) simp_all

lemma term_indexes_append:
  "term_indexes_from_entries (xs @ ys) = fold add_term_index ys (term_indexes_from_entries xs)"
  by (simp add: term_indexes_from_entries_def)

lemma term_by_index_iff:
  assumes "chain es"
  shows "fmlookup (fst (term_indexes_from_entries es)) i = Some t \<longleftrightarrow> (\<exists>e \<in> set es. le_index e = i \<and> le_term e = t)"
  using assms
proof (induction es rule: rev_induct)
  case Nil
  then show ?case by (simp add: term_indexes_from_entries_def)
next
  case (snoc e es)
  then have c: "chain es" using chain_append [of es "[e]"] by simp
  obtain a b d where abd: "term_indexes_from_entries es = (a, b, d)" by (metis prod_cases3)
  have "\<forall>x \<in> set es. le_index x \<noteq> le_index e"
    using chain_sorted [OF snoc.prems] by (auto simp: sorted_wrt_append)
  then show ?case using snoc.IH [OF c] abd by (auto simp: term_indexes_append)
qed

lemma first_index_iff:
  "fmlookup (fold (\<lambda>e. or_insert (le_term e) (le_index e)) es m) t =
     option_or_else (fmlookup m t) (map_option le_index (find (\<lambda>e. le_term e = t) es))"
  by (induction es arbitrary: m) (auto simp: or_insert_def option_or_else_def split: option.splits)

lemma first_index_by_term:
  "fmlookup (fst (snd (term_indexes_from_entries es))) t = map_option le_index (find (\<lambda>e. le_term e = t) es)"
  by (simp add: term_indexes_from_entries_def fold_term_index first_index_iff option_or_else_def)

lemma first_index_le:
  assumes "chain es" and "e \<in> set es"
  shows "\<exists>i. fmlookup (fst (snd (term_indexes_from_entries es))) (le_term e) = Some i \<and> i \<le> le_index e \<and> i \<noteq> 0"
proof -
  have "find (\<lambda>x. le_term x = le_term e) es \<noteq> None" using assms(2) by (auto simp: find_None_iff)
  then obtain k where k: "k < length es" "find (\<lambda>x. le_term x = le_term e) es = Some (es ! k)"
    "\<forall>j < k. le_term (es ! j) \<noteq> le_term e" "le_term (es ! k) = le_term e"
    by (auto simp: find_Some_iff)
  from assms(2) obtain j where j: "j < length es" "e = es ! j" by (auto simp: in_set_conv_nth)
  then have "k \<le> j" using k(3) not_le by blast
  then have "le_index (es ! k) \<le> le_index e"
    using chain_nth [OF assms(1) k(1)] chain_nth [OF assms(1) j(1)] j(2) by (simp add: word_le_nat_alt)
  moreover have "le_index (es ! k) \<noteq> 0" using chain_nonzero [OF assms(1)] k(1) nth_mem by blast
  ultimately show ?thesis using k(2) by (simp add: first_index_by_term)
qed

section \<open>What the validations accept\<close>

definition commands_ok :: "(request \<Rightarrow> string option) \<Rightarrow> raft_log_entry list \<Rightarrow> bool" where
  "commands_ok fp es \<longleftrightarrow> list_all (\<lambda>e. validate_raft_command fp (le_command e) = Inr ()) es"

lemma unit_result: "(\<exists>e. r = Inl e) \<or> r = Inr ()"
  by (cases r) simp_all

lemma validate_persisted_loop_iff:
  "validate_persisted_loop fp prev es = Inr () \<longleftrightarrow> chain es \<and> commands_ok fp es \<and>
     (case prev of None \<Rightarrow> True
      | Some p \<Rightarrow> es = [] \<or> unat (le_index (hd es)) = Suc (unat (le_index p)) \<and> le_term p \<le> le_term (hd es))"
proof (induction es arbitrary: prev)
  case Nil
  then show ?case by (simp add: commands_ok_def split: option.splits)
next
  case (Cons e es)
  let ?first = "\<forall>p. prev = Some p \<longrightarrow> unat (le_index e) = Suc (unat (le_index p)) \<and> le_term p \<le> le_term e"
  let ?ok = "le_index e \<noteq> 0 \<and> le_term e \<noteq> 0 \<and> validate_raft_command fp (le_command e) = Inr () \<and> ?first"
  have "validate_persisted_loop fp prev (e # es) = Inr () \<longleftrightarrow> ?ok \<and> validate_persisted_loop fp (Some e) es = Inr ()"
    using unit_result [of "validate_raft_command fp (le_command e)"]
    by (auto simp: checked_succ_iff [symmetric] split: option.splits)
  also have "\<dots> \<longleftrightarrow> ?ok \<and> chain (e # es) \<and> commands_ok fp (e # es)"
    using Cons.IH [of "Some e"] by (auto simp: chain_Cons commands_ok_def)
  also have "\<dots> \<longleftrightarrow> chain (e # es) \<and> commands_ok fp (e # es) \<and> ?first"
    by (auto simp: chain_Cons commands_ok_def)
  finally show ?case by (simp split: option.splits)
qed

lemma validate_persisted_iff: "validate_persisted_log_entries fp es = Inr () \<longleftrightarrow> chain es \<and> commands_ok fp es"
  by (simp add: validate_persisted_log_entries_def validate_persisted_loop_iff)

lemma append_shape_loop_iff:
  assumes "expected \<noteq> 0"
  shows "append_shape_loop fp T expected prev es = Inr () \<longleftrightarrow> chain es \<and> commands_ok fp es \<and>
     (\<forall>e \<in> set es. le_term e \<le> T) \<and> (es = [] \<or> le_index (hd es) = expected \<and> prev \<le> le_term (hd es))"
  using assms
proof (induction es arbitrary: expected prev)
  case Nil
  then show ?case by (simp add: commands_ok_def)
next
  case (Cons e es)
  consider i where "checked_succ (le_index e) = Some i" "i \<noteq> 0" | "checked_succ (le_index e) = None"
    by (cases "checked_succ (le_index e)") (auto dest: checked_succ_nonzero)
  then show ?case
  proof cases
    case (1 i)
    have "unat (le_index (hd es)) = Suc (unat (le_index e)) \<longleftrightarrow> le_index (hd es) = i"
      using 1(1) by (simp add: checked_succ_iff word_unat_eq_iff)
    then show ?thesis
      using Cons.IH [OF 1(2)] Cons.prems 1 unit_result [of "validate_raft_command fp (le_command e)"]
      by (cases "es = []") (auto simp: chain_Cons commands_ok_def)
  next
    case 2
    then have "unat (le_index (hd es)) \<noteq> Suc (unat (le_index e))"
      using checked_succ_iff [of "le_index e" "le_index (hd es)"] by simp
    with 2 show ?thesis
      using Cons.prems unit_result [of "validate_raft_command fp (le_command e)"]
      by (cases "es = []") (auto simp: chain_Cons commands_ok_def)
  qed
qed

end
