(* ===== verification/Raft_Log_Invariants.thy ===== *)
theory Raft_Log_Invariants
  imports Raft_Log_Facts
begin

text \<open>
  The invariant of the log store and its preservation.  \<open>log_ok\<close> says that the entries are
  consecutive and connect to the snapshot, and that every cache of the state is what it would
  be if it were computed from the entries: the terms, the end of the log, the request
  fingerprints.  The follower keeps it whatever the leader sends and whatever the disk does.
\<close>

section \<open>Request fingerprints\<close>

definition identities :: "raft_log_entry list \<Rightarrow> (string \<times> string) set" where
  "identities es = {(i, f). \<exists>e \<in> set es. request_identity (le_command e) = Some (i, f)}"

lemma identities_simps [simp]:
  "identities [] = {}"
  "identities (e # es) = (case request_identity (le_command e) of None \<Rightarrow> {} | Some x \<Rightarrow> {x}) \<union> identities es"
  by (auto simp: identities_def split: option.splits)

definition agree :: "(string, retained_fingerprint) fmap \<Rightarrow> raft_log_entry list \<Rightarrow> bool" where
  "agree fps es \<longleftrightarrow> (\<forall>i f g. (i, f) \<in> identities es \<longrightarrow> (i, g) \<in> identities es \<longrightarrow> f = g) \<and>
     (\<forall>i f r. (i, f) \<in> identities es \<longrightarrow> fmlookup fps i = Some r \<longrightarrow> rf_fingerprint r = f)"

lemma add_retained_ok:
  assumes "agree fps es"
  shows "snd (add_retained_request_identity_entries fps es) = None"
  using assms
proof (induction es arbitrary: fps)
  case Nil
  then show ?case by simp
next
  case (Cons e es)
  show ?case
  proof (cases "request_identity (le_command e)")
    case None
    then show ?thesis using Cons by (simp add: agree_def)
  next
    case (Some x)
    obtain i f where x: "x = (i, f)" by (cases x)
    have f: "(i, g) \<in> identities es \<Longrightarrow> g = f" for g using Cons.prems Some x by (auto simp: agree_def)
    show ?thesis
    proof (cases "fmlookup fps i")
      case None
      have "agree (fmupd i \<lparr>rf_fingerprint = f, rf_first_index = le_index e\<rparr> fps) es"
        using Cons.prems Some x f by (auto simp: agree_def split: if_splits)
      then show ?thesis using Cons.IH Some x None by simp
    next
      case (Some r)
      have "rf_fingerprint r = f" using Cons.prems Some \<open>request_identity (le_command e) = Some x\<close> x
        by (auto simp: agree_def)
      moreover have "agree (fmupd i (r\<lparr>rf_first_index := min (rf_first_index r) (le_index e)\<rparr>) fps) es"
        using Cons.prems \<open>request_identity (le_command e) = Some x\<close> x f calculation by (auto simp: agree_def split: if_splits)
      ultimately show ?thesis using Cons.IH Some \<open>request_identity (le_command e) = Some x\<close> x by simp
    qed
  qed
qed

lemma add_retained_append:
  "snd (add_retained_request_identity_entries fps xs) = None \<Longrightarrow>
   add_retained_request_identity_entries fps (xs @ ys) =
     add_retained_request_identity_entries (fst (add_retained_request_identity_entries fps xs)) ys"
  by (induction xs arbitrary: fps) (auto split: option.splits prod.splits if_splits)

lemma add_retained_append_ok:
  "snd (add_retained_request_identity_entries fps (xs @ ys)) = None \<Longrightarrow>
   snd (add_retained_request_identity_entries fps xs) = None"
  by (induction xs arbitrary: fps) (auto split: option.splits prod.splits if_splits)

text \<open>The first entry with a request id.\<close>

fun first_with :: "raft_log_entry list \<Rightarrow> string \<Rightarrow> retained_fingerprint option" where
  "first_with [] i = None"
| "first_with (e # es) i =
     (case request_identity (le_command e) of
        Some (j, f) \<Rightarrow>
          if j = i then Some \<lparr>rf_fingerprint = f, rf_first_index = le_index e\<rparr> else first_with es i
      | None \<Rightarrow> first_with es i)"

lemma first_with_index: "first_with es i = Some r \<Longrightarrow> \<exists>e \<in> set es. rf_first_index r = le_index e"
  by (induction es) (auto split: option.splits prod.splits if_splits)

lemma lookup_add_retained:
  assumes "snd (add_retained_request_identity_entries fps es) = None"
    and "sorted_wrt (\<lambda>a b. le_index a < le_index b) es"
    and "\<forall>i r. fmlookup fps i = Some r \<longrightarrow> (\<forall>e \<in> set es. rf_first_index r \<le> le_index e)"
  shows "fmlookup (fst (add_retained_request_identity_entries fps es)) i =
    option_or_else (fmlookup fps i) (first_with es i)"
  using assms
proof (induction es arbitrary: fps)
  case Nil
  then show ?case by (simp add: option_or_else_def split: option.splits)
next
  case (Cons e es)
  show ?case
  proof (cases "request_identity (le_command e)")
    case None
    then show ?thesis using Cons by simp
  next
    case (Some x)
    obtain j f where x: "request_identity (le_command e) = Some (j, f)" using Some by (cases x) simp
    show ?thesis
    proof (cases "fmlookup fps j")
      case None
      let ?m = "fmupd j \<lparr>rf_fingerprint = f, rf_first_index = le_index e\<rparr> fps"
      have "\<forall>i r. fmlookup ?m i = Some r \<longrightarrow> (\<forall>e \<in> set es. rf_first_index r \<le> le_index e)"
        using Cons.prems(2,3) by (auto simp: less_imp_le split: if_splits)
      then show ?thesis using Cons.IH [of ?m] Cons.prems(1,2) x None
        by (auto simp: option_or_else_def split: option.splits)
    next
      case (Some r)
      have "rf_first_index r \<le> le_index e" using Cons.prems(3) Some by simp
      then have same: "r\<lparr>rf_first_index := min (rf_first_index r) (le_index e)\<rparr> = r" by (simp add: min_def)
      have "fmupd j r fps = fps" using Some by (metis fmupd_lookup fmap_ext)
      then show ?thesis using Cons.IH [of fps] Cons.prems x Some same
        by (auto simp: option_or_else_def split: option.splits if_splits)
    qed
  qed
qed

lemma repaired_loop_agrees:
  assumes "repaired_identity_loop snap ret p es inc = Inr ()"
  shows "\<forall>i f g. (i, f) \<in> identities es \<longrightarrow> fmlookup inc i = Some g \<longrightarrow> g = f"
    and "\<forall>i f g. (i, f) \<in> identities es \<longrightarrow> (i, g) \<in> identities es \<longrightarrow> f = g"
    and "\<forall>i f r. (i, f) \<in> identities es \<longrightarrow> fmlookup ret i = Some r \<longrightarrow> 0 < p \<longrightarrow> rf_first_index r \<le> p \<longrightarrow>
      rf_fingerprint r = f"
proof -
  have "(\<forall>i f g. (i, f) \<in> identities es \<longrightarrow> fmlookup inc i = Some g \<longrightarrow> g = f) \<and>
    (\<forall>i f g. (i, f) \<in> identities es \<longrightarrow> (i, g) \<in> identities es \<longrightarrow> f = g) \<and>
    (\<forall>i f r. (i, f) \<in> identities es \<longrightarrow> fmlookup ret i = Some r \<longrightarrow> 0 < p \<longrightarrow> rf_first_index r \<le> p \<longrightarrow>
      rf_fingerprint r = f)"
    using assms
  proof (induction es arbitrary: inc)
    case Nil
    then show ?case by simp
  next
    case (Cons e es)
    show ?case
    proof (cases "request_identity (le_command e)")
      case None
      then show ?thesis using Cons by simp
    next
      case (Some x)
      obtain j f where x: "request_identity (le_command e) = Some (j, f)" using Some by (cases x) simp
      have rest: "repaired_identity_loop snap ret p es (fmupd j f inc) = Inr ()"
        and r: "\<forall>r. fmlookup ret j = Some r \<longrightarrow> 0 < p \<longrightarrow> rf_first_index r \<le> p \<longrightarrow> rf_fingerprint r = f"
        and inc: "\<forall>g. fmlookup inc j = Some g \<longrightarrow> g = f"
        using Cons.prems x by (auto split: if_splits option.splits)
      note IH = Cons.IH [OF rest]
      have j: "(j, g) \<in> identities es \<Longrightarrow> g = f" for g using IH by fastforce
      have i: "(i, g) \<in> identities es \<Longrightarrow> fmlookup inc i = Some h \<Longrightarrow> h = g" for i g h
        using IH inc j by (cases "i = j") fastforce+
      show ?thesis using x r inc i j IH by (simp; blast)
    qed
  qed
  then show "\<forall>i f g. (i, f) \<in> identities es \<longrightarrow> fmlookup inc i = Some g \<longrightarrow> g = f"
    "\<forall>i f g. (i, f) \<in> identities es \<longrightarrow> (i, g) \<in> identities es \<longrightarrow> f = g"
    "\<forall>i f r. (i, f) \<in> identities es \<longrightarrow> fmlookup ret i = Some r \<longrightarrow> 0 < p \<longrightarrow> rf_first_index r \<le> p \<longrightarrow>
      rf_fingerprint r = f" by simp_all
qed

lemma lookup_truncated:
  "fmlookup (truncate_retained_request_identity_fingerprints fps p) i = Some r \<longleftrightarrow>
     p \<noteq> 0 \<and> fmlookup fps i = Some r \<and> rf_first_index r \<le> p"
  by (auto simp: truncate_retained_request_identity_fingerprints_def split: option.splits)

text \<open>Once the context is validated, adding the fingerprints of the suffix cannot fail.\<close>

lemma validated_context_agrees:
  assumes "validate_repaired_request_identity_context snap ret p es = Inr ()"
  shows "agree (truncate_retained_request_identity_fingerprints ret p) es"
proof (cases "entries_have_client_request_identities es")
  case True
  then have "repaired_identity_loop snap ret p es fmempty = Inr ()"
    using assms by (simp add: validate_repaired_request_identity_context_def)
  from repaired_loop_agrees [OF this] show ?thesis
    unfolding agree_def lookup_truncated by (metis word_neq_0_conv)
next
  case False
  then have "identities es = {}"
    by (auto simp: entries_have_client_request_identities_def identities_def list_ex_iff)
  then show ?thesis by (simp add: agree_def)
qed

section \<open>The invariant\<close>

definition boundary_ok :: "raft_log_entry list \<Rightarrow> raft_snapshot_metadata option \<Rightarrow> bool" where
  "boundary_ok es latest \<longleftrightarrow> es = [] \<or>
     (case latest of
        None \<Rightarrow> le_index (hd es) = 1
      | Some snap \<Rightarrow>
          sm_last_included_index snap \<le> le_index (last es) \<and>
          unat (le_index (hd es)) \<le> Suc (unat (sm_last_included_index snap)) \<and>
          sm_last_included_index snap \<noteq> - 1 \<and>
          (le_index (hd es) \<le> sm_last_included_index snap \<longrightarrow>
             (\<exists>e \<in> set es. le_index e = sm_last_included_index snap \<and> le_term e = sm_last_included_term snap)))"

lemma find_index:
  assumes "chain es"
  shows "find (\<lambda>e. le_index e = i) es = retained_entry_at es i"
proof (cases "find (\<lambda>e. le_index e = i) es")
  case None
  then show ?thesis using retained_entry_at_None [OF assms, of i] by (auto simp: find_None_iff)
next
  case (Some e)
  then have "e \<in> set es \<and> le_index e = i" by (auto simp: find_Some_iff)
  then have "retained_entry_at es i = Some e" by (rule iffD2 [OF retained_entry_at_iff [OF assms]])
  with Some show ?thesis by simp
qed

lemma boundary_iff:
  assumes "chain es"
  shows "validate_snapshot_log_boundary es latest = Inr () \<longleftrightarrow> boundary_ok es latest"
proof (cases "es = []")
  case True
  then show ?thesis by (simp add: validate_snapshot_log_boundary_def boundary_ok_def)
next
  case ne: False
  show ?thesis
  proof (cases latest)
    case None
    with ne show ?thesis by (simp add: validate_snapshot_log_boundary_def boundary_ok_def Let_def)
  next
    case (Some snap)
    let ?si = "sm_last_included_index snap"
    have at: "(case find (\<lambda>e. le_index e = ?si) es of None \<Rightarrow> Inl (SnapshotEntryMissing ?si)
        | Some e \<Rightarrow> if le_term e \<noteq> sm_last_included_term snap
            then Inl (SnapshotTermMismatch (le_term e) ?si (sm_last_included_term snap)) else Inr ()) = Inr () \<longleftrightarrow>
      (\<exists>e \<in> set es. le_index e = ?si \<and> le_term e = sm_last_included_term snap)"
      unfolding find_index [OF assms]
      using retained_entry_at_iff [OF assms, of ?si] chain_unique [OF assms]
      by (auto split: option.splits) (metis retained_entry_at_None [OF assms])
    show ?thesis
    proof (cases "checked_succ ?si")
      case None
      then have "?si = - 1" by (simp add: checked_succ_def split: if_splits)
      with None ne Some show ?thesis
        by (simp add: validate_snapshot_log_boundary_def boundary_ok_def Let_def)
    next
      case (Some m)
      then have m: "unat m = Suc (unat ?si)" "?si \<noteq> - 1"
        by (simp add: checked_succ_iff) (use Some in \<open>auto simp: checked_succ_def\<close>)
      then have "m < le_index (hd es) \<longleftrightarrow> \<not> unat (le_index (hd es)) \<le> Suc (unat ?si)"
        by (simp add: word_less_nat_alt not_le)
      with m at Some ne \<open>latest = Some snap\<close> show ?thesis
        by (auto simp: validate_snapshot_log_boundary_def boundary_ok_def Let_def)
    qed
  qed
qed

definition log_ok :: "(request \<Rightarrow> string option) \<Rightarrow> raft_log_state \<Rightarrow> bool" where
  "log_ok fp s \<longleftrightarrow> chain (ls_entries s) \<and> commands_ok fp (ls_entries s) \<and>
     length (ls_entry_bytes s) = length (ls_entries s) \<and>
     state_term_indexes s = term_indexes_from_entries (ls_entries s) \<and>
     (ls_last_index s, ls_last_term s) = log_end (ls_entries s) (ls_latest_snapshot s) \<and>
     boundary_ok (ls_entries s) (ls_latest_snapshot s) \<and>
     (\<forall>snap. ls_latest_snapshot s = Some snap \<longrightarrow>
        sm_last_included_index snap \<noteq> 0 \<and> sm_last_included_term snap \<noteq> 0) \<and>
     retained_request_identity_fingerprints_after (ls_entries s) (snapshot_index s) =
       Inr (ls_retained_fingerprints s)"

text \<open>The entries after the snapshot, whose request ids are remembered.\<close>

abbreviation live :: "u64 \<Rightarrow> raft_log_entry list \<Rightarrow> raft_log_entry list" where
  "live si es \<equiv> filter (\<lambda>e. si < le_index e) es"

lemma fingerprints_after_iff:
  assumes "chain es"
  shows "retained_request_identity_fingerprints_after es si = Inr fps \<longleftrightarrow>
    add_retained_request_identity_entries fmempty (live si es) = (fps, None)"
  unfolding retained_request_identity_fingerprints_after_def drop_upper
    dropWhile_sorted(2) [OF chain_sorted [OF assms]]
  by (auto split: prod.splits option.splits)

locale consistent_log =
  fixes fp :: "request \<Rightarrow> string option" and s :: raft_log_state
  assumes ok: "log_ok fp s"
begin

lemma entries_chain: "chain (ls_entries s)"
  and entries_commands: "commands_ok fp (ls_entries s)"
  and bytes_length: "length (ls_entry_bytes s) = length (ls_entries s)"
  and caches: "state_term_indexes s = term_indexes_from_entries (ls_entries s)"
  and ends: "(ls_last_index s, ls_last_term s) = log_end (ls_entries s) (ls_latest_snapshot s)"
  and boundary: "boundary_ok (ls_entries s) (ls_latest_snapshot s)"
  and snapshot_positive: "ls_latest_snapshot s = Some snap \<Longrightarrow>
    sm_last_included_index snap \<noteq> 0 \<and> sm_last_included_term snap \<noteq> 0"
  and fingerprints: "add_retained_request_identity_entries fmempty (live (snapshot_index s) (ls_entries s)) =
    (ls_retained_fingerprints s, None)"
  using ok fingerprints_after_iff unfolding log_ok_def by blast+

lemma term_by_index:
  "fmlookup (ls_term_by_index s) i = Some t \<longleftrightarrow> (\<exists>e \<in> set (ls_entries s). le_index e = i \<and> le_term e = t)"
  using term_by_index_iff [OF entries_chain, of i t] by (simp add: caches [symmetric] state_term_indexes_def)

lemma term_by_index_None: "fmlookup (ls_term_by_index s) i = None \<longleftrightarrow> (\<forall>e \<in> set (ls_entries s). le_index e \<noteq> i)"
proof (cases "fmlookup (ls_term_by_index s) i")
  case None
  have False if "e \<in> set (ls_entries s)" "le_index e = i" for e
  proof -
    have "fmlookup (ls_term_by_index s) i = Some (le_term e)" using that term_by_index by blast
    with None show False by simp
  qed
  with None show ?thesis by blast
next
  case (Some t)
  then show ?thesis using term_by_index by fastforce
qed

lemma first_index_by_term_le:
  assumes "e \<in> set (ls_entries s)"
  shows "\<exists>i. fmlookup (ls_first_index_by_term s) (le_term e) = Some i \<and> i \<le> le_index e \<and> i \<noteq> 0"
  using first_index_le [OF entries_chain assms] by (simp add: caches [symmetric] state_term_indexes_def)

lemma entry_index_le: "e \<in> set (ls_entries s) \<Longrightarrow> le_index e \<le> ls_last_index s"
  using ends chain_bounds(2) [OF entries_chain] by (auto simp: log_end_def split: if_splits)

lemma snapshot_le_last: "snapshot_index s \<le> ls_last_index s"
  using ends boundary
  by (auto simp: snapshot_index_def log_end_def boundary_ok_def split: if_splits option.splits)

text \<open>Every index above the snapshot up to the end of the log is retained.\<close>

lemma retained_above:
  assumes "snapshot_index s < i" and "i \<le> ls_last_index s"
  shows "\<exists>e \<in> set (ls_entries s). le_index e = i"
proof -
  have ne: "ls_entries s \<noteq> []"
    using assms ends by (auto simp: log_end_def snapshot_index_def split: if_splits option.splits)
  have last: "i \<le> le_index (last (ls_entries s))" using assms(2) ends ne by (simp add: log_end_def)
  have "unat (le_index (hd (ls_entries s))) \<le> Suc (unat (snapshot_index s))"
    using boundary ne by (auto simp: boundary_ok_def snapshot_index_def split: option.splits)
  then have "le_index (hd (ls_entries s)) \<le> i" using assms(1) by (simp add: word_le_nat_alt word_less_nat_alt)
  from chain_member [OF entries_chain ne this last] show ?thesis .
qed

text \<open>The term of an index, by the entries and the snapshot.\<close>

lemma term_at_cases:
  assumes "term_at_index s i = Some t"
  obtains "i = 0" "t = 0"
    | e where "e \<in> set (ls_entries s)" "le_index e = i" "le_term e = t"
    | snap where "ls_latest_snapshot s = Some snap" "sm_last_included_index snap = i" "sm_last_included_term snap = t"
        "\<forall>e \<in> set (ls_entries s). le_index e \<noteq> i"
proof -
  consider "i = 0" | "i \<noteq> 0" "fmlookup (ls_term_by_index s) i = Some t"
    | snap where "i \<noteq> 0" "fmlookup (ls_term_by_index s) i = None" "ls_latest_snapshot s = Some snap"
        "sm_last_included_index snap = i" "sm_last_included_term snap = t"
    using assms by (auto simp: term_at_index_def split: if_splits option.splits)
  then show thesis
  proof cases
    case 1
    with assms show ?thesis using that(1) by (simp add: term_at_index_def)
  next
    case 2
    then show ?thesis using that(2) term_by_index by blast
  next
    case (3 snap)
    then have "\<forall>e \<in> set (ls_entries s). le_index e \<noteq> i" by (simp add: term_by_index_None)
    then show ?thesis using that(3) 3 by blast
  qed
qed

lemma term_at_last: "term_at_index s (ls_last_index s) = Some (ls_last_term s)"
proof (cases "ls_entries s = []")
  case True
  then have "fmlookup (ls_term_by_index s) i = None" for i by (simp add: term_by_index_None)
  then show ?thesis using True ends
    by (cases "ls_latest_snapshot s") (simp_all add: term_at_index_def log_end_def snapshot_positive)
next
  case False
  then have l: "last (ls_entries s) \<in> set (ls_entries s)" by simp
  then have "fmlookup (ls_term_by_index s) (le_index (last (ls_entries s))) = Some (le_term (last (ls_entries s)))"
    using term_by_index by blast
  then show ?thesis using ends False chain_nonzero [OF entries_chain l] by (simp add: term_at_index_def log_end_def)
qed

lemma fingerprint_index:
  assumes "fmlookup (ls_retained_fingerprints s) i = Some r"
  shows "\<exists>e \<in> set (ls_entries s). rf_first_index r = le_index e"
proof -
  let ?l = "live (snapshot_index s) (ls_entries s)"
  have "fmlookup (ls_retained_fingerprints s) i = option_or_else (fmlookup fmempty i) (first_with ?l i)"
    using lookup_add_retained [of fmempty ?l i] fingerprints
      sorted_wrt_filter [OF chain_sorted [OF entries_chain], of "\<lambda>e. snapshot_index s < le_index e"] by simp
  with assms have "first_with ?l i = Some r" by (simp add: option_or_else_def)
  from first_with_index [OF this] show ?thesis by auto
qed

end

end
