(* ===== verification/Raft_Replication.thy ===== *)
theory Raft_Replication
  imports Raft_Log_Invariants
begin

text \<open>
  What the follower's append does: the branches it can take, that each of them keeps the
  invariant of the log, that committed entries survive, and that a successful reply means the
  follower holds what the leader sent.
\<close>

section \<open>The incoming entries\<close>

definition held :: "raft_log_entry list \<Rightarrow> raft_log_entry \<Rightarrow> bool" where
  "held es e \<longleftrightarrow> (\<exists>l \<in> set es. le_index l = le_index e \<and> le_term l = le_term e \<and> le_command l = le_command e)"

lemma position_drop:
  assumes "sorted_wrt (\<lambda>a b. le_index a < le_index b) es" and "\<And>a b. le_index a < le_index b \<Longrightarrow> P a \<Longrightarrow> P b"
  shows "drop (case position P es of Some p \<Rightarrow> p | None \<Rightarrow> length es) es = filter P es"
  using assms(1)
proof (induction es)
  case (Cons a es)
  show ?case
  proof (cases "P a")
    case True
    then have "\<forall>x \<in> set es. P x" using Cons.prems assms(2) by auto
    with True show ?thesis by simp
  next
    case False
    then show ?thesis using Cons by (auto split: option.splits)
  qed
qed simp

definition incoming :: "raft_log_state \<Rightarrow> u64 \<Rightarrow> raft_log_entry list \<Rightarrow> raft_log_entry list" where
  "incoming s prev es = filter (\<lambda>e. snapshot_index s < le_index e \<and> prev < le_index e) es"

lemma incoming_drop:
  assumes "chain es"
  shows "drop (case position (\<lambda>e. snapshot_index s < le_index e \<and> prev < le_index e) es of
      Some p \<Rightarrow> p | None \<Rightarrow> length es) es = incoming s prev es"
  unfolding incoming_def by (rule position_drop [OF chain_sorted [OF assms]]) auto

definition match_of :: "raft_log_state \<Rightarrow> u64 \<Rightarrow> raft_log_entry list \<Rightarrow> u64" where
  "match_of s prev es = (if incoming s prev es = [] then prev else le_index (last (incoming s prev es)))"

text \<open>
  The leader's entry at the index of the snapshot has the term of the snapshot.  What the
  snapshot covers is committed, so every leader has it; the code does not compare it.
\<close>

definition fits_snapshot :: "raft_log_state \<Rightarrow> raft_log_entry list \<Rightarrow> bool" where
  "fits_snapshot s es \<longleftrightarrow> (\<forall>e \<in> set es. \<forall>snap. ls_latest_snapshot s = Some snap \<longrightarrow>
     le_index e = sm_last_included_index snap \<longrightarrow> le_term e = sm_last_included_term snap)"

lemma incoming_chain:
  assumes "chain es"
  shows "chain (incoming s prev es)"
  using chain_drop [OF assms] incoming_drop [OF assms, of s prev] by metis

lemma shape_ok:
  assumes "validate_append_entries_shape fp pi pt T es = Inr ()"
  shows "chain es" and "commands_ok fp es" and "\<forall>e \<in> set es. le_term e \<le> T" and "pt \<le> T"
    and "es = [] \<or> unat (le_index (hd es)) = Suc (unat pi) \<and> pt \<le> le_term (hd es)"
    and "pi = 0 \<longleftrightarrow> pt = 0"
proof -
  have base: "pt \<le> T \<and> (pi = 0 \<longleftrightarrow> pt = 0) \<and>
      (es = [] \<or> (\<exists>x. checked_succ pi = Some x \<and> append_shape_loop fp T x pt es = Inr ()))"
    using assms by (auto simp: validate_append_entries_shape_def word_neq_0_conv not_less split: if_splits option.splits)
  then show "pt \<le> T" "pi = 0 \<longleftrightarrow> pt = 0" by simp_all
  have loop: "chain es \<and> commands_ok fp es \<and> (\<forall>e \<in> set es. le_term e \<le> T) \<and>
      (es = [] \<or> unat (le_index (hd es)) = Suc (unat pi) \<and> pt \<le> le_term (hd es))"
  proof (cases "es = []")
    case True
    then show ?thesis by (simp add: commands_ok_def)
  next
    case False
    then obtain x where x: "checked_succ pi = Some x" "append_shape_loop fp T x pt es = Inr ()" using base by blast
    then show ?thesis
      using append_shape_loop_iff [OF checked_succ_nonzero [OF x(1)], of fp T pt es] checked_succ_iff [of pi x] by auto
  qed
  then show "chain es" "commands_ok fp es" "\<forall>e \<in> set es. le_term e \<le> T"
    "es = [] \<or> unat (le_index (hd es)) = Suc (unat pi) \<and> pt \<le> le_term (hd es)" by simp_all
qed

section \<open>Branches of the scan\<close>

context consistent_log
begin

lemma scan_held:
  assumes "fmlookup (ls_term_by_index s) (le_index e) = Some (le_term e)"
    and "retained_entry_at (ls_entries s) (le_index e) = Some l" and "le_command l = le_command e"
  shows "held (ls_entries s) e"
proof -
  have l: "l \<in> set (ls_entries s)" "le_index l = le_index e"
    using assms(2) retained_entry_at_iff [OF entries_chain] by blast+
  obtain k where k: "k \<in> set (ls_entries s)" "le_index k = le_index e" "le_term k = le_term e"
    using assms(1) term_by_index by blast
  then have "k = l" using chain_unique [OF entries_chain k(1) l(1)] l(2) by simp
  with k l assms(3) show ?thesis by (auto simp: held_def)
qed

lemma scan_split:
  "case scan_incoming s pos es of
     Matched \<Rightarrow> list_all (held (ls_entries s)) es
   | Refused _ \<Rightarrow> True
   | Rewrite p \<Rightarrow> pos \<le> p \<and> p - pos < length es \<and> list_all (held (ls_entries s)) (take (p - pos) es) \<and>
       le_index (es ! (p - pos)) \<le> ls_last_index s
   | Append p \<Rightarrow> pos \<le> p \<and> p - pos < length es \<and> list_all (held (ls_entries s)) (take (p - pos) es) \<and>
       ls_last_index s < le_index (es ! (p - pos))"
proof (induction es arbitrary: pos)
  case Nil
  then show ?case by simp
next
  case (Cons e es)
  show ?case
  proof (cases "fmlookup (ls_term_by_index s) (le_index e)")
    case None
    then show ?thesis by (auto simp: not_le)
  next
    case (Some t)
    have le: "le_index e \<le> ls_last_index s"
    proof -
      obtain k where "k \<in> set (ls_entries s)" "le_index k = le_index e" using Some term_by_index by blast
      then show ?thesis using entry_index_le [of k] by simp
    qed
    show ?thesis
    proof (cases "t = le_term e")
      case False
      with Some le show ?thesis by simp
    next
      case True
      show ?thesis
      proof (cases "retained_entry_at (ls_entries s) (le_index e)")
        case None
        with Some True show ?thesis by simp
      next
        case l: (Some l)
        show ?thesis
        proof (cases "le_command l = le_command e")
          case False
          with Some True l show ?thesis by simp
        next
          case same: True
          have h: "held (ls_entries s) e" using scan_held [OF _ l same] Some True by simp
          have step: "scan_incoming s pos (e # es) = scan_incoming s (Suc pos) es" using Some True l same by simp
          show ?thesis unfolding step using Cons.IH [of "Suc pos"] h
            by (cases "scan_incoming s (Suc pos) es") (auto simp: Suc_diff_Suc [symmetric] Suc_le_eq take_Cons' nth_Cons')
        qed
      qed
    qed
  qed
qed

lemma append_cases:
  assumes "append_entries_from_leader fp D tr pi pt T lc es s = (s', r)"
  obtains
    (unchanged) "s' = s" "(\<exists>e. r = Inl e) \<or> (\<exists>rep. r = Inr rep \<and> append_entries_prev_conflict pi pt s = Some rep)"
  | (matched) "validate_append_entries_shape fp pi pt T es = Inr ()" "append_entries_prev_conflict pi pt s = None"
      "s' = s" "r = Inr (accepted (match_of s pi es) 0 0 0)" "list_all (held (ls_entries s)) (incoming s pi es)"
  | (repaired) pre suf where "validate_append_entries_shape fp pi pt T es = Inr ()"
      "append_entries_prev_conflict pi pt s = None" "incoming s pi es = pre @ suf" "suf \<noteq> []"
      "list_all (held (ls_entries s)) pre" "le_index (hd suf) \<le> ls_last_index s"
      "rewrite_suffix fp D tr (max lc (hs_commit_index (ls_hard_state s))) (match_of s pi es) suf s = (s', r)"
  | (extended) pre suf where "validate_append_entries_shape fp pi pt T es = Inr ()"
      "append_entries_prev_conflict pi pt s = None" "incoming s pi es = pre @ suf" "suf \<noteq> []"
      "list_all (held (ls_entries s)) pre" "ls_last_index s < le_index (hd suf)"
      "append_suffix fp D tr (max lc (hs_commit_index (ls_hard_state s))) (match_of s pi es) suf s = (s', r)"
proof (cases "validate_append_entries_shape fp pi pt T es")
  case (Inl e)
  with assms have "s' = s" "r = Inl e" by (simp_all add: append_entries_from_leader_def)
  then show ?thesis by (intro unchanged) auto
next
  case (Inr u)
  then have shape: "validate_append_entries_shape fp pi pt T es = Inr ()" by simp
  show ?thesis
  proof (cases "append_entries_prev_conflict pi pt s")
    case (Some rep)
    with assms shape have "s' = s" "r = Inr rep" by (simp_all add: append_entries_from_leader_def Let_def)
    with Some show ?thesis by (intro unchanged) auto
  next
    case None
    let ?in = "incoming s pi es" and ?c = "max lc (hs_commit_index (ls_hard_state s))"
    have run: "(case scan_incoming s 0 ?in of
        Refused e \<Rightarrow> (s, Inl e)
      | Rewrite pos \<Rightarrow> rewrite_suffix fp D tr ?c (match_of s pi es) (drop pos ?in) s
      | Append pos \<Rightarrow> append_suffix fp D tr ?c (match_of s pi es) (drop pos ?in) s
      | Matched \<Rightarrow> (s, Inr (accepted (match_of s pi es) 0 0 0))) = (s', r)"
      using assms
      unfolding append_entries_from_leader_def Let_def shape None sum.case option.case(1)
        incoming_drop [OF shape_ok(1) [OF shape]] match_of_def .
    note split = scan_split [where pos = 0 and es = ?in]
    have parts: "?in = take p ?in @ drop p ?in" "drop p ?in \<noteq> []" "hd (drop p ?in) = ?in ! p" if "p < length ?in" for p
      using that by (simp_all add: hd_drop_conv_nth)
    show ?thesis
    proof (cases "scan_incoming s 0 ?in")
      case Matched
      with run split have "s' = s" "r = Inr (accepted (match_of s pi es) 0 0 0)" "list_all (held (ls_entries s)) ?in"
        by auto
      then show ?thesis by (rule matched [OF shape None])
    next
      case (Rewrite p)
      with run split show ?thesis using repaired [OF shape None parts(1,2), of p] parts(3) [of p] by simp
    next
      case (Append p)
      with run split show ?thesis using extended [OF shape None parts(1,2), of p] parts(3) [of p] by simp
    next
      case (Refused e)
      with run have "s' = s" "r = Inl e" by simp_all
      then show ?thesis by (intro unchanged) auto
    qed
  qed
qed

text \<open>The previous entry was found.\<close>

lemma prev_found:
  assumes "append_entries_prev_conflict pi pt s = None"
  shows "pi \<le> ls_last_index s" and "term_at_index s pi = Some pt"
  using assms by (auto simp: append_entries_prev_conflict_def Let_def not_less split: if_splits option.splits)

end

section \<open>The invariant is kept\<close>

lemma indexes_put [simp]: "state_term_indexes (put_term_indexes x s) = x"
  by (cases x) (simp add: state_term_indexes_def put_term_indexes_def)

lemma put_simps [simp]:
  "ls_entries (put_term_indexes x s) = ls_entries s" "ls_entry_bytes (put_term_indexes x s) = ls_entry_bytes s"
  "ls_last_index (put_term_indexes x s) = ls_last_index s" "ls_last_term (put_term_indexes x s) = ls_last_term s"
  "ls_latest_snapshot (put_term_indexes x s) = ls_latest_snapshot s"
  "ls_retained_fingerprints (put_term_indexes x s) = ls_retained_fingerprints s"
  "ls_hard_state (put_term_indexes x s) = ls_hard_state s"
  by (simp_all add: put_term_indexes_def)

definition snapshot_positive :: "raft_log_state \<Rightarrow> bool" where
  "snapshot_positive s \<longleftrightarrow> (\<forall>snap. ls_latest_snapshot s = Some snap \<longrightarrow>
     sm_last_included_index snap \<noteq> 0 \<and> sm_last_included_term snap \<noteq> 0)"

text \<open>Entries that were validated and fit the snapshot make a consistent log.\<close>

lemma replace_ok:
  assumes "replace_retained_log_state s es sizes = Inr s'" and "chain es" and "commands_ok fp es"
    and "boundary_ok es (ls_latest_snapshot s)" and "snapshot_positive s"
  shows "log_ok fp s'"
proof -
  obtain fps where fps: "retained_request_identity_fingerprints_after es (snapshot_index s) = Inr fps"
    and len: "length es = length sizes"
    and s': "s' = put_term_indexes (term_indexes_from_entries es)
      (s\<lparr>ls_last_index := fst (log_end es (ls_latest_snapshot s)), ls_last_term := snd (log_end es (ls_latest_snapshot s)),
         ls_entries := es, ls_entry_bytes := sizes, ls_retained_fingerprints := fps, ls_age_cache := None\<rparr>)"
    using assms(1)
    by (auto simp: replace_retained_log_state_def replace_retained_log_state_with_fingerprints_def
        validate_retained_log_entry_bytes_len_def split: if_splits sum.splits)
  show ?thesis
    using assms(2-5) fps len
    unfolding log_ok_def s' snapshot_positive_def by (simp add: snapshot_index_def)
qed

lemma boundary_unit: "chain es \<Longrightarrow> validate_snapshot_log_boundary es l = Inr u \<Longrightarrow> boundary_ok es l"
  using boundary_iff by simp

lemma reconcile_ok:
  assumes "reconcile_persisted_log_with_snapshot es latest tr = Inr r" and "chain es" and "commands_ok fp es"
  shows "chain (rl_entries r) \<and> commands_ok fp (rl_entries r) \<and> boundary_ok (rl_entries r) latest"
proof -
  have d: "chain (drop n es)" "commands_ok fp (drop n es)" for n
    using assms(2,3) by (auto simp: chain_drop commands_ok_def list_all_iff dest: in_set_dropD)
  have "boundary_ok [] latest" by (simp add: boundary_ok_def)
  then show ?thesis
    using assms d boundary_unit [OF assms(2)] boundary_unit [OF d(1)]
    by (auto simp: reconcile_persisted_log_with_snapshot_def Let_def commands_ok_def
        split: option.splits if_splits sum.splits)
qed

lemma reload_ok:
  assumes "reload_retained_log_from_disk_locked fp D tr s = Inr s'" and "snapshot_positive s"
  shows "log_ok fp s'"
proof -
  obtain es r where es: "validate_persisted_log_entries fp es = Inr ()"
    and r: "reconcile_persisted_log_with_snapshot es (ls_latest_snapshot s) tr = Inr r"
    and s': "replace_retained_log_state s (rl_entries r) (map (dk_entry_len D) (rl_entries r)) = Inr s'"
    using assms(1)
    by (auto simp: reload_retained_log_from_disk_locked_def read_log_entries_def split: option.splits sum.splits if_splits)
  have "chain es" "commands_ok fp es" using es by (simp_all add: validate_persisted_iff)
  from reconcile_ok [OF r this] replace_ok [OF s'] assms(2) show ?thesis by blast
qed

subsection \<open>Appending\<close>

lemma log_end_append: "suf \<noteq> [] \<Longrightarrow> log_end (es @ suf) latest = (le_index (last suf), le_term (last suf))"
  by (simp add: log_end_def)

lemma live_all: "\<forall>e \<in> set es. si < le_index e \<Longrightarrow> live si es = es"
  by (simp add: filter_id_conv)

context consistent_log
begin

lemma positive: "snapshot_positive s"
  using snapshot_positive by (simp add: snapshot_positive_def)

lemma last_entry:
  assumes "ls_entries s \<noteq> []"
  shows "le_index (last (ls_entries s)) = ls_last_index s" and "le_term (last (ls_entries s)) = ls_last_term s"
  using ends assms by (simp_all add: log_end_def)

lemma extend_boundary:
  assumes "unat (le_index (hd suf)) = Suc (unat (ls_last_index s))" and "suf \<noteq> []" and "chain suf"
  shows "boundary_ok (ls_entries s @ suf) (ls_latest_snapshot s)"
proof -
  have hl: "ls_last_index s < le_index (hd suf)" using assms(1) by (simp add: word_less_nat_alt)
  then have ll: "ls_last_index s < le_index (last suf)"
    using chain_bounds(1) [OF assms(3), of "last suf"] assms(2) by simp
  have max: "ls_last_index s \<noteq> - 1" using hl by (metis word_order.extremum_strict max_word_max not_le)
  show ?thesis
  proof (cases "ls_latest_snapshot s")
    case None
    show ?thesis
    proof (cases "ls_entries s = []")
      case True
      then have "ls_last_index s = 0" using ends None by (simp add: log_end_def)
      with assms(1) have "le_index (hd suf) = 1" by (simp add: word_unat_eq_iff)
      with True None show ?thesis by (simp add: boundary_ok_def)
    next
      case False
      with boundary None show ?thesis by (simp add: boundary_ok_def)
    qed
  next
    case (Some snap)
    have si: "sm_last_included_index snap \<le> ls_last_index s" using snapshot_le_last Some by (simp add: snapshot_index_def)
    show ?thesis
    proof (cases "ls_entries s = []")
      case True
      then have "ls_last_index s = sm_last_included_index snap" using ends Some by (simp add: log_end_def)
      with True Some assms hl ll max show ?thesis by (auto simp: boundary_ok_def)
    next
      case False
      with boundary Some assms(2) si ll show ?thesis by (auto simp: boundary_ok_def)
    qed
  qed
qed

lemma extend_ok:
  assumes suf: "chain suf" "commands_ok fp suf" "suf \<noteq> []"
    and link: "unat (le_index (hd suf)) = Suc (unat (ls_last_index s))" "ls_last_term s \<le> le_term (hd suf)"
    and fps: "add_retained_request_identity_entries (ls_retained_fingerprints s) suf = (fps, None)"
  shows "log_ok fp ((append_to_caches D suf s)\<lparr>ls_retained_fingerprints := fps\<rparr>)"
proof -
  have ch: "chain (ls_entries s @ suf)"
    unfolding chain_append using entries_chain suf(1) link last_entry by (cases "ls_entries s = []") simp_all
  have above: "\<forall>e \<in> set suf. snapshot_index s < le_index e"
  proof
    fix e
    assume "e \<in> set suf"
    then have "le_index (hd suf) \<le> le_index e" by (rule chain_bounds(1) [OF suf(1)])
    moreover have "snapshot_index s < le_index (hd suf)"
      using link(1) snapshot_le_last by (simp add: word_less_nat_alt word_le_nat_alt)
    ultimately show "snapshot_index s < le_index e" by simp
  qed
  have "add_retained_request_identity_entries fmempty (live (snapshot_index s) (ls_entries s @ suf)) = (fps, None)"
    using fingerprints fps live_all [OF above]
      add_retained_append [of fmempty "live (snapshot_index s) (ls_entries s)" suf] by simp
  then have f: "retained_request_identity_fingerprints_after (ls_entries s @ suf) (snapshot_index s) = Inr fps"
    by (simp add: fingerprints_after_iff [OF ch])
  have c: "commands_ok fp (ls_entries s @ suf)" using entries_commands suf(2) by (simp add: commands_ok_def)
  have t: "fold add_term_index suf (state_term_indexes s) = term_indexes_from_entries (ls_entries s @ suf)"
    by (simp add: term_indexes_append caches)
  show ?thesis
    using ch c f bytes_length extend_boundary [OF link(1) suf(3,1)] snapshot_positive suf(3) t
    by (simp add: log_ok_def append_to_caches_def Let_def put_term_indexes_def state_term_indexes_def
        snapshot_index_def log_end_append)
qed

lemma term_at_snapshot:
  assumes "ls_latest_snapshot s = Some snap"
  shows "term_at_index s (sm_last_included_index snap) = Some (sm_last_included_term snap)"
proof (cases "\<exists>e \<in> set (ls_entries s). le_index e = sm_last_included_index snap")
  case True
  then obtain e where e: "e \<in> set (ls_entries s)" "le_index e = sm_last_included_index snap" by blast
  then have "le_index (hd (ls_entries s)) \<le> sm_last_included_index snap" using chain_bounds(1) [OF entries_chain e(1)] by simp
  then obtain k where k: "k \<in> set (ls_entries s)" "le_index k = sm_last_included_index snap"
    "le_term k = sm_last_included_term snap"
    using boundary e(1) assms by (auto simp: boundary_ok_def)
  then have "fmlookup (ls_term_by_index s) (sm_last_included_index snap) = Some (sm_last_included_term snap)"
    using term_by_index by blast
  with snapshot_positive [OF assms] show ?thesis by (simp add: term_at_index_def)
next
  case False
  then have "fmlookup (ls_term_by_index s) (sm_last_included_index snap) = None" by (simp add: term_by_index_None)
  with assms snapshot_positive [OF assms] show ?thesis by (simp add: term_at_index_def)
qed

lemma extended_link:
  assumes shape: "validate_append_entries_shape fp pi pt T es = Inr ()"
    and prev: "append_entries_prev_conflict pi pt s = None"
    and parts: "incoming s pi es = pre @ suf" "suf \<noteq> []"
    and held: "list_all (held (ls_entries s)) pre" and new: "ls_last_index s < le_index (hd suf)"
    and fits: "fits_snapshot s es"
  shows "unat (le_index (hd suf)) = Suc (unat (ls_last_index s))" and "ls_last_term s \<le> le_term (hd suf)"
proof -
  note sh = shape_ok [OF shape] and pf = prev_found [OF prev]
  let ?x = "hd suf"
  have x: "?x \<in> set es" using parts by (auto simp: incoming_def dest!: arg_cong [where f = set])
  then obtain as bs where es: "es = as @ ?x # bs" by (meson split_list)
  have "unat (le_index ?x) = Suc (unat (ls_last_index s)) \<and> ls_last_term s \<le> le_term ?x"
  proof (cases as rule: rev_cases)
    case Nil
    with sh(5) es have px: "unat (le_index ?x) = Suc (unat pi)" "pt \<le> le_term ?x" by (metis append_Nil list.distinct(1) list.sel(1))+
    then have "pi = ls_last_index s" using pf(1) new by (simp add: word_le_nat_alt word_less_nat_alt word_unat_eq_iff)
    then show ?thesis using px pf(2) term_at_last by simp
  next
    case (snoc as' y)
    then have "chain (as' @ [y] @ ?x # bs)" using sh(1) es by simp
    then have yx: "unat (le_index ?x) = Suc (unat (le_index y))" "le_term y \<le> le_term ?x"
      by (auto simp: chain_append checked_succ_iff)
    have y: "y \<in> set es" using es snoc by (metis UnCI list.set_intros(1) set_append)
    have yl: "le_index y \<le> ls_last_index s \<Longrightarrow> le_index y = ls_last_index s"
      using yx(1) new by (simp add: word_le_nat_alt word_less_nat_alt word_unat_eq_iff)
    have "le_index y = ls_last_index s \<and> le_term y = ls_last_term s"
    proof (cases "y \<in> set (incoming s pi es)")
      case True
      have "chain suf" using incoming_chain [OF sh(1), of s pi] parts(1) by (simp add: chain_append)
      then have "y \<notin> set suf" using chain_bounds(1) [of suf y] yx(1) by (auto simp: word_le_nat_alt)
      with True parts have "y \<in> set pre" by auto
      then obtain l where l: "l \<in> set (ls_entries s)" "le_index l = le_index y" "le_term l = le_term y"
        using held by (auto simp: list_all_iff held_def)
      then have i: "le_index y = ls_last_index s" using yl entry_index_le [OF l(1)] by simp
      have "fmlookup (ls_term_by_index s) (ls_last_index s) = Some (le_term y)" using l i term_by_index by metis
      then have "term_at_index s (ls_last_index s) = Some (le_term y)"
        using chain_nonzero [OF entries_chain l(1)] l(2) i by (simp add: term_at_index_def)
      with i term_at_last show ?thesis by simp
    next
      case False
      have "pi < le_index y" using chain_bounds(1) [OF sh(1) y] sh(5) y by (auto simp: word_le_nat_alt word_less_nat_alt)
      with False y have ysi: "le_index y \<le> snapshot_index s" by (auto simp: incoming_def not_less)
      then have i: "le_index y = ls_last_index s" "le_index y = snapshot_index s"
        using yl snapshot_le_last order_trans [OF ysi snapshot_le_last] by auto
      have "le_index y \<noteq> 0" using chain_nonzero [OF sh(1) y] by simp
      then obtain snap where snap: "ls_latest_snapshot s = Some snap" "le_index y = sm_last_included_index snap"
        using i(2) by (auto simp: snapshot_index_def split: option.splits)
      then have "le_term y = sm_last_included_term snap" using fits y by (auto simp: fits_snapshot_def)
      moreover have "term_at_index s (ls_last_index s) = Some (sm_last_included_term snap)"
        using term_at_snapshot [OF snap(1)] snap(2) i(1) by simp
      ultimately show ?thesis using i(1) term_at_last by simp
    qed
    then show ?thesis using yx by simp
  qed
  then show "unat (le_index (hd suf)) = Suc (unat (ls_last_index s))" "ls_last_term s \<le> le_term (hd suf)" by simp_all
qed

subsection \<open>Repairing\<close>

text \<open>Forgetting the fingerprints of the dropped entries leaves those of the kept ones.\<close>

lemma truncated_fingerprints:
  assumes split: "ls_entries s = keep @ rest"
    and p: "p = (if keep = [] then 0 else le_index (last keep))"
  shows "add_retained_request_identity_entries fmempty (live (snapshot_index s) keep) =
    (truncate_retained_request_identity_fingerprints (ls_retained_fingerprints s) p, None)"
proof -
  let ?K = "live (snapshot_index s) keep" and ?R = "live (snapshot_index s) rest"
  have ch: "chain (keep @ rest)" using entries_chain split by simp
  have srt: "sorted_wrt (\<lambda>a b. le_index a < le_index b) ?K" "sorted_wrt (\<lambda>a b. le_index a < le_index b) ?R"
    using sorted_wrt_filter [of _ "keep @ rest" "\<lambda>e. snapshot_index s < le_index e"] chain_sorted [OF ch]
    by (auto simp: sorted_wrt_append)
  have all: "add_retained_request_identity_entries fmempty (?K @ ?R) = (ls_retained_fingerprints s, None)"
    using fingerprints split by simp
  then have okK: "snd (add_retained_request_identity_entries fmempty ?K) = None"
    using add_retained_append_ok [of fmempty ?K ?R] by simp
  let ?m = "fst (add_retained_request_identity_entries fmempty ?K)"
  have lookK: "fmlookup ?m i = first_with ?K i" for i
    using lookup_add_retained [OF okK srt(1), of i] by (simp add: option_or_else_def)
  have all2: "add_retained_request_identity_entries ?m ?R = (ls_retained_fingerprints s, None)"
    using all add_retained_append [OF okK, of ?R] by simp
  have KR: "\<forall>a \<in> set keep. \<forall>b \<in> set rest. le_index a < le_index b"
    using chain_sorted [OF ch] by (auto simp: sorted_wrt_append)
  have bound: "\<forall>i r. fmlookup ?m i = Some r \<longrightarrow> (\<forall>e \<in> set ?R. rf_first_index r \<le> le_index e)"
    using first_with_index KR lookK by (force intro: less_imp_le)
  have look: "fmlookup (ls_retained_fingerprints s) i = option_or_else (first_with ?K i) (first_with ?R i)" for i
    using lookup_add_retained [OF _ srt(2) bound, of i] all2 lookK by simp
  have inK: "first_with ?K i = Some r \<Longrightarrow> p \<noteq> 0 \<and> rf_first_index r \<le> p" for i r
  proof -
    assume "first_with ?K i = Some r"
    then obtain e where e: "e \<in> set keep" "rf_first_index r = le_index e" using first_with_index by fastforce
    have k: "chain keep" using ch by (simp add: chain_append)
    have "last keep \<in> set keep" using e(1) by (cases keep) auto
    then have "le_index e \<le> le_index (last keep)" "le_index (last keep) \<noteq> 0"
      using chain_bounds(2) [OF k e(1)] chain_nonzero [OF k] by blast+
    with e p show ?thesis by (cases "keep = []") auto
  qed
  have inR: "first_with ?R i = Some r \<Longrightarrow> \<not> (p \<noteq> 0 \<and> rf_first_index r \<le> p)" for i r
  proof -
    assume "first_with ?R i = Some r"
    then obtain e where e: "e \<in> set rest" "rf_first_index r = le_index e" using first_with_index by fastforce
    with KR p show ?thesis by (cases "keep = []") (auto simp: not_le)
  qed
  have "fmlookup ?m i = fmlookup (truncate_retained_request_identity_fingerprints (ls_retained_fingerprints s) p) i" for i
  proof (cases "first_with ?K i")
    case (Some r)
    then have "fmlookup (truncate_retained_request_identity_fingerprints (ls_retained_fingerprints s) p) i = Some r"
      unfolding lookup_truncated look using inK by (simp add: option_or_else_def)
    with Some lookK show ?thesis by simp
  next
    case None
    have "fmlookup (truncate_retained_request_identity_fingerprints (ls_retained_fingerprints s) p) i \<noteq> Some r" for r
      unfolding lookup_truncated look using inR None by (auto simp: option_or_else_def)
    with None lookK show ?thesis by (metis not_None_eq)
  qed
  then have "?m = truncate_retained_request_identity_fingerprints (ls_retained_fingerprints s) p" by (rule fmap_ext)
  with okK show ?thesis by (metis prod.collapse)
qed

lemma reload_after_ok:
  assumes "reload_after fp D tr e s = (s', r)"
  shows "log_ok fp s'"
  using assms ok reload_ok [OF _ positive] by (auto simp: reload_after_def split: sum.splits)

text \<open>Every remembered request id is first used in the log, so nothing is forgotten up to its end.\<close>

lemma truncate_all:
  "truncate_retained_request_identity_fingerprints (ls_retained_fingerprints s) (ls_last_index s) = ls_retained_fingerprints s"
  (is "truncate_retained_request_identity_fingerprints ?fps _ = _")
proof (rule fmap_ext)
  fix i
  show "fmlookup (truncate_retained_request_identity_fingerprints ?fps (ls_last_index s)) i = fmlookup ?fps i"
  proof (cases "fmlookup ?fps i")
    case None
    then show ?thesis using lookup_truncated [of ?fps "ls_last_index s" i] by (metis not_None_eq)
  next
    case (Some f)
    obtain e where "e \<in> set (ls_entries s)" "rf_first_index f = le_index e"
      using fingerprint_index [OF Some] by blast
    then show ?thesis
      using Some entry_index_le [of e] chain_nonzero [OF entries_chain, of e]
        lookup_truncated [of ?fps "ls_last_index s" i f] by auto
  qed
qed

lemma append_suffix_ok:
  assumes "append_suffix fp D tr c mi suf s = (s', r)" and suf: "chain suf" "commands_ok fp suf" "suf \<noteq> []"
    and link: "unat (le_index (hd suf)) = Suc (unat (ls_last_index s))" "ls_last_term s \<le> le_term (hd suf)"
  shows "log_ok fp s'"
    and "r = Inr rep \<Longrightarrow> ls_entries s' = ls_entries s @ suf \<and> c < le_index (hd suf) \<and> rep = accepted mi (length suf) 0 0 \<and>
      ls_latest_snapshot s' = ls_latest_snapshot s"
proof -
  let ?fps = "ls_retained_fingerprints s"
  have "log_ok fp s' \<and> (r = Inr rep \<longrightarrow> ls_entries s' = ls_entries s @ suf \<and> c < le_index (hd suf) \<and>
    rep = accepted mi (length suf) 0 0 \<and> ls_latest_snapshot s' = ls_latest_snapshot s)"
  proof (cases "le_index (hd suf) \<le> c \<or> \<not> dk_append_ok D \<or>
      validate_repaired_request_identity_context (ls_snapshot_fingerprints s) ?fps (ls_last_index s) suf \<noteq> Inr ()")
    case True
    then have "s' = s \<and> (\<exists>e. r = Inl e)" using assms(1) by (auto simp: append_suffix_def split: if_splits sum.splits)
    then show ?thesis using ok by auto
  next
    case False
    then have v: "validate_repaired_request_identity_context (ls_snapshot_fingerprints s) ?fps (ls_last_index s) suf = Inr ()" by simp
    have "truncate_retained_request_identity_fingerprints ?fps (ls_last_index s) = ?fps" by (rule truncate_all)
    then have "snd (add_retained_request_identity_entries ?fps suf) = None"
      using add_retained_ok validated_context_agrees [OF v] by simp
    then obtain fps where fps: "add_retained_request_identity_entries ?fps suf = (fps, None)" by (metis prod.collapse)
    have s': "s' = (append_to_caches D suf s)\<lparr>ls_retained_fingerprints := fps\<rparr>" "r = Inr (accepted mi (length suf) 0 0)"
      using assms(1) False v fps
      by (auto simp: append_suffix_def append_to_caches_def Let_def put_term_indexes_def state_term_indexes_def split: if_splits)
    show ?thesis using extend_ok [OF suf link fps, of D] s' False
      by (auto simp: append_to_caches_def Let_def put_term_indexes_def not_le)
  qed
  then show "log_ok fp s'" "r = Inr rep \<Longrightarrow> ls_entries s' = ls_entries s @ suf \<and> c < le_index (hd suf) \<and>
    rep = accepted mi (length suf) 0 0 \<and> ls_latest_snapshot s' = ls_latest_snapshot s" by simp_all
qed

lemma repaired_suffix:
  assumes "validate_repaired_log_suffix fp es n suf latest = Inr ()" and "chain es" and "suf \<noteq> []"
  shows "chain (take n es @ suf)" and "commands_ok fp suf" and "boundary_ok (take n es @ suf) latest" and "n \<le> length es"
proof -
  let ?p = "take n es"
  have n: "n \<le> length es" and suf: "chain suf" "commands_ok fp suf"
    and b: "validate_snapshot_log_boundary (if ?p = [] then suf else ?p) latest = Inr ()"
    and link: "?p = [] \<or> (\<exists>x. checked_succ (le_index (last ?p)) = Some x \<and> le_index (hd suf) = x \<and>
      le_term (last ?p) \<le> le_term (hd suf))"
    using assms(1,3) validate_persisted_iff [of fp suf]
    by (auto simp: validate_repaired_log_suffix_def Let_def not_less split: if_splits sum.splits option.splits)
  have p: "chain ?p" by (rule chain_take [OF assms(2)])
  show ch: "chain (?p @ suf)" unfolding chain_append using p suf link by (auto simp: checked_succ_iff)
  show "commands_ok fp suf" "n \<le> length es" by (fact suf n)+
  have "chain (if ?p = [] then suf else ?p)" using p suf by simp
  then have b': "boundary_ok (if ?p = [] then suf else ?p) latest" using b by (simp add: boundary_iff)
  show "boundary_ok (?p @ suf) latest"
  proof (cases "?p = []")
    case True
    show ?thesis using b' unfolding True by simp
  next
    case False
    have "last ?p \<in> set (?p @ suf)" using False by simp
    then have "le_index (last ?p) \<le> le_index (last suf)" using chain_bounds(2) [OF ch, of "last ?p"] assms(3) by simp
    with False b' assms(3) show ?thesis
      by (auto simp: boundary_ok_def split: option.splits)
  qed
qed

lemma rewrite_suffix_ok:
  assumes "rewrite_suffix fp D tr c mi suf s = (s', r)" and "suf \<noteq> []"
    and above: "\<forall>e \<in> set suf. snapshot_index s < le_index e"
  defines "keep \<equiv> retained_entry_lower_bound (ls_entries s) (le_index (hd suf))"
  shows "log_ok fp s'"
    and "r = Inr rep \<Longrightarrow> ls_entries s' = take keep (ls_entries s) @ suf \<and> c < le_index (hd suf) \<and>
      rep = accepted mi 0 (length suf) (length (ls_entries s) - keep) \<and> ls_latest_snapshot s' = ls_latest_snapshot s"
proof -
  define pl where "pl = (if 0 < keep then le_index (ls_entries s ! (keep - 1)) else 0)"
  let ?v = "validate_repaired_log_suffix fp (ls_entries s) keep suf (ls_latest_snapshot s)"
  let ?i = "validate_repaired_request_identity_context (ls_snapshot_fingerprints s) (ls_retained_fingerprints s) pl suf"
  let ?l = "retained_log_prefix_file_len (ls_entries s) (ls_entry_bytes s) keep"
  note run = assms(1) [unfolded rewrite_suffix_def Let_def, folded keep_def, folded pl_def]
  have "log_ok fp s' \<and> (r = Inr rep \<longrightarrow> ls_entries s' = take keep (ls_entries s) @ suf \<and> c < le_index (hd suf) \<and>
    rep = accepted mi 0 (length suf) (length (ls_entries s) - keep) \<and> ls_latest_snapshot s' = ls_latest_snapshot s)"
  proof (cases "le_index (hd suf) \<le> c \<or> (\<exists>e. ?l = Inl e) \<or> ?v \<noteq> Inr () \<or> ?i \<noteq> Inr ()")
    case True
    then have "s' = s \<and> (\<exists>e. r = Inl e)"
      using run by (auto split: if_splits sum.splits)
    then show ?thesis using ok by auto
  next
    case False
    then obtain n where v: "?v = Inr ()" and i: "?i = Inr ()" and c: "\<not> le_index (hd suf) \<le> c" and l: "?l = Inr n"
      by (cases ?l) auto
    note rs = repaired_suffix [OF v entries_chain assms(2)]
    let ?k = "take keep (ls_entries s)"
    have p: "pl = (if ?k = [] then 0 else le_index (last ?k))"
      using rs(4) by (auto simp: pl_def last_conv_nth min_def)
    note tf = truncated_fingerprints [OF append_take_drop_id [symmetric] p]
    let ?t = "truncate_retained_request_identity_fingerprints (ls_retained_fingerprints s) pl"
    have "snd (add_retained_request_identity_entries ?t suf) = None"
      by (rule add_retained_ok [OF validated_context_agrees [OF i]])
    then obtain fps where fps: "add_retained_request_identity_entries ?t suf = (fps, None)" by (metis prod.collapse)
    show ?thesis
    proof (cases "dk_truncate_ok D")
      case False
      then have "reload_after fp D tr Io s = (s', r)"
        using run v i c l by simp
      then show ?thesis using reload_after_ok by (auto simp: reload_after_def split: sum.splits)
    next
      case True
      let ?es = "?k @ suf"
      have s': "s' = put_term_indexes (term_indexes_from_entries ?es)
          (s\<lparr>ls_entries := ?es, ls_entry_bytes := take keep (ls_entry_bytes s) @ map (dk_entry_len D) suf,
             ls_age_cache := None, ls_retained_fingerprints := fps,
             ls_last_index := fst (log_end ?es (ls_latest_snapshot s)),
             ls_last_term := snd (log_end ?es (ls_latest_snapshot s))\<rparr>)"
        and r: "r = Inr (accepted mi 0 (length suf) (length (ls_entries s) - keep))"
        using run True v i c l fps by auto
      have "add_retained_request_identity_entries fmempty (live (snapshot_index s) ?es) = (fps, None)"
        using add_retained_append [of fmempty "live (snapshot_index s) ?k" suf] tf fps live_all [OF above] by simp
      then have "retained_request_identity_fingerprints_after ?es (snapshot_index s) = Inr fps"
        by (simp add: fingerprints_after_iff [OF rs(1)])
      moreover have "commands_ok fp ?es"
        using entries_commands rs(2) by (auto simp: commands_ok_def list_all_iff dest: in_set_takeD)
      ultimately have "log_ok fp s'"
        unfolding s' log_ok_def using rs bytes_length snapshot_positive
        by (simp add: snapshot_index_def)
      with s' r c show ?thesis by (simp add: not_le)
    qed
  qed
  then show "log_ok fp s'" "r = Inr rep \<Longrightarrow> ls_entries s' = take keep (ls_entries s) @ suf \<and> c < le_index (hd suf) \<and>
    rep = accepted mi 0 (length suf) (length (ls_entries s) - keep) \<and> ls_latest_snapshot s' = ls_latest_snapshot s"
    by simp_all
qed

end

end
