(* ===== verification/Raft_Agreement.thy ===== *)
theory Raft_Agreement
  imports Raft_Replication
begin

text \<open>
  What the follower's append achieves: the invariant of the log, the safety of committed
  entries, agreement with the leader, the step of Raft's log matching property, and hints the
  leader accepts.
\<close>

text \<open>
  Log matching between the entries of two nodes: where an index has the same term in both,
  all earlier indexes that both hold have the same term and command.
\<close>

definition same :: "raft_log_entry \<Rightarrow> raft_log_entry \<Rightarrow> bool" where
  "same a b \<longleftrightarrow> le_term a = le_term b \<and> le_command a = le_command b"

definition log_matching :: "raft_log_entry list \<Rightarrow> raft_log_entry list \<Rightarrow> bool" where
  "log_matching es L \<longleftrightarrow> (\<forall>e \<in> set es. \<forall>l \<in> set L. le_index e = le_index l \<longrightarrow> le_term e = le_term l \<longrightarrow>
     (\<forall>e' \<in> set es. \<forall>l' \<in> set L. le_index e' = le_index l' \<longrightarrow> le_index e' \<le> le_index e \<longrightarrow> same e' l'))"

text \<open>Both logs agree on what the snapshot covers, which is committed.\<close>

definition agree_upto :: "u64 \<Rightarrow> raft_log_entry list \<Rightarrow> raft_log_entry list \<Rightarrow> bool" where
  "agree_upto i es L \<longleftrightarrow>
     (\<forall>e \<in> set es. \<forall>l \<in> set L. le_index e = le_index l \<longrightarrow> le_index e \<le> i \<longrightarrow> same e l)"

text \<open>The previous entry of the message is an entry of the leader, or the start of the log.\<close>

definition prev_in :: "u64 \<Rightarrow> u64 \<Rightarrow> raft_log_entry list \<Rightarrow> bool" where
  "prev_in pi pt L \<longleftrightarrow> pi = 0 \<or> (\<exists>l \<in> set L. le_index l = pi \<and> le_term l = pt)"

context consistent_log
begin

section \<open>The invariant\<close>

lemma suffix_facts:
  assumes "validate_append_entries_shape fp pi pt T es = Inr ()" and "incoming s pi es = pre @ suf"
  shows "chain suf" and "commands_ok fp suf" and "\<forall>e \<in> set suf. snapshot_index s < le_index e" and "set suf \<subseteq> set es"
proof -
  note sh = shape_ok [OF assms(1)]
  show "chain suf" using incoming_chain [OF sh(1), of s pi] assms(2) by (simp add: chain_append)
  have sub: "set (pre @ suf) \<subseteq> set es" unfolding assms(2) [symmetric] by (auto simp: incoming_def)
  then show "set suf \<subseteq> set es" by simp
  then show "commands_ok fp suf" using sh(2) by (auto simp: commands_ok_def list_all_iff)
  have "\<forall>e \<in> set (pre @ suf). snapshot_index s < le_index e"
    unfolding assms(2) [symmetric] by (simp add: incoming_def)
  then show "\<forall>e \<in> set suf. snapshot_index s < le_index e" by simp
qed

lemma append_keeps_ok:
  assumes run: "append_entries_from_leader fp D tr pi pt T lc es s = (s', r)" and fits: "fits_snapshot s es"
  shows "log_ok fp s'"
  using run
proof (cases rule: append_cases)
  case unchanged
  then show ?thesis using ok by simp
next
  case matched
  then show ?thesis using ok by simp
next
  case (repaired pre suf)
  note f = suffix_facts [OF repaired(1,3)]
  show ?thesis by (rule rewrite_suffix_ok(1) [OF repaired(7,4) f(3)])
next
  case (extended pre suf)
  note f = suffix_facts [OF extended(1,3)]
  show ?thesis
    by (rule append_suffix_ok(1) [OF extended(7) f(1,2) extended(4)
        extended_link [OF extended(1-6) fits]])
qed

section \<open>What a reply means\<close>

text \<open>
  A successful append leaves a kept part of the old entries followed by the end of the
  incoming ones; the incoming entries before it were held already.
\<close>

lemma success_cases:
  assumes run: "append_entries_from_leader fp D tr pi pt T lc es s = (s', Inr rep)" and "ar_success rep"
    and fits: "fits_snapshot s es"
  obtains K pre suf where "incoming s pi es = pre @ suf" "list_all (held (ls_entries s)) pre"
    "ls_entries s' = K @ suf" "suf = [] \<Longrightarrow> K = ls_entries s"
    "suf \<noteq> [] \<Longrightarrow> K = filter (\<lambda>e. le_index e < le_index (hd suf)) (ls_entries s)"
    "suf \<noteq> [] \<Longrightarrow> max lc (hs_commit_index (ls_hard_state s)) < le_index (hd suf)"
    "ar_match_index rep = match_of s pi es" "ls_latest_snapshot s' = ls_latest_snapshot s"
    "validate_append_entries_shape fp pi pt T es = Inr ()" "append_entries_prev_conflict pi pt s = None"
  using run
proof (cases rule: append_cases)
  case unchanged
  then have "append_entries_prev_conflict pi pt s = Some rep" by auto
  then have "\<not> ar_success rep"
    by (auto simp: append_entries_prev_conflict_def rejected_def Let_def split: if_splits option.splits)
  with assms(2) show ?thesis by simp
next
  case matched
  then show ?thesis using that [of "incoming s pi es" "[]" "ls_entries s"] by (simp add: accepted_def)
next
  case (repaired pre suf)
  note f = suffix_facts [OF repaired(1,3)]
  note rw = rewrite_suffix_ok(2) [OF repaired(7,4) f(3) refl]
  have "take (retained_entry_lower_bound (ls_entries s) (le_index (hd suf))) (ls_entries s) =
      filter (\<lambda>e. le_index e < le_index (hd suf)) (ls_entries s)"
    unfolding take_lower by (rule takeWhile_sorted(1) [OF chain_sorted [OF entries_chain]])
  with rw repaired show ?thesis
    using that [of pre suf "filter (\<lambda>e. le_index e < le_index (hd suf)) (ls_entries s)"] by (simp add: accepted_def)
next
  case (extended pre suf)
  note f = suffix_facts [OF extended(1,3)]
  note ex = append_suffix_ok(2) [OF extended(7) f(1,2) extended(4) extended_link [OF extended(1-6) fits] refl]
  have "filter (\<lambda>e. le_index e < le_index (hd suf)) (ls_entries s) = ls_entries s"
    using entry_index_le extended(6) by (auto simp: filter_id_conv intro: le_less_trans)
  with ex extended show ?thesis using that [of pre suf "ls_entries s"] by (simp add: accepted_def)
qed

lemma refused_unchanged:
  assumes run: "append_entries_from_leader fp D tr pi pt T lc es s = (s', Inr rep)" and "\<not> ar_success rep"
    and fits: "fits_snapshot s es"
  shows "s' = s \<and> append_entries_prev_conflict pi pt s = Some rep"
  using run
proof (cases rule: append_cases)
  case unchanged
  then show ?thesis by auto
next
  case matched
  with assms(2) show ?thesis by (simp add: accepted_def)
next
  case (repaired pre suf)
  from rewrite_suffix_ok(2) [OF repaired(7,4) suffix_facts(3) [OF repaired(1,3)] refl] assms(2)
  show ?thesis by (simp add: accepted_def)
next
  case (extended pre suf)
  note f = suffix_facts [OF extended(1,3)]
  from append_suffix_ok(2) [OF extended(7) f(1,2) extended(4) extended_link [OF extended(1-6) fits] refl] assms(2)
  show ?thesis by (simp add: accepted_def)
qed

lemma committed_kept:
  assumes run: "append_entries_from_leader fp D tr pi pt T lc es s = (s', Inr rep)" and fits: "fits_snapshot s es"
    and c: "c = max lc (hs_commit_index (ls_hard_state s))"
  shows "filter (\<lambda>e. le_index e \<le> c) (ls_entries s') = filter (\<lambda>e. le_index e \<le> c) (ls_entries s)"
proof (cases "ar_success rep")
  case False
  then show ?thesis using refused_unchanged [OF run _ fits] by simp
next
  case True
  from run True fits show ?thesis
  proof (cases rule: success_cases)
    case (1 K pre suf)
    note f = suffix_facts [OF 1(9,1)]
    show ?thesis
    proof (cases "suf = []")
      case False
      have hc: "c < le_index (hd suf)" using 1(6) [OF False] c by simp
      have "\<forall>e \<in> set suf. \<not> le_index e \<le> c"
        using chain_bounds(1) [OF f(1)] hc by (auto simp: not_le intro: less_le_trans)
      moreover have "\<And>x. le_index x \<le> c \<Longrightarrow> le_index x < le_index (hd suf)" using hc by (auto intro: le_less_trans)
      ultimately show ?thesis
        unfolding 1(3) 1(5) [OF False] by (auto simp: filter_empty_conv intro!: filter_cong)
    qed (use 1 in simp)
  qed
qed

lemma success_holds:
  assumes run: "append_entries_from_leader fp D tr pi pt T lc es s = (s', Inr rep)" and "ar_success rep"
    and fits: "fits_snapshot s es"
  shows "\<forall>e \<in> set es. snapshot_index s < le_index e \<longrightarrow> held (ls_entries s') e"
  using assms
proof (cases rule: success_cases)
  case (1 K pre suf)
  note sh = shape_ok [OF 1(9)] and f = suffix_facts [OF 1(9,1)]
  show ?thesis
  proof (intro ballI impI)
    fix e
    assume e: "e \<in> set es" "snapshot_index s < le_index e"
    have "pi < le_index e" using chain_bounds(1) [OF sh(1) e(1)] sh(5) e(1) by (auto simp: word_le_nat_alt word_less_nat_alt)
    then have "e \<in> set (pre @ suf)" unfolding 1(1) [symmetric] using e by (simp add: incoming_def)
    then consider "e \<in> set suf" | "e \<in> set pre" by auto
    then show "held (ls_entries s') e"
    proof cases
      case 1
      then show ?thesis unfolding \<open>ls_entries s' = K @ suf\<close> by (auto simp: held_def)
    next
      case 2
      have "le_index e < le_index (hd suf)" if "suf \<noteq> []"
        using chain_sorted [OF incoming_chain [OF sh(1), of s pi]] 2 that
        unfolding \<open>incoming s pi es = pre @ suf\<close> by (auto simp: sorted_wrt_append)
      moreover have "held (ls_entries s) e" using 1(2) 2 by (simp add: list_all_iff)
      ultimately show ?thesis unfolding \<open>ls_entries s' = K @ suf\<close>
        using 1(4,5) by (cases "suf = []") (auto simp: held_def)
    qed
  qed
qed

section \<open>Log matching\<close>

text \<open>An old entry below the new suffix agrees with the leader.\<close>

lemma kept_same:
  assumes shape: "validate_append_entries_shape fp pi pt T es = Inr ()"
    and prev: "append_entries_prev_conflict pi pt s = None"
    and parts: "incoming s pi es = pre @ suf" and held: "list_all (held (ls_entries s)) pre"
    and L: "chain L" "set es \<subseteq> set L" "prev_in pi pt L" "log_matching (ls_entries s) L"
    "agree_upto (snapshot_index s) (ls_entries s) L"
    and a: "a \<in> set (ls_entries s)" "b \<in> set L" "le_index a = le_index b" and x: "x \<in> set suf" "le_index a < le_index x"
    and low: "le_index a < le_index (hd suf)"
  shows "same a b"
proof -
  note sh = shape_ok [OF shape] and f = suffix_facts [OF shape parts]
  consider "le_index a \<le> snapshot_index s" | "le_index a \<le> pi" "snapshot_index s < le_index a"
    | "snapshot_index s < le_index a" "pi < le_index a" by fastforce
  then show ?thesis
  proof cases
    case 1
    then show ?thesis using L(5) a by (auto simp: agree_upto_def)
  next
    case 2
    from prev_found(2) [OF prev] show ?thesis
    proof (cases rule: term_at_cases)
      case 1
      with 2 chain_nonzero [OF entries_chain a(1)] show ?thesis by simp
    next
      case (2 e)
      have "pi \<noteq> 0" using chain_nonzero [OF entries_chain 2(1)] 2(2) by auto
      then obtain l where "l \<in> set L" "le_index l = pi" "le_term l = pt" using L(3) by (auto simp: prev_in_def)
      then show ?thesis using L(4) 2 a \<open>le_index a \<le> pi\<close> unfolding log_matching_def by metis
    next
      case (3 snap)
      with 2 show ?thesis by (auto simp: snapshot_index_def)
    qed
  next
    case 3
    have es: "es \<noteq> []" using f(4) x(1) by auto
    have x': "x \<in> set es" using f(4) x(1) by blast
    have "le_index (hd es) \<le> le_index a"
      using 3(2) sh(5) es by (simp add: word_le_nat_alt word_less_nat_alt)
    moreover have "le_index a \<le> le_index (last es)"
      using chain_bounds(2) [OF sh(1) x'] x(2) by (meson less_imp_le order_trans)
    ultimately obtain y where y: "y \<in> set es" "le_index y = le_index a" using chain_member [OF sh(1) es] by blast
    then have "y \<in> set (pre @ suf)" unfolding parts [symmetric] using 3 by (simp add: incoming_def)
    moreover have "y \<notin> set suf" using chain_bounds(1) [OF f(1), of y] low y(2) by auto
    ultimately have "held (ls_entries s) y" using held by (auto simp: list_all_iff)
    then obtain k where k: "k \<in> set (ls_entries s)" "le_index k = le_index y" "same k y"
      by (auto simp: held_def same_def)
    have "k = a" using chain_unique [OF entries_chain k(1) a(1)] k(2) y(2) by simp
    moreover have "y = b" using chain_unique [OF L(1) _ a(2)] y a(3) L(2) by auto
    ultimately show ?thesis using k(3) by simp
  qed
qed

lemma matching_kept:
  assumes run: "append_entries_from_leader fp D tr pi pt T lc es s = (s', Inr rep)" and fits: "fits_snapshot s es"
    and L: "chain L" "set es \<subseteq> set L" "prev_in pi pt L" "log_matching (ls_entries s) L"
    "agree_upto (snapshot_index s) (ls_entries s) L"
  shows "log_matching (ls_entries s') L"
proof (cases "ar_success rep")
  case False
  then show ?thesis using refused_unchanged [OF run _ fits] L(4) by simp
next
  case True
  from run True fits show ?thesis
  proof (cases rule: success_cases)
    case (1 K pre suf)
    note f = suffix_facts [OF 1(9,1)]
    show ?thesis
    proof (cases "suf = []")
      case True
      with 1 L(4) show ?thesis by simp
    next
      case ne: False
      have K: "k \<in> set K \<Longrightarrow> k \<in> set (ls_entries s) \<and> le_index k < le_index (hd suf)" for k using 1(5) [OF ne] by simp
      have sufL: "k \<in> set suf \<Longrightarrow> k \<in> set L" for k using f(4) L(2) by blast
      show ?thesis unfolding log_matching_def 1(3)
      proof (intro ballI impI)
        fix e l a b
        assume e: "e \<in> set (K @ suf)" and l: "l \<in> set L" "le_index e = le_index l" "le_term e = le_term l"
          and a: "a \<in> set (K @ suf)" and b: "b \<in> set L" "le_index a = le_index b" "le_index a \<le> le_index e"
        consider "a \<in> set suf" | "a \<in> set K" "e \<in> set K" | "a \<in> set K" "e \<in> set suf" using a e by auto
        then show "same a b"
        proof cases
          case 1
          then have "a = b" using chain_unique [OF L(1) sufL b(1,2)] by simp
          then show ?thesis by (simp add: same_def)
        next
          case 2
          with K l b L(4) show ?thesis unfolding log_matching_def by blast
        next
          case 3
          note k = K [OF 3(1)]
          have "le_index a < le_index e" using k chain_bounds(1) [OF f(1) 3(2)] by (auto intro: less_le_trans)
          then show ?thesis
            using kept_same [OF 1(9,10,1,2) L conjunct1 [OF k] b(1,2) 3(2) _ conjunct2 [OF k]] by simp
        qed
      qed
    qed
  qed
qed

section \<open>Hints\<close>

lemma hint_accepted:
  assumes rep: "append_entries_prev_conflict pi pt s = Some rep" and zero: "pi = 0 \<longleftrightarrow> pt = 0"
    and terms: "\<forall>i t. term_at_index s i = Some t \<longrightarrow> t \<le> T"
    and snap: "\<forall>snap. ls_latest_snapshot s = Some snap \<longrightarrow> sm_last_included_index snap = pi \<longrightarrow> sm_last_included_term snap = pt"
    and nxt: "unat nxt = Suc (unat pi)"
  shows "invalid_append_conflict_hint_reason (ar_conflict_term rep) (ar_conflict_index rep) (ar_match_index rep) pi nxt T = None"
proof -
  have pn: "pi < nxt" using nxt by (simp add: word_less_nat_alt)
  have succ: "saturating_add x 1 \<noteq> 0" for x :: u64
    by (cases "x = 0") (auto simp: saturating_add_def split: if_splits)
  show ?thesis
  proof (cases "ls_last_index s < pi")
    case True
    then have "rep = rejected (ls_last_index s) (Some (saturating_add (ls_last_index s) 1)) None"
      using rep by (simp add: append_entries_prev_conflict_def)
    with True pn succ show ?thesis by (auto simp: invalid_append_conflict_hint_reason_def rejected_def)
  next
    case False
    have pi: "pi \<noteq> 0" using rep zero False by (auto simp: append_entries_prev_conflict_def term_at_index_def Let_def)
    define k where "k = min (ls_last_index s) (saturating_sub pi 1)"
    have m: "k < pi" "k < nxt"
    proof -
      have "saturating_sub pi 1 < pi" using pi by (simp add: saturating_sub_def word_less_nat_alt word_le_nat_alt unat_sub unat_gt_0)
      then show "k < pi" by (simp add: k_def min_less_iff_disj)
      then show "k < nxt" using pn by (rule order.strict_trans)
    qed
    show ?thesis
    proof (cases "term_at_index s pi")
      case None
      then have "rep = rejected k (Some (saturating_add (snapshot_index s) 1)) None"
        using rep False by (simp add: append_entries_prev_conflict_def Let_def k_def)
      with m succ show ?thesis by (auto simp: invalid_append_conflict_hint_reason_def rejected_def)
    next
      case (Some t)
      with rep False have t: "t \<noteq> pt" and r: "rep = rejected k (first_index_for_term s t) (Some t)"
        by (auto simp: append_entries_prev_conflict_def Let_def k_def split: if_splits)
      from Some obtain e where e: "e \<in> set (ls_entries s)" "le_index e = pi" "le_term e = t"
        using pi snap t by (cases rule: term_at_cases) auto
      obtain i where i: "fmlookup (ls_first_index_by_term s) t = Some i" "i \<le> pi" "i \<noteq> 0"
        using first_index_by_term_le [OF e(1)] e by auto
      have "t \<noteq> 0" using chain_nonzero [OF entries_chain e(1)] e(3) by simp
      moreover have "t \<le> T" using terms Some by blast
      moreover have "i < nxt" using i(2) pn by (rule le_less_trans)
      ultimately show ?thesis using i m r
        by (auto simp: invalid_append_conflict_hint_reason_def rejected_def first_index_for_term_def option_or_else_def)
    qed
  qed
qed

end

end
