(* ===== verification/Raft_Log_Maintenance.thy ===== *)
theory Raft_Log_Maintenance
  imports Raft_Log_Store
begin

text \<open>
  The rest of \<open>RaftLogStore\<close> in \<open>src/broker_raft.rs\<close>: the persisted term, vote and commit index,
  compaction, local and installed snapshots, opening a store, and the queries the leader
  sends entries with.  A snapshot payload is represented by what the code derives from it:
  its checksum, and the fingerprints of its client responses.
\<close>

section \<open>Term, vote and commit index\<close>

datatype vote_policy = PreserveSameTermVote | ForceClearSameTermVote

text \<open>The state to write: never an older term, never another vote in the same term.\<close>

definition next_hard_state ::
  "raft_hard_state \<Rightarrow> raft_hard_state \<Rightarrow> vote_policy \<Rightarrow> raft_error + raft_hard_state" where
  "next_hard_state cur new policy =
     (let n1 = (if hs_current_term new < hs_current_term cur
                then new\<lparr>hs_current_term := hs_current_term cur, hs_voted_for := hs_voted_for cur\<rparr> else new);
          checked = (if hs_current_term n1 = hs_current_term cur then
              (case (hs_voted_for cur, hs_voted_for n1) of
                 (Some v, Some w) \<Rightarrow> if v \<noteq> w then Inl (VoteReplaced v w (hs_current_term n1)) else Inr n1
               | (Some v, None) \<Rightarrow> if policy = PreserveSameTermVote then Inr (n1\<lparr>hs_voted_for := Some v\<rparr>) else Inr n1
               | (None, _) \<Rightarrow> Inr n1)
            else Inr n1)
      in case checked of
        Inl e \<Rightarrow> Inl e
      | Inr n2 \<Rightarrow> Inr (n2\<lparr>hs_commit_index := max (hs_commit_index n2) (hs_commit_index cur)\<rparr>))"

text \<open>Committing in the same term writes a slot of the commit file, everything else the state file.\<close>

definition write_hard_state_with_vote_policy_locked ::
  "raft_disk \<Rightarrow> raft_hard_state \<Rightarrow> vote_policy \<Rightarrow> raft_log_state \<Rightarrow> raft_log_state \<times> (raft_error + unit)" where
  "write_hard_state_with_vote_policy_locked D new policy s =
     (let cur = ls_hard_state s in
      case next_hard_state cur new policy of
        Inl e \<Rightarrow> (s, Inl e)
      | Inr n \<Rightarrow>
         if cur = n then (s, Inr ())
         else if hs_current_term n = hs_current_term cur \<and> hs_voted_for n = hs_voted_for cur \<and>
                 hs_commit_index cur < hs_commit_index n then
           (case checked_succ (ls_commit_generation s) of
              None \<Rightarrow> (s, Inl GenerationOverflow)
            | Some generation \<Rightarrow>
                if dk_hard_state_ok D
                then (s\<lparr>ls_commit_generation := generation, ls_hard_state := n\<rparr>, Inr ())
                else (s, Inl Io))
         else if dk_hard_state_ok D then (s\<lparr>ls_hard_state := n\<rparr>, Inr ())
         else (s, Inl Io))"

definition write_hard_state ::
  "raft_disk \<Rightarrow> raft_hard_state \<Rightarrow> raft_log_state \<Rightarrow> raft_log_state \<times> (raft_error + unit)" where
  "write_hard_state D new s = write_hard_state_with_vote_policy_locked D new PreserveSameTermVote s"

definition write_hard_state_clearing_vote ::
  "raft_disk \<Rightarrow> raft_hard_state \<Rightarrow> raft_log_state \<Rightarrow> raft_log_state \<times> (raft_error + unit)" where
  "write_hard_state_clearing_vote D new s = write_hard_state_with_vote_policy_locked D new ForceClearSameTermVote s"

definition candidate_log_is_fresh_for_state :: "raft_log_state \<Rightarrow> u64 \<Rightarrow> u64 \<Rightarrow> bool" where
  "candidate_log_is_fresh_for_state s last_index last_term \<longleftrightarrow>
     ls_last_term s < last_term \<or> (last_term = ls_last_term s \<and> ls_last_index s \<le> last_index)"

definition write_vote_hard_state_if_candidate_log_is_fresh ::
  "raft_disk \<Rightarrow> raft_hard_state \<Rightarrow> raft_hard_state option \<Rightarrow> u64 \<Rightarrow> u64 \<Rightarrow> raft_log_state \<Rightarrow>
   raft_log_state \<times> (raft_error + bool)" where
  "write_vote_hard_state_if_candidate_log_is_fresh D grant stale last_index last_term s =
     (if \<not> candidate_log_is_fresh_for_state s last_index last_term then
        (case stale of
           None \<Rightarrow> (s, Inr False)
         | Some st \<Rightarrow>
             (case write_hard_state D st s of
                (s', Inl e) \<Rightarrow> (s', Inl e) | (s', Inr _) \<Rightarrow> (s', Inr False)))
      else (case write_hard_state D grant s of
              (s', Inl e) \<Rightarrow> (s', Inl e) | (s', Inr _) \<Rightarrow> (s', Inr True)))"

section \<open>Compaction\<close>

definition repair_retained_log_entry_byte_cache_if_needed :: "raft_disk \<Rightarrow> raft_log_state \<Rightarrow> raft_log_state" where
  "repair_retained_log_entry_byte_cache_if_needed D s =
     (let expected = map (dk_entry_len D) (ls_entries s) in
      if ls_entry_bytes s = expected then s else s\<lparr>ls_entry_bytes := expected\<rparr>)"

record compaction_report =
  cr_compacted_through_index :: u64
  cr_compacted_entries :: nat
  cr_compacted_bytes :: nat
  cr_retained_entries :: nat
  cr_retained_bytes :: nat

definition compact_through ::
  "(request \<Rightarrow> string option) \<Rightarrow> raft_disk \<Rightarrow> u64 \<Rightarrow> raft_log_state \<Rightarrow>
   raft_log_state \<times> (raft_error + compaction_report)" where
  "compact_through fp D through s =
     (case ls_latest_snapshot s of
        None \<Rightarrow> (s, Inl NoSnapshot)
      | Some snap \<Rightarrow>
        if sm_last_included_index snap < through
        then (s, Inl (CompactionAheadOfSnapshot through (sm_last_included_index snap)))
        else (let s1 = repair_retained_log_entry_byte_cache_if_needed D s;
                  before = length (ls_entries s1);
                  start = retained_entry_upper_bound (ls_entries s1) through
          in case retained_log_prefix_file_len (ls_entries s1) (ls_entry_bytes s1) start of
            Inl e \<Rightarrow> (s1, Inl e)
          | Inr compacted_bytes \<Rightarrow>
            if start = 0 then
              (case retained_prefix_file_len (ls_entry_bytes s1) (length (ls_entry_bytes s1)) of
                 Inl e \<Rightarrow> (s1, Inl e)
               | Inr retained_bytes \<Rightarrow>
                 (case validate_log_entries_for_snapshot fp (ls_entries s1) (ls_latest_snapshot s1) of
                    Inl e \<Rightarrow> (s1, Inl e)
                  | Inr _ \<Rightarrow>
                      (s1, Inr \<lparr>cr_compacted_through_index = through, cr_compacted_entries = 0,
                                cr_compacted_bytes = compacted_bytes, cr_retained_entries = before,
                                cr_retained_bytes = retained_bytes\<rparr>)))
            else (let retained = drop start (ls_entries s1) in
              case retained_log_entry_bytes_suffix (ls_entries s1) (ls_entry_bytes s1) start of
                Inl e \<Rightarrow> (s1, Inl e)
              | Inr sizes \<Rightarrow>
                (case retained_prefix_file_len sizes (length sizes) of
                   Inl e \<Rightarrow> (s1, Inl e)
                 | Inr retained_bytes \<Rightarrow>
                   (case validate_log_entries_for_snapshot fp retained (ls_latest_snapshot s1) of
                      Inl e \<Rightarrow> (s1, Inl e)
                    | Inr _ \<Rightarrow>
                      if \<not> dk_rewrite_ok D then (s1, Inl Io)
                      else case replace_retained_log_state s1 retained sizes of
                        Inl e \<Rightarrow> (s1, Inl e)
                      | Inr s2 \<Rightarrow>
                          (s2, Inr \<lparr>cr_compacted_through_index = through,
                                    cr_compacted_entries = before - length retained,
                                    cr_compacted_bytes = compacted_bytes,
                                    cr_retained_entries = length retained,
                                    cr_retained_bytes = retained_bytes\<rparr>))))))"

definition compact_to_latest_snapshot ::
  "(request \<Rightarrow> string option) \<Rightarrow> raft_disk \<Rightarrow> raft_log_state \<Rightarrow>
   raft_log_state \<times> (raft_error + compaction_report)" where
  "compact_to_latest_snapshot fp D s =
     (case ls_latest_snapshot s of
        None \<Rightarrow> (s, Inl NoSnapshot)
      | Some snap \<Rightarrow> compact_through fp D (sm_last_included_index snap) s)"

text \<open>From the newest entry backwards: the first that no longer fits the budget.\<close>

fun byte_budget_loop :: "u64 \<Rightarrow> u64 \<Rightarrow> nat \<Rightarrow> (raft_log_entry \<times> nat) list \<Rightarrow> raft_error + u64 option" where
  "byte_budget_loop max_bytes max_through kept [] = Inr None"
| "byte_budget_loop max_bytes max_through kept ((e, n) # rest) =
     (case retained_log_entry_file_len n of
        Inl err \<Rightarrow> Inl err
      | Inr line \<Rightarrow>
        (case checked_add_len kept line of
           Inl err \<Rightarrow> Inl err
         | Inr next_bytes \<Rightarrow>
             if max_through < le_index e then byte_budget_loop max_bytes max_through next_bytes rest
             else if unat max_bytes < next_bytes then Inr (Some (le_index e))
             else byte_budget_loop max_bytes max_through next_bytes rest))"

definition compact_through_for_retained_byte_budget_cached ::
  "raft_log_entry list \<Rightarrow> nat list \<Rightarrow> u64 \<Rightarrow> u64 \<Rightarrow> raft_error + u64 option" where
  "compact_through_for_retained_byte_budget_cached es sizes max_bytes max_through =
     (case validate_retained_log_entry_bytes_len (length es) (length sizes) of
        Inl e \<Rightarrow> Inl e
      | Inr _ \<Rightarrow>
          if max_through = 0 then Inr None
          else byte_budget_loop max_bytes max_through 0 (rev (zip es sizes)))"

fun age_loop :: "u64 \<Rightarrow> u64 \<Rightarrow> raft_log_entry list \<Rightarrow> u64 option \<Rightarrow> u64 option" where
  "age_loop max_through oldest [] acc = acc"
| "age_loop max_through oldest (e # es) acc =
     (if max_through < le_index e then acc
      else if oldest < le_created_at_ms e then acc
      else age_loop max_through oldest es (Some (le_index e)))"

definition compact_through_for_retained_age_cached_incremental ::
  "raft_log_entry list \<Rightarrow> age_cache option \<Rightarrow> u64 \<Rightarrow> u64 \<Rightarrow> u64 \<Rightarrow> age_cache option \<times> u64 option" where
  "compact_through_for_retained_age_cached_incremental es cache now max_age max_through =
     (if max_age = 0 \<or> max_through = 0 then (None, None)
      else (let oldest = saturating_sub now max_age;
                (acc, start) =
                  (case cache of
                     None \<Rightarrow> (None, 0)
                   | Some c \<Rightarrow>
                       if ac_max_age_ms c = max_age \<and> ac_oldest_retained_ms c \<le> oldest \<and>
                          ac_max_through_index c \<le> max_through \<and>
                          (case ac_eligible_index c of None \<Rightarrow> True | Some i \<Rightarrow> retained_entry_at es i \<noteq> None)
                       then (ac_eligible_index c,
                             case ac_eligible_index c of None \<Rightarrow> 0 | Some i \<Rightarrow> retained_entry_upper_bound es i)
                       else (None, 0));
                through = age_loop max_through oldest (drop start es) acc
            in (Some \<lparr>ac_max_age_ms = max_age, ac_oldest_retained_ms = oldest,
                      ac_max_through_index = max_through, ac_eligible_index = through\<rparr>, through)))"

definition compact_through_for_retained_age ::
  "u64 \<Rightarrow> u64 \<Rightarrow> u64 \<Rightarrow> raft_log_state \<Rightarrow> raft_log_state \<times> u64 option" where
  "compact_through_for_retained_age now max_age max_through s =
     (let (cache, through) = compact_through_for_retained_age_cached_incremental (ls_entries s)
            (ls_age_cache s) now max_age max_through
      in (s\<lparr>ls_age_cache := cache\<rparr>, through))"

section \<open>Snapshots\<close>

text \<open>What is known of a snapshot payload: its checksum and its client responses' fingerprints.\<close>

record snapshot_payload =
  pl_sha256 :: string
  pl_fingerprints :: "(string, string) fmap"

definition ascii_lower :: "char \<Rightarrow> char" where
  "ascii_lower c = (if 65 \<le> byte c \<and> byte c \<le> 90 then char_of (byte c + 32) else c)"

definition eq_ignore_ascii_case :: "string \<Rightarrow> string \<Rightarrow> bool" where
  "eq_ignore_ascii_case a b \<longleftrightarrow> map ascii_lower a = map ascii_lower b"

definition validate_snapshot_client_responses_against_retained_suffix ::
  "raft_log_state \<Rightarrow> u64 \<Rightarrow> (string, string) fmap \<Rightarrow> raft_error + unit" where
  "validate_snapshot_client_responses_against_retained_suffix s index fps =
     validate_client_request_identity_entries fps
       (drop (retained_entry_upper_bound (ls_entries s) index) (ls_entries s))"

definition refresh_retained_request_identity_fingerprints_for_snapshot_boundary ::
  "raft_log_state \<Rightarrow> raft_log_state \<times> (raft_error + unit)" where
  "refresh_retained_request_identity_fingerprints_for_snapshot_boundary s =
     (case retained_request_identity_fingerprints_after (ls_entries s) (snapshot_index s) of
        Inl e \<Rightarrow> (s, Inl e)
      | Inr fps \<Rightarrow> (s\<lparr>ls_retained_fingerprints := fps\<rparr>, Inr ()))"

datatype raft_snapshot_error =
    OlderSnapshot u64 u64
  | SnapshotTermConflict u64 u64 u64
  | SnapshotPayloadConflict u64
  | SnapshotFileMissing u64
  | SnapshotFileChanged u64
  | LatestSnapshotChanged u64
  | RetainedTermConflict u64 u64 u64
  | FutureSnapshot u64 u64
  | ChecksumMissing u64
  | ChecksumMismatch u64 string string
  | SnapshotLog raft_error

text \<open>Install the new context of the snapshot: its metadata, its fingerprints, the retained ones.\<close>

definition put_snapshot_context ::
  "raft_snapshot_metadata \<Rightarrow> (string, string) fmap \<Rightarrow> raft_log_state \<Rightarrow> raft_log_state \<times> (raft_error + unit)" where
  "put_snapshot_context meta fps s =
     refresh_retained_request_identity_fingerprints_for_snapshot_boundary
       (s\<lparr>ls_latest_snapshot := Some meta, ls_snapshot_fingerprints := fps\<rparr>)"

text \<open>After a restart from a snapshot the request identities are read back from the snapshot file.\<close>

definition refresh_latest_snapshot_request_identity_caches ::
  "(raft_snapshot_metadata \<times> snapshot_payload) option \<Rightarrow> raft_snapshot_metadata \<Rightarrow> raft_log_state \<Rightarrow>
   raft_log_state \<times> (raft_snapshot_error + unit)" where
  "refresh_latest_snapshot_request_identity_caches snapshot expected s =
     (let ei = sm_last_included_index expected in
      case snapshot of
        None \<Rightarrow> (s, Inl (SnapshotFileMissing ei))
      | Some (meta, pl) \<Rightarrow>
          if meta \<noteq> expected then (s, Inl (SnapshotFileChanged ei))
          else if ls_latest_snapshot s \<noteq> Some expected then (s, Inl (LatestSnapshotChanged ei))
          else case validate_snapshot_client_responses_against_retained_suffix s ei (pl_fingerprints pl) of
            Inl e \<Rightarrow> (s, Inl (SnapshotLog e))
          | Inr _ \<Rightarrow>
              (case refresh_retained_request_identity_fingerprints_for_snapshot_boundary
                      (s\<lparr>ls_snapshot_fingerprints := pl_fingerprints pl\<rparr>) of
                 (s', Inl e) \<Rightarrow> (s', Inl (SnapshotLog e)) | (s', Inr _) \<Rightarrow> (s', Inr ())))"

text \<open>
  \<open>file\<close> is what reading the snapshot file returns: its metadata and the checksum of its payload,
  which the code only reads for metadata without a checksum.
\<close>

definition rewrite_same_snapshot ::
  "raft_disk \<Rightarrow> (raft_snapshot_metadata \<times> string) option \<Rightarrow> u64 \<Rightarrow> snapshot_payload \<Rightarrow> raft_snapshot_metadata \<Rightarrow>
   raft_log_state \<Rightarrow> raft_log_state \<times> (raft_snapshot_error + raft_snapshot_metadata)" where
  "rewrite_same_snapshot D file term pl existing s =
     (let ei = sm_last_included_index existing; et = sm_last_included_term existing in
      if term \<noteq> et then (s, Inl (SnapshotTermConflict et ei term))
      else case sm_payload_sha256 existing of
        Some sha \<Rightarrow>
          if \<not> eq_ignore_ascii_case sha (pl_sha256 pl) then (s, Inl (SnapshotPayloadConflict ei))
          else (case validate_snapshot_client_responses_against_retained_suffix s ei (pl_fingerprints pl) of
                  Inl e \<Rightarrow> (s, Inl (SnapshotLog e))
                | Inr _ \<Rightarrow>
                  (case put_snapshot_context existing (pl_fingerprints pl) s of
                     (s', Inl e) \<Rightarrow> (s', Inl (SnapshotLog e)) | (s', Inr _) \<Rightarrow> (s', Inr existing)))
      | None \<Rightarrow>
          (case file of
             None \<Rightarrow> (s, Inl (SnapshotFileMissing ei))
           | Some (meta, file_sha) \<Rightarrow>
               if sm_last_included_index meta \<noteq> ei \<or> sm_last_included_term meta \<noteq> et
               then (s, Inl (SnapshotFileChanged ei))
               else if \<not> eq_ignore_ascii_case file_sha (pl_sha256 pl) then (s, Inl (SnapshotPayloadConflict ei))
               else (let new = existing\<lparr>sm_payload_sha256 := Some (pl_sha256 pl)\<rparr> in
                 case validate_snapshot_client_responses_against_retained_suffix s ei (pl_fingerprints pl) of
                   Inl e \<Rightarrow> (s, Inl (SnapshotLog e))
                 | Inr _ \<Rightarrow>
                   if \<not> dk_rewrite_ok D then (s, Inl (SnapshotLog Io))
                   else (case put_snapshot_context new (pl_fingerprints pl) s of
                           (s', Inl e) \<Rightarrow> (s', Inl (SnapshotLog e)) | (s', Inr _) \<Rightarrow> (s', Inr new)))))"

definition write_new_snapshot ::
  "raft_disk \<Rightarrow> u64 \<Rightarrow> u64 \<Rightarrow> u64 \<Rightarrow> snapshot_payload \<Rightarrow> raft_log_state \<Rightarrow>
   raft_log_state \<times> (raft_snapshot_error + raft_snapshot_metadata)" where
  "write_new_snapshot D now index term pl s =
     (if (case term_at_index s index of Some t \<Rightarrow> t \<noteq> term | None \<Rightarrow> False)
      then (s, Inl (RetainedTermConflict term index (the (term_at_index s index))))
      else if ls_last_index s < index \<and> ls_entries s \<noteq> []
      then (s, Inl (FutureSnapshot index (ls_last_index s)))
      else case validate_snapshot_client_responses_against_retained_suffix s index (pl_fingerprints pl) of
        Inl e \<Rightarrow> (s, Inl (SnapshotLog e))
      | Inr _ \<Rightarrow>
        (let meta = \<lparr>sm_last_included_index = index, sm_last_included_term = term,
                     sm_created_at_ms = now, sm_payload_sha256 = Some (pl_sha256 pl)\<rparr>
         in if \<not> dk_rewrite_ok D then (s, Inl (SnapshotLog Io))
            else case put_snapshot_context meta (pl_fingerprints pl) s of
              (s', Inl e) \<Rightarrow> (s', Inl (SnapshotLog e))
            | (s', Inr _) \<Rightarrow>
                (if ls_last_index s' \<le> index then s'\<lparr>ls_last_index := index, ls_last_term := term\<rparr> else s',
                 Inr meta)))"

definition write_snapshot ::
  "raft_disk \<Rightarrow> (raft_snapshot_metadata \<times> string) option \<Rightarrow> u64 \<Rightarrow> u64 \<Rightarrow> u64 \<Rightarrow> snapshot_payload \<Rightarrow>
   raft_log_state \<Rightarrow> raft_log_state \<times> (raft_snapshot_error + raft_snapshot_metadata)" where
  "write_snapshot D file now index term pl s =
     (case ls_latest_snapshot s of
        None \<Rightarrow> write_new_snapshot D now index term pl s
      | Some existing \<Rightarrow>
          if index < sm_last_included_index existing
          then (s, Inl (OlderSnapshot (sm_last_included_index existing) index))
          else if index = sm_last_included_index existing
          then rewrite_same_snapshot D file term pl existing s
          else write_new_snapshot D now index term pl s)"

definition validate_existing_snapshot_matches_install ::
  "(raft_snapshot_metadata \<times> string) option \<Rightarrow> raft_snapshot_metadata \<Rightarrow> u64 \<Rightarrow> string \<Rightarrow> raft_snapshot_error + unit" where
  "validate_existing_snapshot_matches_install file existing term sha =
     (let ei = sm_last_included_index existing; et = sm_last_included_term existing in
      if et \<noteq> term then Inl (SnapshotTermConflict et ei term)
      else case (case sm_payload_sha256 existing of
                   Some checksum \<Rightarrow> Inr checksum
                 | None \<Rightarrow>
                     (case file of
                        None \<Rightarrow> Inl (SnapshotFileMissing ei)
                      | Some (meta, file_sha) \<Rightarrow>
                          if sm_last_included_index meta \<noteq> ei \<or> sm_last_included_term meta \<noteq> et
                          then Inl (SnapshotFileChanged ei) else Inr file_sha)) of
        Inl e \<Rightarrow> Inl e
      | Inr existing_sha \<Rightarrow>
          if \<not> eq_ignore_ascii_case existing_sha sha then Inl (SnapshotPayloadConflict ei) else Inr ())"

definition verify_snapshot_payload_checksum ::
  "u64 \<Rightarrow> snapshot_payload \<Rightarrow> string option \<Rightarrow> raft_snapshot_error + string" where
  "verify_snapshot_payload_checksum index pl expected =
     (case expected of
        None \<Rightarrow> Inl (ChecksumMissing index)
      | Some e \<Rightarrow>
          if \<not> eq_ignore_ascii_case (pl_sha256 pl) e then Inl (ChecksumMismatch index e (pl_sha256 pl))
          else Inr (pl_sha256 pl))"

definition install_new_snapshot ::
  "(request \<Rightarrow> string option) \<Rightarrow> raft_disk \<Rightarrow> u64 \<Rightarrow> u64 \<Rightarrow> u64 \<Rightarrow> string \<Rightarrow> snapshot_payload \<Rightarrow> raft_log_state \<Rightarrow>
   raft_log_state \<times> (raft_snapshot_error + raft_snapshot_metadata)" where
  "install_new_snapshot fp D now index term sha pl s =
     (let s1 = repair_retained_log_entry_byte_cache_if_needed D s;
          start = retained_entry_upper_bound (ls_entries s1) index;
          retained = (if term_at_index s1 index = Some term then drop start (ls_entries s1) else []);
          sizes = (if term_at_index s1 index = Some term
                   then retained_log_entry_bytes_suffix (ls_entries s1) (ls_entry_bytes s1) start else Inr [])
      in case sizes of
        Inl e \<Rightarrow> (s1, Inl (SnapshotLog e))
      | Inr sizes \<Rightarrow>
        (case validate_client_request_identity_entries (pl_fingerprints pl) retained of
           Inl e \<Rightarrow> (s1, Inl (SnapshotLog e))
         | Inr _ \<Rightarrow>
           (let meta = \<lparr>sm_last_included_index = index, sm_last_included_term = term,
                        sm_created_at_ms = now, sm_payload_sha256 = Some sha\<rparr>
            in case validate_log_entries_for_snapshot fp retained (Some meta) of
                 Inl e \<Rightarrow> (s1, Inl (SnapshotLog e))
               | Inr _ \<Rightarrow>
                 if \<not> dk_rewrite_ok D then (s1, Inl (SnapshotLog Io))
                 else (let s2 = s1\<lparr>ls_latest_snapshot := Some meta, ls_snapshot_fingerprints := pl_fingerprints pl\<rparr>
                   in case replace_retained_log_state s2 retained sizes of
                        Inl e \<Rightarrow> (s2, Inl (SnapshotLog e))
                      | Inr s3 \<Rightarrow> (s3, Inr meta)))))"

definition install_snapshot_from_leader ::
  "(request \<Rightarrow> string option) \<Rightarrow> raft_disk \<Rightarrow> (raft_snapshot_metadata \<times> string) option \<Rightarrow> u64 \<Rightarrow> u64 \<Rightarrow> u64 \<Rightarrow>
   string option \<Rightarrow> snapshot_payload \<Rightarrow> raft_log_state \<Rightarrow>
   raft_log_state \<times> (raft_snapshot_error + raft_snapshot_metadata)" where
  "install_snapshot_from_leader fp D file now index term expected_sha pl s =
     (case verify_snapshot_payload_checksum index pl expected_sha of
        Inl e \<Rightarrow> (s, Inl e)
      | Inr sha \<Rightarrow>
        (case ls_latest_snapshot s of
           Some existing \<Rightarrow>
             if index < sm_last_included_index existing then (s, Inr existing)
             else if index = sm_last_included_index existing then
               (case validate_existing_snapshot_matches_install file existing term sha of
                  Inl e \<Rightarrow> (s, Inl e)
                | Inr _ \<Rightarrow>
                  (case validate_snapshot_client_responses_against_retained_suffix s index (pl_fingerprints pl) of
                     Inl e \<Rightarrow> (s, Inl (SnapshotLog e))
                   | Inr _ \<Rightarrow>
                     (case put_snapshot_context existing (pl_fingerprints pl) s of
                        (s', Inl e) \<Rightarrow> (s', Inl (SnapshotLog e)) | (s', Inr _) \<Rightarrow> (s', Inr existing))))
             else install_new_snapshot fp D now index term sha pl s
         | None \<Rightarrow> install_new_snapshot fp D now index term sha pl s))"

section \<open>Opening a store\<close>

definition open_log ::
  "(request \<Rightarrow> string option) \<Rightarrow> raft_disk \<Rightarrow> u64 \<Rightarrow> (raft_snapshot_metadata \<times> (string, string) fmap) option \<Rightarrow>
   raft_hard_state \<Rightarrow> u64 \<Rightarrow> raft_error + raft_log_state" where
  "open_log fp D trailing snapshot hard generation =
     (let latest = map_option fst snapshot;
          snap_fps = (case snapshot of Some (_, f) \<Rightarrow> f | None \<Rightarrow> fmempty)
      in case read_log_entries fp D of
        Inl e \<Rightarrow> Inl e
      | Inr persisted \<Rightarrow>
        (case reconcile_persisted_log_with_snapshot persisted latest trailing of
           Inl e \<Rightarrow> Inl e
         | Inr r \<Rightarrow>
           if rl_rewrite_needed r \<and> \<not> dk_rewrite_ok D then Inl Io
           else (let es = rl_entries r;
                     (tbi, fibt, libt) = term_indexes_from_entries es
             in case retained_request_identity_fingerprints_after es
                       (case latest of Some m \<Rightarrow> sm_last_included_index m | None \<Rightarrow> 0) of
                  Inl e \<Rightarrow> Inl e
                | Inr fps \<Rightarrow>
                    Inr \<lparr>ls_last_index = fst (log_end es latest), ls_last_term = snd (log_end es latest),
                         ls_hard_state = hard, ls_commit_generation = generation,
                         ls_latest_snapshot = latest, ls_snapshot_fingerprints = snap_fps,
                         ls_retained_fingerprints = fps, ls_entries = es,
                         ls_entry_bytes = map (dk_entry_len D) es, ls_term_by_index = tbi,
                         ls_first_index_by_term = fibt, ls_last_index_by_term = libt,
                         ls_age_cache = None\<rparr>)))"

section \<open>Entries for a follower\<close>

record limited_entries =
  lm_entries :: "raft_log_entry list"
  lm_entry_bytes :: "nat list"
  lm_serialized_bytes :: nat

definition usize_add :: "nat \<Rightarrow> nat \<Rightarrow> nat" where
  "usize_add a b = min (a + b) (2 ^ 64 - 1)"

fun limited_loop ::
  "nat \<Rightarrow> nat \<Rightarrow> nat option \<Rightarrow> (raft_log_entry \<times> nat) list \<Rightarrow> raft_log_entry list \<Rightarrow> nat list \<Rightarrow> nat \<Rightarrow> nat \<Rightarrow>
   limited_entries" where
  "limited_loop max_entries max_bytes max_payload [] sel bytes budget total_bytes =
     \<lparr>lm_entries = sel, lm_entry_bytes = bytes, lm_serialized_bytes = total_bytes\<rparr>"
| "limited_loop max_entries max_bytes max_payload ((e, n) # rest) sel bytes budget total_bytes =
     (let separator = (if max_payload \<noteq> None \<and> sel \<noteq> [] then 1 else 0);
          budget' = usize_add (usize_add budget separator) n;
          total' = usize_add total_bytes n;
          exceeded = (case max_payload of Some m \<Rightarrow> m < budget' | None \<Rightarrow> False)
      in if sel \<noteq> [] \<and> (max_bytes < total' \<or> exceeded)
         then \<lparr>lm_entries = sel, lm_entry_bytes = bytes, lm_serialized_bytes = total_bytes\<rparr>
         else if max_entries \<le> length sel + 1
         then \<lparr>lm_entries = sel @ [e], lm_entry_bytes = bytes @ [n], lm_serialized_bytes = total'\<rparr>
         else limited_loop max_entries max_bytes max_payload rest (sel @ [e]) (bytes @ [n]) budget' total')"

definition entries_from_limited_cached_with_byte_budget ::
  "raft_log_entry list \<Rightarrow> nat list \<Rightarrow> u64 \<Rightarrow> nat \<Rightarrow> nat \<times> nat option \<Rightarrow> raft_error + limited_entries" where
  "entries_from_limited_cached_with_byte_budget es sizes index max_entries budgets =
     (if length sizes \<noteq> length es then Inl (ByteCacheMismatch (length sizes) (length es))
      else (let start = retained_entry_lower_bound es (max index 1)
            in Inr (limited_loop (max max_entries 1) (max (fst budgets) 1)
                      (map_option (\<lambda>m. max m 1) (snd budgets))
                      (zip (drop start es) (drop start sizes)) [] [] 0 0)))"

definition prev_term_entries_and_bytes_limited_cached_with_budgets ::
  "raft_log_state \<Rightarrow> u64 \<Rightarrow> nat \<Rightarrow> (u64 \<Rightarrow> raft_error + nat \<times> nat option) \<Rightarrow>
   raft_error + (u64 \<times> limited_entries) option" where
  "prev_term_entries_and_bytes_limited_cached_with_budgets s next_index max_entries budgets_for =
     (let next_index = max next_index 1; prev = saturating_sub next_index 1 in
      if prev = ls_last_index s
      then Inr (Some (ls_last_term s, \<lparr>lm_entries = [], lm_entry_bytes = [], lm_serialized_bytes = 0\<rparr>))
      else case (if prev = 0 then Some 0
                 else option_or_else (map_option le_term (retained_entry_at (ls_entries s) prev))
                        (case ls_latest_snapshot s of
                           Some snap \<Rightarrow>
                             if sm_last_included_index snap = prev then Some (sm_last_included_term snap) else None
                         | None \<Rightarrow> None)) of
        None \<Rightarrow> Inr None
      | Some prev_term \<Rightarrow>
        (case budgets_for prev_term of
           Inl e \<Rightarrow> Inl e
         | Inr budgets \<Rightarrow>
           (case entries_from_limited_cached_with_byte_budget (ls_entries s) (ls_entry_bytes s) next_index
                   max_entries budgets of
              Inl e \<Rightarrow> Inl e | Inr limited \<Rightarrow> Inr (Some (prev_term, limited)))))"

end
