(* ===== verification/Raft_Log_Steps.thy ===== *)
theory Raft_Log_Steps
  imports Raft_Agreement Raft_Log_Maintenance
begin

text \<open>
  The log store as a state machine: opening a store and every operation that changes it keep
  \<open>log_ok\<close>, so every state a store can reach has it.  The persisted vote, term and commit index
  only move forward.
\<close>

section \<open>Fields the invariant does not mention\<close>

lemma log_ok_hard [simp]:
  "log_ok fp (s\<lparr>ls_hard_state := h\<rparr>) = log_ok fp s"
  "log_ok fp (s\<lparr>ls_commit_generation := g\<rparr>) = log_ok fp s"
  "log_ok fp (s\<lparr>ls_age_cache := c\<rparr>) = log_ok fp s"
  by (simp_all add: log_ok_def state_term_indexes_def snapshot_index_def)

lemma repair_bytes:
  assumes "log_ok fp s"
  shows "log_ok fp (repair_retained_log_entry_byte_cache_if_needed D s)"
  using assms
  by (simp add: repair_retained_log_entry_byte_cache_if_needed_def Let_def log_ok_def state_term_indexes_def snapshot_index_def)

lemma repair_same [simp]:
  "ls_entries (repair_retained_log_entry_byte_cache_if_needed D s) = ls_entries s"
  "ls_latest_snapshot (repair_retained_log_entry_byte_cache_if_needed D s) = ls_latest_snapshot s"
  "ls_hard_state (repair_retained_log_entry_byte_cache_if_needed D s) = ls_hard_state s"
  "ls_last_index (repair_retained_log_entry_byte_cache_if_needed D s) = ls_last_index s"
  "ls_term_by_index (repair_retained_log_entry_byte_cache_if_needed D s) = ls_term_by_index s"
  by (simp_all add: repair_retained_log_entry_byte_cache_if_needed_def Let_def)

section \<open>Fingerprints of later entries\<close>

lemma add_retained_agree:
  assumes "snd (add_retained_request_identity_entries fps es) = None"
  shows "agree fps es"
  using assms
proof (induction es arbitrary: fps)
  case Nil
  then show ?case by (simp add: agree_def)
next
  case (Cons e es)
  show ?case
  proof (cases "request_identity (le_command e)")
    case None
    with Cons show ?thesis by (simp add: agree_def)
  next
    case (Some x)
    obtain i f where x: "request_identity (le_command e) = Some (i, f)" using Some by (cases x) simp
    have "\<exists>r. rf_fingerprint r = f \<and> snd (add_retained_request_identity_entries (fmupd i r fps) es) = None \<and>
        (\<forall>q. fmlookup fps i = Some q \<longrightarrow> rf_fingerprint q = f)"
    proof (cases "fmlookup fps i")
      case None
      then show ?thesis using Cons.prems x
        by (intro exI [of _ "\<lparr>rf_fingerprint = f, rf_first_index = le_index e\<rparr>"]) simp
    next
      case (Some q)
      then show ?thesis using Cons.prems x
        by (intro exI [of _ "q\<lparr>rf_first_index := min (rf_first_index q) (le_index e)\<rparr>"]) (auto split: if_splits)
    qed
    then obtain r where r: "rf_fingerprint r = f" and rest: "snd (add_retained_request_identity_entries (fmupd i r fps) es) = None"
      and old: "\<forall>q. fmlookup fps i = Some q \<longrightarrow> rf_fingerprint q = f" by blast
    have a: "agree (fmupd i r fps) es" by (rule Cons.IH [OF rest])
    then have a1: "(j, g) \<in> identities es \<Longrightarrow> (j, h) \<in> identities es \<Longrightarrow> g = h"
      and a2: "(j, g) \<in> identities es \<Longrightarrow> fmlookup (fmupd i r fps) j = Some q \<Longrightarrow> rf_fingerprint q = g" for j g h q
      unfolding agree_def by blast+
    have i: "(i, g) \<in> identities es \<Longrightarrow> g = f" for g using a2 [of i g r] r by simp
    have o: "(j, g) \<in> identities es \<Longrightarrow> fmlookup fps j = Some q \<Longrightarrow> rf_fingerprint q = g" for j g q
      using a2 [of j g q] i [of g] old by (cases "j = i") auto
    have ids: "identities (e # es) = insert (i, f) (identities es)" using x by simp
    show ?thesis unfolding agree_def ids using i o a1 old by blast
  qed
qed

lemma agree_subset:
  assumes "agree fmempty es" and "set xs \<subseteq> set es"
  shows "agree fmempty xs"
proof -
  have "identities xs \<subseteq> identities es" using assms(2) by (auto simp: identities_def)
  with assms(1) show ?thesis unfolding agree_def by (simp; blast)
qed

lemma refresh_cases:
  assumes "refresh_latest_snapshot_request_identity_caches snapshot m s = (s', r)"
  shows "s' = s \<or> (\<exists>f r'. ls_latest_snapshot s = Some m \<and> put_snapshot_context m f s = (s', r'))"
proof (cases "s' = s")
  case False
  then obtain pl where m: "snapshot = Some (m, pl)" "ls_latest_snapshot s = Some m"
    using assms by (auto simp: refresh_latest_snapshot_request_identity_caches_def Let_def split: option.splits if_splits)
  then have put: "put_snapshot_context m (pl_fingerprints pl) s =
      refresh_retained_request_identity_fingerprints_for_snapshot_boundary (s\<lparr>ls_snapshot_fingerprints := pl_fingerprints pl\<rparr>)"
    by (cases s) (simp add: put_snapshot_context_def)
  have "s' = fst (put_snapshot_context m (pl_fingerprints pl) s)"
    unfolding put using assms m False
    by (auto simp: refresh_latest_snapshot_request_identity_caches_def Let_def split: sum.splits prod.splits)
  with m(2) show ?thesis by (metis prod.collapse)
qed simp

context consistent_log
begin

lemma later_fingerprints:
  assumes "chain es" and "set (live i es) \<subseteq> set (live (snapshot_index s) (ls_entries s))"
  shows "\<exists>fps. retained_request_identity_fingerprints_after es i = Inr fps"
proof -
  have "agree fmempty (live (snapshot_index s) (ls_entries s))" by (rule add_retained_agree) (simp add: fingerprints)
  then have "snd (add_retained_request_identity_entries fmempty (live i es)) = None"
    using add_retained_ok agree_subset assms(2) by blast
  then show ?thesis using fingerprints_after_iff [OF assms(1)] by (metis prod.collapse)
qed

section \<open>Snapshots and compaction\<close>

lemma compact_keeps_ok:
  assumes "compact_through fp D i s = (s', r)"
  shows "log_ok fp s'"
proof -
  let ?s1 = "repair_retained_log_entry_byte_cache_if_needed D s"
  have ok1: "log_ok fp ?s1" by (rule repair_bytes [OF ok])
  have pos: "snapshot_positive ?s1" using positive by (simp add: snapshot_positive_def)
  have "s' = s \<or> s' = ?s1 \<or> (\<exists>n sizes. validate_log_entries_for_snapshot fp (drop n (ls_entries s)) (ls_latest_snapshot s) = Inr () \<and>
      replace_retained_log_state ?s1 (drop n (ls_entries s)) sizes = Inr s')"
    using assms by (auto simp: compact_through_def Let_def split: option.splits if_splits sum.splits)
  then show ?thesis
  proof (elim disjE exE conjE)
    fix n sizes
    assume v: "validate_log_entries_for_snapshot fp (drop n (ls_entries s)) (ls_latest_snapshot s) = Inr ()"
      and rep: "replace_retained_log_state ?s1 (drop n (ls_entries s)) sizes = Inr s'"
    have c: "chain (drop n (ls_entries s))" "commands_ok fp (drop n (ls_entries s))"
      "boundary_ok (drop n (ls_entries s)) (ls_latest_snapshot s)"
      using v boundary_unit [OF chain_drop [OF entries_chain]] validate_persisted_iff
      by (auto simp: validate_log_entries_for_snapshot_def split: sum.splits)
    show "log_ok fp s'" by (rule replace_ok [OF rep c(1,2) _ pos]) (simp add: c(3))
  qed (use ok ok1 in simp_all)
qed

text \<open>A snapshot at the index of the present one changes neither the boundary nor the fingerprints.\<close>

lemma same_snapshot_ok:
  assumes "ls_latest_snapshot s = Some old" and "sm_last_included_index new = sm_last_included_index old"
    and "sm_last_included_term new = sm_last_included_term old" and "put_snapshot_context new f s = (s', r)"
  shows "log_ok fp s'"
proof -
  have "retained_request_identity_fingerprints_after (ls_entries s) (sm_last_included_index new) = Inr (ls_retained_fingerprints s)"
    using ok assms(1,2) by (simp add: log_ok_def snapshot_index_def)
  then have "s' = s\<lparr>ls_latest_snapshot := Some new, ls_snapshot_fingerprints := f\<rparr>"
    using assms(4) by (simp add: put_snapshot_context_def snapshot_index_def
        refresh_retained_request_identity_fingerprints_for_snapshot_boundary_def)
  then show ?thesis
    using ok assms(1-3)
    by (auto simp: log_ok_def state_term_indexes_def snapshot_index_def boundary_ok_def log_end_def)
qed

lemma refresh_keeps_ok:
  assumes "refresh_latest_snapshot_request_identity_caches snapshot m s = (s', r)"
  shows "log_ok fp s'"
  using refresh_cases [OF assms] ok same_snapshot_ok [where old = m and new = m] by blast

lemma live_later: "si \<le> i \<Longrightarrow> set (live i es) \<subseteq> set (live si es)"
  by auto

text \<open>A new snapshot inside the log, or beyond an empty one.\<close>

lemma new_snapshot_ok:
  assumes later: "snapshot_index s < i" and i: "i \<noteq> - 1" "t \<noteq> 0"
    and at: "\<forall>u. term_at_index s i = Some u \<longrightarrow> u = t" and inside: "i \<le> ls_last_index s \<or> ls_entries s = []"
    and meta: "sm_last_included_index meta = i" "sm_last_included_term meta = t"
    and put: "put_snapshot_context meta f s = (s1, r)"
  shows "log_ok fp (if ls_last_index s1 \<le> i then s1\<lparr>ls_last_index := i, ls_last_term := t\<rparr> else s1)" and "r = Inr ()"
proof -
  obtain fps where fps: "retained_request_identity_fingerprints_after (ls_entries s) i = Inr fps"
    using later_fingerprints [OF entries_chain live_later] later by (metis less_imp_le)
  then have s1: "s1 = s\<lparr>ls_latest_snapshot := Some meta, ls_snapshot_fingerprints := f, ls_retained_fingerprints := fps\<rparr>"
    and r: "r = Inr ()"
    using put meta by (simp_all add: put_snapshot_context_def snapshot_index_def
        refresh_retained_request_identity_fingerprints_for_snapshot_boundary_def)
  show "r = Inr ()" by (rule r)
  have i0: "i \<noteq> 0" using later by auto
  show "log_ok fp (if ls_last_index s1 \<le> i then s1\<lparr>ls_last_index := i, ls_last_term := t\<rparr> else s1)"
  proof (cases "ls_entries s = []")
    case True
    then have "ls_last_index s1 \<le> i"
      using ends later s1 by (auto simp: log_end_def snapshot_index_def split: option.splits)
    then show ?thesis
      using ok True s1 meta i i0 fps
      by (auto simp: log_ok_def state_term_indexes_def snapshot_index_def boundary_ok_def log_end_def)
  next
    case False
    then have le: "i \<le> ls_last_index s" using inside by simp
    obtain e where e: "e \<in> set (ls_entries s)" "le_index e = i" using retained_above [OF later le] by blast
    then have "term_at_index s i = Some (le_term e)"
      using term_by_index [of i "le_term e"] i0 by (auto simp: term_at_index_def)
    then have et: "le_term e = t" using at by blast
    have b: "boundary_ok (ls_entries s) (Some meta)"
    proof -
      have "i \<le> le_index (last (ls_entries s))" using le last_entry(1) [OF False] by simp
      moreover have "le_index (hd (ls_entries s)) \<le> i" using chain_bounds(1) [OF entries_chain e(1)] e(2) by simp
      ultimately show ?thesis using meta i(1) e et by (auto simp: boundary_ok_def word_le_nat_alt)
    qed
    have "ls_last_term s = t" if "ls_last_index s = i"
    proof -
      have "last (ls_entries s) = e"
        using chain_unique [OF entries_chain _ e(1), of "last (ls_entries s)"] last_entry(1) [OF False] that e(2) False by simp
      then show ?thesis using et last_entry(2) [OF False] by simp
    qed
    then show ?thesis
      using ok False s1 meta i i0 fps b le
      by (auto simp: log_ok_def state_term_indexes_def snapshot_index_def log_end_def)
  qed
qed

lemma write_new_keeps_ok:
  assumes run: "write_new_snapshot D now i t pl s = (s', r)" and later: "snapshot_index s < i" and pos: "i \<noteq> - 1" "t \<noteq> 0"
  shows "log_ok fp s'"
proof -
  define meta where "meta = \<lparr>sm_last_included_index = i, sm_last_included_term = t, sm_created_at_ms = now, sm_payload_sha256 = Some (pl_sha256 pl)\<rparr>"
  obtain s1 r1 where put: "put_snapshot_context meta (pl_fingerprints pl) s = (s1, r1)" by fastforce
  let ?conflict = "case term_at_index s i of Some u \<Rightarrow> u \<noteq> t | None \<Rightarrow> False"
  show ?thesis
  proof (cases "?conflict \<or> ls_last_index s < i \<and> ls_entries s \<noteq> [] \<or> \<not> dk_rewrite_ok D \<or>
      validate_snapshot_client_responses_against_retained_suffix s i (pl_fingerprints pl) \<noteq> Inr ()")
    case True
    then have "s' = s" using run unfolding write_new_snapshot_def Let_def meta_def [symmetric]
      by (auto split: if_splits sum.splits)
    then show ?thesis using ok by simp
  next
    case False
    have at: "\<forall>u. term_at_index s i = Some u \<longrightarrow> u = t" using False by (auto split: option.splits)
    have inside: "i \<le> ls_last_index s \<or> ls_entries s = []" using False by (auto simp: not_less)
    note new = new_snapshot_ok [OF later pos at inside _ _ put]
    have "r1 = Inr ()" using new(2) by (simp add: meta_def)
    then have "s' = (if ls_last_index s1 \<le> i then s1\<lparr>ls_last_index := i, ls_last_term := t\<rparr> else s1)"
      using run False put unfolding write_new_snapshot_def Let_def meta_def [symmetric]
      by (auto split: if_splits)
    then show ?thesis using new(1) by (simp add: meta_def)
  qed
qed

lemma rewrite_same_cases:
  assumes "rewrite_same_snapshot D file t pl old s = (s', r)"
  shows "s' = s \<or> (\<exists>new f r'. sm_last_included_index new = sm_last_included_index old \<and>
    sm_last_included_term new = sm_last_included_term old \<and> put_snapshot_context new f s = (s', r'))"
proof (cases "s' = s")
  case False
  define new where "new = (if sm_payload_sha256 old = None then old\<lparr>sm_payload_sha256 := Some (pl_sha256 pl)\<rparr> else old)"
  obtain s1 r1 where put: "put_snapshot_context new (pl_fingerprints pl) s = (s1, r1)" by fastforce
  then have "s' = s1" using assms False unfolding rewrite_same_snapshot_def Let_def new_def
    by (auto split: if_splits sum.splits option.splits prod.splits)
  with put show ?thesis by (auto simp: new_def)
qed simp

lemma write_snapshot_keeps_ok:
  assumes run: "write_snapshot D file now i t pl s = (s', r)" and pos: "i \<noteq> 0" "i \<noteq> - 1" "t \<noteq> 0"
  shows "log_ok fp s'"
proof (cases "ls_latest_snapshot s")
  case None
  then have "snapshot_index s < i" using pos(1) by (simp add: snapshot_index_def word_neq_0_conv)
  then show ?thesis using write_new_keeps_ok [OF _ _ pos(2,3)] run None by (simp add: write_snapshot_def)
next
  case (Some old)
  consider "i < sm_last_included_index old" | "i = sm_last_included_index old" | "sm_last_included_index old < i" by fastforce
  then show ?thesis
  proof cases
    case 1
    with Some run ok show ?thesis by (simp add: write_snapshot_def)
  next
    case 2
    with Some run have "rewrite_same_snapshot D file t pl old s = (s', r)" by (simp add: write_snapshot_def)
    from rewrite_same_cases [OF this] show ?thesis using ok same_snapshot_ok [OF Some] by blast
  next
    case 3
    then have "snapshot_index s < i" "write_new_snapshot D now i t pl s = (s', r)"
      using Some run by (auto simp: snapshot_index_def write_snapshot_def split: if_splits)
    then show ?thesis using write_new_keeps_ok [OF _ _ pos(2,3)] by blast
  qed
qed

lemma install_new_keeps_ok:
  assumes run: "install_new_snapshot fp D now i t sha pl s = (s', r)" and later: "snapshot_index s < i" and t: "t \<noteq> 0"
  shows "log_ok fp s'"
proof -
  let ?s1 = "repair_retained_log_entry_byte_cache_if_needed D s"
  have ok1: "log_ok fp ?s1" by (rule repair_bytes [OF ok])
  define ret where "ret = (if term_at_index ?s1 i = Some t then drop (retained_entry_upper_bound (ls_entries s) i) (ls_entries s) else [])"
  define meta where "meta = \<lparr>sm_last_included_index = i, sm_last_included_term = t, sm_created_at_ms = now, sm_payload_sha256 = Some sha\<rparr>"
  define s2 where "s2 = ?s1\<lparr>ls_latest_snapshot := Some meta, ls_snapshot_fingerprints := pl_fingerprints pl\<rparr>"
  define sizes where "sizes = (if term_at_index ?s1 i = Some t then drop (retained_entry_upper_bound (ls_entries s) i) (ls_entry_bytes ?s1) else [])"
  have bl: "length (ls_entry_bytes ?s1) = length (ls_entries s)"
    by (simp add: repair_retained_log_entry_byte_cache_if_needed_def Let_def bytes_length)
  have ub: "retained_entry_upper_bound (ls_entries s) i \<le> length (ls_entries s)"
    by (simp add: retained_entry_upper_bound_def length_takeWhile_le)
  have len: "length sizes = length ret" by (simp add: sizes_def ret_def bl)
  have sz: "(if term_at_index ?s1 i = Some t then retained_log_entry_bytes_suffix (ls_entries s) (ls_entry_bytes ?s1)
      (retained_entry_upper_bound (ls_entries s) i) else Inr []) = Inr sizes"
    using bl ub by (simp add: sizes_def retained_log_entry_bytes_suffix_def validate_retained_log_entry_bytes_len_def)
  note run' = run [unfolded install_new_snapshot_def Let_def repair_same sz sum.case, folded ret_def meta_def, folded s2_def]
  have "s' = ?s1 \<or> validate_log_entries_for_snapshot fp ret (Some meta) = Inr () \<and>
      (case replace_retained_log_state s2 ret sizes of Inl e \<Rightarrow> s' = s2 | Inr s3 \<Rightarrow> s' = s3)"
    using run' by (auto split: if_splits sum.splits)
  then show ?thesis
  proof
    assume "s' = ?s1"
    then show ?thesis using ok1 by simp
  next
    assume "validate_log_entries_for_snapshot fp ret (Some meta) = Inr () \<and>
      (case replace_retained_log_state s2 ret sizes of Inl e \<Rightarrow> s' = s2 | Inr s3 \<Rightarrow> s' = s3)"
    then have v: "validate_log_entries_for_snapshot fp ret (Some meta) = Inr ()"
      and s': "case replace_retained_log_state s2 ret sizes of Inl e \<Rightarrow> s' = s2 | Inr s3 \<Rightarrow> s' = s3" by blast+
    have c: "chain ret" "commands_ok fp ret"
      using v validate_persisted_iff [of fp ret] by (auto simp: validate_log_entries_for_snapshot_def split: sum.splits)
    have b: "boundary_ok ret (ls_latest_snapshot s2)"
      using v boundary_unit [OF c(1)] by (auto simp: validate_log_entries_for_snapshot_def s2_def split: sum.splits)
    have pos: "snapshot_positive s2" using later t by (auto simp: snapshot_positive_def s2_def meta_def)
    have sub: "set (live i ret) \<subseteq> set (live (snapshot_index s) (ls_entries s))"
      using later by (auto simp: ret_def dest: in_set_dropD)
    obtain fps where "retained_request_identity_fingerprints_after ret i = Inr fps"
      using later_fingerprints [OF c(1) sub] by blast
    then obtain s3 where s3: "replace_retained_log_state s2 ret sizes = Inr s3"
      using len by (simp add: replace_retained_log_state_def replace_retained_log_state_with_fingerprints_def
          validate_retained_log_entry_bytes_len_def snapshot_index_def s2_def meta_def)
    with s' have "s' = s3" by simp
    then show ?thesis using replace_ok [OF s3 c b pos] by simp
  qed
qed

lemma install_keeps_ok:
  assumes run: "install_snapshot_from_leader fp D file now i t e pl s = (s', r)" and pos: "i \<noteq> 0" "t \<noteq> 0"
  shows "log_ok fp s'"
proof -
  consider (same) "s' = s"
    | (refresh) old r' where "ls_latest_snapshot s = Some old" "put_snapshot_context old (pl_fingerprints pl) s = (s', r')"
    | (new) sha where "snapshot_index s < i" "install_new_snapshot fp D now i t sha pl s = (s', r)"
  proof (cases "verify_snapshot_payload_checksum i pl e")
    case (Inl err)
    with run show ?thesis using that(1) by (simp add: install_snapshot_from_leader_def)
  next
    case (Inr sha)
    show ?thesis
    proof (cases "ls_latest_snapshot s")
      case None
      have "snapshot_index s < i" using pos(1) None by (simp add: snapshot_index_def word_neq_0_conv)
      with None Inr run show ?thesis using that(3) by (simp add: install_snapshot_from_leader_def)
    next
      case (Some old)
      consider "i < sm_last_included_index old" | "i = sm_last_included_index old" | "sm_last_included_index old < i" by fastforce
      then show ?thesis
      proof cases
        case 1
        with Some Inr run show ?thesis using that(1) by (simp add: install_snapshot_from_leader_def)
      next
        case 2
        with Some Inr run have "s' = s \<or> (\<exists>r'. put_snapshot_context old (pl_fingerprints pl) s = (s', r'))"
          by (auto simp: install_snapshot_from_leader_def split: if_splits sum.splits prod.splits)
        then show ?thesis using that(1) that(2) [OF Some] by blast
      next
        case 3
        then have "snapshot_index s < i" using Some by (simp add: snapshot_index_def)
        with 3 Some Inr run show ?thesis using that(3) by (auto simp: install_snapshot_from_leader_def split: if_splits)
      qed
    qed
  qed
  then show ?thesis
  proof cases
    case same
    then show ?thesis using ok by simp
  next
    case refresh
    then show ?thesis using same_snapshot_ok [OF refresh(1) refl refl refresh(2)] by simp
  next
    case new
    then show ?thesis using install_new_keeps_ok pos(2) by blast
  qed
qed

section \<open>Appending as leader\<close>

lemma batch_nth:
  assumes "unat li + length cs < 2 ^ 64" and "k < length cs"
  shows "batch_entries li t now cs ! k = \<lparr>le_index = li + of_nat (Suc k), le_term = t, le_created_at_ms = now, le_command = cs ! k\<rparr>"
    and "unat (le_index (batch_entries li t now cs ! k)) = unat li + Suc k"
proof -
  have k: "unat (of_nat (Suc k) :: u64) = Suc k" using assms by (simp add: unat_of_nat del: of_nat_Suc)
  have u: "unat (li + of_nat (Suc k)) = unat li + Suc k" using assms k by (simp add: unat_word_ariths(1) del: of_nat_Suc)
  have "li \<le> li + (of_nat k + 1)" using u by (simp add: word_le_nat_alt add.commute)
  then show e: "batch_entries li t now cs ! k = \<lparr>le_index = li + of_nat (Suc k), le_term = t, le_created_at_ms = now, le_command = cs ! k\<rparr>"
    using assms(2) by (simp add: batch_entries_def nth_enumerate_eq saturating_add_def add.commute)
  show "unat (le_index (batch_entries li t now cs ! k)) = unat li + Suc k" unfolding e using u by simp
qed

lemma length_batch [simp]: "length (batch_entries li t now cs) = length cs"
  by (simp add: batch_entries_def)

lemma validate_commands_iff:
  "validate_commands fp cs = Inr () \<longleftrightarrow> list_all (\<lambda>c. validate_raft_command fp c = Inr ()) cs"
proof (induction cs)
  case (Cons c cs)
  then show ?case using unit_result [of "validate_raft_command fp c"] by auto
qed simp

lemma chain_by_nth:
  assumes "\<And>k. k < length es \<Longrightarrow> unat (le_index (es ! k)) = m + Suc k \<and> le_term (es ! k) = t" and "t \<noteq> 0"
  shows "chain es"
  using assms(1)
proof (induction es arbitrary: m)
  case (Cons e es)
  have e: "unat (le_index e) = Suc m" "le_term e = t" using Cons.prems [of 0] by auto
  have "unat (le_index (es ! k)) = Suc m + Suc k \<and> le_term (es ! k) = t" if "k < length es" for k
    using Cons.prems [of "Suc k"] that by simp
  note rest = this and c = Cons.IH [OF this]
  have "le_index e \<noteq> 0" using e(1) by auto
  then show ?case using c rest [of 0] e assms(2) by (cases es) (auto simp: chain_Cons)
qed simp

lemma batch_facts:
  assumes "unat li + length cs < 2 ^ 64" and "cs \<noteq> []" and "t \<noteq> 0" and "validate_commands fp cs = Inr ()"
    and es: "es = batch_entries li t now cs"
  shows "chain es" and "commands_ok fp es" and "es \<noteq> []" and "unat (le_index (hd es)) = Suc (unat li)" and "le_term (hd es) = t"
proof -
  have n: "unat (le_index (es ! k)) = unat li + Suc k \<and> le_term (es ! k) = t \<and> le_command (es ! k) = cs ! k"
    if "k < length es" for k
    using batch_nth [OF assms(1), of k t now] that by (simp add: es)
  show "chain es" by (rule chain_by_nth [OF _ assms(3)]) (use n in blast)
  show "commands_ok fp es"
    using assms(4) n by (auto simp: commands_ok_def validate_commands_iff list_all_length es)
  show ne: "es \<noteq> []" using assms(2) length_batch [of li t now cs] unfolding es by (metis length_0_conv)
  then show "unat (le_index (hd es)) = Suc (unat li)" "le_term (hd es) = t" using n [of 0] by (simp_all add: hd_conv_nth)
qed

lemma batch_keeps_ok:
  assumes run: "append_batch fp D now t cs s = (s', r)" and room: "unat (ls_last_index s) + length cs < 2 ^ 64"
  shows "log_ok fp s'"
    and "r = Inr es \<Longrightarrow> ls_entries s' = ls_entries s @ es \<and> map le_command es = cs"
proof -
  let ?es = "batch_entries (ls_last_index s) t now cs" and ?fps = "ls_retained_fingerprints s"
  have "log_ok fp s' \<and> (r = Inr es \<longrightarrow> ls_entries s' = ls_entries s @ es \<and> map le_command es = cs)"
  proof (cases "cs = [] \<or> validate_commands fp cs \<noteq> Inr () \<or> t = 0 \<or> t < ls_last_term s \<or> \<not> dk_append_ok D \<or>
      validate_repaired_request_identity_context (ls_snapshot_fingerprints s) ?fps (ls_last_index s) ?es \<noteq> Inr ()")
    case True
    then have "s' = s \<and> (r = Inr es \<longrightarrow> es = [] \<and> cs = [])"
      using run by (auto simp: append_batch_def Let_def split: if_splits sum.splits)
    then show ?thesis using ok by auto
  next
    case False
    then have v: "validate_repaired_request_identity_context (ls_snapshot_fingerprints s) ?fps (ls_last_index s) ?es = Inr ()"
      and f: "cs \<noteq> []" "t \<noteq> 0" "validate_commands fp cs = Inr ()" "ls_last_term s \<le> t" by auto
    note b = batch_facts [OF room f(1-3) refl, of now]
    have "snd (add_retained_request_identity_entries ?fps ?es) = None"
      using add_retained_ok [OF validated_context_agrees [OF v]] by (simp add: truncate_all)
    then obtain fps where fps: "add_retained_request_identity_entries ?fps ?es = (fps, None)" by (metis prod.collapse)
    have s': "s' = (append_to_caches D ?es s)\<lparr>ls_retained_fingerprints := fps\<rparr>" "r = Inr ?es"
      using run False v fps
      by (auto simp: append_batch_def append_to_caches_def Let_def put_term_indexes_def state_term_indexes_def split: if_splits)
    have "map le_command ?es = cs"
      using batch_nth(1) [OF room] by (intro nth_equalityI) simp_all
    then show ?thesis using extend_ok [OF b(1-4) _ fps, of D] b(5) f(4) s'
      by (auto simp: append_to_caches_def Let_def put_term_indexes_def)
  qed
  then show "log_ok fp s'" "r = Inr es \<Longrightarrow> ls_entries s' = ls_entries s @ es \<and> map le_command es = cs" by simp_all
qed

end

section \<open>Term, vote and commit index\<close>

text \<open>How the persisted term, vote and commit index may change while votes are preserved.\<close>

definition vote_forward :: "raft_hard_state \<Rightarrow> raft_hard_state \<Rightarrow> bool" where
  "vote_forward h h' \<longleftrightarrow> hs_commit_index h \<le> hs_commit_index h' \<and>
     (hs_current_term h < hs_current_term h' \<or>
      hs_current_term h = hs_current_term h' \<and> (hs_voted_for h = None \<or> hs_voted_for h' = hs_voted_for h))"

lemma vote_forward_refl [simp]: "vote_forward h h"
  by (simp add: vote_forward_def)

lemma vote_forward_trans: "vote_forward a b \<Longrightarrow> vote_forward b c \<Longrightarrow> vote_forward a c"
  unfolding vote_forward_def by (auto intro: order_trans)

lemma next_hard_state_forward:
  assumes "next_hard_state cur new pol = Inr n"
  shows "hs_commit_index cur \<le> hs_commit_index n" and "hs_current_term cur \<le> hs_current_term n"
    and "pol = PreserveSameTermVote \<Longrightarrow> vote_forward cur n"
    and "hs_current_term cur \<le> hs_current_term new \<Longrightarrow> hs_current_term n = hs_current_term new"
    and "hs_current_term cur \<le> hs_current_term new \<Longrightarrow> hs_voted_for new = Some v \<Longrightarrow> hs_voted_for n = Some v"
  using assms
  by (auto simp: next_hard_state_def Let_def vote_forward_def not_less split: if_splits option.splits)

lemma hard_state_shape:
  assumes "write_hard_state_with_vote_policy_locked D new pol s = (s', r)"
  obtains (same) "s' = s" "r \<noteq> Inr ()"
    | (written) n g where "next_hard_state (ls_hard_state s) new pol = Inr n" "r = Inr ()"
        "s' = s\<lparr>ls_commit_generation := g, ls_hard_state := n\<rparr>"
proof (cases "next_hard_state (ls_hard_state s) new pol")
  case (Inl e)
  then show ?thesis using assms same by (auto simp: write_hard_state_with_vote_policy_locked_def)
next
  case (Inr n)
  have "s' = s \<and> r \<noteq> Inr () \<or> r = Inr () \<and> (\<exists>g. s' = s\<lparr>ls_commit_generation := g, ls_hard_state := n\<rparr>)"
  proof (cases "ls_hard_state s = n")
    case True
    then have "s' = s\<lparr>ls_commit_generation := ls_commit_generation s, ls_hard_state := n\<rparr>" "r = Inr ()"
      using assms Inr by (auto simp: write_hard_state_with_vote_policy_locked_def)
    then show ?thesis by blast
  next
    case False
    have ex: "\<exists>g. s\<lparr>ls_hard_state := n\<rparr> = s\<lparr>ls_commit_generation := g, ls_hard_state := n\<rparr>"
      by (rule exI [of _ "ls_commit_generation s"]) simp
    show ?thesis
      using assms Inr False
      by (auto simp: write_hard_state_with_vote_policy_locked_def Let_def intro: ex split: if_splits option.splits)
  qed
  then show ?thesis using same written [OF Inr] by blast
qed

lemma written_ok:
  assumes "write_hard_state_with_vote_policy_locked D new pol s = (s', r)"
  shows "log_ok fp s' = log_ok fp s" and "pol = PreserveSameTermVote \<Longrightarrow> vote_forward (ls_hard_state s) (ls_hard_state s')"
proof -
  from assms have "log_ok fp s' = log_ok fp s \<and>
    (pol = PreserveSameTermVote \<longrightarrow> vote_forward (ls_hard_state s) (ls_hard_state s'))"
  proof (cases rule: hard_state_shape)
    case same
    then show ?thesis by simp
  next
    case (written n g)
    then show ?thesis using next_hard_state_forward(3) [OF written(1)] by simp
  qed
  then show "log_ok fp s' = log_ok fp s" "pol = PreserveSameTermVote \<Longrightarrow> vote_forward (ls_hard_state s) (ls_hard_state s')"
    by simp_all
qed

lemma vote_shape:
  assumes "write_vote_hard_state_if_candidate_log_is_fresh D g st li lt s = (s', r)"
  shows "s' = s \<or> (\<exists>h r'. write_hard_state_with_vote_policy_locked D h PreserveSameTermVote s = (s', r'))"
  using assms by (auto simp: write_vote_hard_state_if_candidate_log_is_fresh_def write_hard_state_def
      split: if_splits option.splits prod.splits sum.splits)

lemma vote_written:
  assumes "write_vote_hard_state_if_candidate_log_is_fresh D g st li lt s = (s', r)"
  shows "log_ok fp s' = log_ok fp s" and "vote_forward (ls_hard_state s) (ls_hard_state s')"
  using vote_shape [OF assms] written_ok by (auto simp del: log_ok_hard)

section \<open>The state machine\<close>

lemma open_ok:
  assumes "open_log fp D tr snapshot h g = Inr s"
    and "\<forall>m f. snapshot = Some (m, f) \<longrightarrow> sm_last_included_index m \<noteq> 0 \<and> sm_last_included_term m \<noteq> 0"
  shows "log_ok fp s"
proof -
  obtain es r fps where es: "validate_persisted_log_entries fp es = Inr ()"
    and r: "reconcile_persisted_log_with_snapshot es (map_option fst snapshot) tr = Inr r"
    and fps: "retained_request_identity_fingerprints_after (rl_entries r)
      (case map_option fst snapshot of Some m \<Rightarrow> sm_last_included_index m | None \<Rightarrow> 0) = Inr fps"
    and s: "ls_entries s = rl_entries r" "ls_latest_snapshot s = map_option fst snapshot" "ls_retained_fingerprints s = fps"
      "(ls_last_index s, ls_last_term s) = log_end (rl_entries r) (map_option fst snapshot)"
      "ls_entry_bytes s = map (dk_entry_len D) (rl_entries r)"
      "state_term_indexes s = term_indexes_from_entries (rl_entries r)"
    using assms(1)
    by (auto simp: open_log_def read_log_entries_def Let_def state_term_indexes_def
        split: option.splits sum.splits if_splits prod.splits)
  have c: "chain es" "commands_ok fp es" using es by (simp_all add: validate_persisted_iff)
  have "snapshot_index s = (case map_option fst snapshot of Some m \<Rightarrow> sm_last_included_index m | None \<Rightarrow> 0)"
    by (simp add: snapshot_index_def s(2))
  with reconcile_ok [OF r c] s fps assms(2) show ?thesis by (auto simp: log_ok_def)
qed

datatype log_op =
    OpBatch u64 u64 "raft_command list"
  | OpFollow u64 u64 u64 u64 u64 "raft_log_entry list"
  | OpCompact u64
  | OpSnapshot "(raft_snapshot_metadata \<times> string) option" u64 u64 u64 snapshot_payload
  | OpInstall "(raft_snapshot_metadata \<times> string) option" u64 u64 u64 "string option" snapshot_payload
  | OpHardState raft_hard_state
  | OpClearVote raft_hard_state
  | OpVote raft_hard_state "raft_hard_state option" u64 u64
  | OpAge u64 u64 u64
  | OpRefresh "(raft_snapshot_metadata \<times> snapshot_payload) option" raft_snapshot_metadata

fun run_log_op :: "(request \<Rightarrow> string option) \<Rightarrow> raft_disk \<Rightarrow> log_op \<Rightarrow> raft_log_state \<Rightarrow> raft_log_state" where
  "run_log_op fp D (OpBatch now t cs) s = fst (append_batch fp D now t cs s)"
| "run_log_op fp D (OpFollow tr pi pt T lc es) s = fst (append_entries_from_leader fp D tr pi pt T lc es s)"
| "run_log_op fp D (OpCompact i) s = fst (compact_through fp D i s)"
| "run_log_op fp D (OpSnapshot file now i t pl) s = fst (write_snapshot D file now i t pl s)"
| "run_log_op fp D (OpInstall file now i t sha pl) s = fst (install_snapshot_from_leader fp D file now i t sha pl s)"
| "run_log_op fp D (OpHardState h) s = fst (write_hard_state D h s)"
| "run_log_op fp D (OpClearVote h) s = fst (write_hard_state_clearing_vote D h s)"
| "run_log_op fp D (OpVote g st li lt) s = fst (write_vote_hard_state_if_candidate_log_is_fresh D g st li lt s)"
| "run_log_op fp D (OpAge now age through) s = fst (compact_through_for_retained_age now age through s)"
| "run_log_op fp D (OpRefresh snapshot m) s = fst (refresh_latest_snapshot_request_identity_caches snapshot m s)"

text \<open>
  What the callers guarantee: indexes do not reach the end of \<open>u64\<close>, a snapshot covers at
  least one entry, and the leader agrees with the follower's snapshot.
\<close>

fun op_allowed :: "raft_log_state \<Rightarrow> log_op \<Rightarrow> bool" where
  "op_allowed s (OpBatch now t cs) \<longleftrightarrow> unat (ls_last_index s) + length cs < 2 ^ 64"
| "op_allowed s (OpFollow tr pi pt T lc es) \<longleftrightarrow> fits_snapshot s es"
| "op_allowed s (OpSnapshot file now i t pl) \<longleftrightarrow> i \<noteq> 0 \<and> i \<noteq> - 1 \<and> t \<noteq> 0"
| "op_allowed s (OpInstall file now i t sha pl) \<longleftrightarrow> i \<noteq> 0 \<and> t \<noteq> 0"
| "op_allowed s _ \<longleftrightarrow> True"

lemma run_log_op_ok:
  assumes "log_ok fp s" and "op_allowed s op"
  shows "log_ok fp (run_log_op fp D op s)"
proof -
  have c: "consistent_log fp s" by unfold_locales (rule assms(1))
  show ?thesis
  proof (cases op)
    case (OpBatch now t cs)
    then show ?thesis using assms(2) consistent_log.batch_keeps_ok(1) [OF c prod.collapse [symmetric]] by simp
  next
    case (OpFollow tr pi pt T lc es)
    then show ?thesis using assms(2) consistent_log.append_keeps_ok [OF c prod.collapse [symmetric]] by simp
  next
    case (OpCompact i)
    then show ?thesis using consistent_log.compact_keeps_ok [OF c prod.collapse [symmetric]] by simp
  next
    case (OpSnapshot sf now i t pl)
    then show ?thesis using assms(2) consistent_log.write_snapshot_keeps_ok [OF c prod.collapse [symmetric]] by simp
  next
    case (OpInstall sf now i t sha pl)
    then show ?thesis using assms(2) consistent_log.install_keeps_ok [OF c prod.collapse [symmetric]] by simp
  next
    case (OpHardState h)
    then show ?thesis using assms(1) written_ok(1) [OF prod.collapse [symmetric]] by (simp add: write_hard_state_def)
  next
    case (OpClearVote h)
    then show ?thesis using assms(1) written_ok(1) [OF prod.collapse [symmetric]] by (simp add: write_hard_state_clearing_vote_def)
  next
    case (OpVote g st li lt)
    then show ?thesis using assms(1) vote_written(1) [OF prod.collapse [symmetric]] by simp
  next
    case (OpAge now age through)
    then show ?thesis using assms(1) by (simp add: compact_through_for_retained_age_def split: prod.splits)
  next
    case (OpRefresh snapshot m)
    then show ?thesis using consistent_log.refresh_keeps_ok [OF c prod.collapse [symmetric]] by simp
  qed
qed

inductive reachable_log :: "(request \<Rightarrow> string option) \<Rightarrow> raft_log_state \<Rightarrow> bool" for fp where
  opened: "open_log fp D tr snapshot h g = Inr s \<Longrightarrow>
    \<forall>m f. snapshot = Some (m, f) \<longrightarrow> sm_last_included_index m \<noteq> 0 \<and> sm_last_included_term m \<noteq> 0 \<Longrightarrow>
    reachable_log fp s"
| step: "reachable_log fp s \<Longrightarrow> op_allowed s op \<Longrightarrow> reachable_log fp (run_log_op fp D op s)"

lemma reachable_ok: "reachable_log fp s \<Longrightarrow> log_ok fp s"
  by (induction rule: reachable_log.induct) (auto intro: open_ok run_log_op_ok)

end
