(* ===== verification/Raft_Log_Queries.thy ===== *)
theory Raft_Log_Queries
  imports Raft_Log_Steps
begin

text \<open>
  Facts about runs of the log store: the cache of the age-based compaction changes nothing but
  the work, the operations on entries leave the term and the vote alone, and the persisted
  term, vote and commit index only move forward.
\<close>

section \<open>The age cache\<close>

definition age_reference :: "raft_log_entry list \<Rightarrow> u64 \<Rightarrow> u64 \<Rightarrow> u64 \<Rightarrow> u64 option" where
  "age_reference es now max_age max_through =
     (if max_age = 0 \<or> max_through = 0 then None
      else age_loop max_through (saturating_sub now max_age) es None)"

text \<open>Everything up to the cached index was old enough when the cache was written.\<close>

definition cache_ok :: "raft_log_entry list \<Rightarrow> age_cache option \<Rightarrow> bool" where
  "cache_ok es cache \<longleftrightarrow> (\<forall>c i. cache = Some c \<longrightarrow> ac_eligible_index c = Some i \<longrightarrow>
     (\<exists>e \<in> set es. le_index e = i) \<and>
     (\<forall>e \<in> set es. le_index e \<le> i \<longrightarrow> le_index e \<le> ac_max_through_index c \<and> le_created_at_ms e \<le> ac_oldest_retained_ms c))"

lemma age_loop_pass:
  assumes "\<forall>e \<in> set xs. le_index e \<le> mt \<and> le_created_at_ms e \<le> old" and "xs \<noteq> []"
  shows "age_loop mt old (xs @ ys) acc = age_loop mt old ys (Some (le_index (last xs)))"
  using assms by (induction xs arbitrary: acc) (auto simp: not_less [symmetric])

lemma age_loop_eligible:
  assumes "age_loop mt old es acc = Some i" and "sorted_wrt (\<lambda>a b. le_index a < le_index b) es"
    and "\<forall>j. acc = Some j \<longrightarrow> (\<forall>e \<in> set es. j < le_index e)"
  shows "\<forall>e \<in> set es. le_index e \<le> i \<longrightarrow> le_index e \<le> mt \<and> le_created_at_ms e \<le> old"
  using assms
proof (induction es arbitrary: acc)
  case (Cons e es)
  show ?case
  proof (cases "mt < le_index e \<or> old < le_created_at_ms e")
    case True
    then have "acc = Some i" using Cons.prems(1) by (auto split: if_splits)
    then have "\<forall>x \<in> set (e # es). i < le_index x" using Cons.prems(3) by blast
    then show ?thesis by (auto simp: not_le [symmetric])
  next
    case False
    then have "age_loop mt old es (Some (le_index e)) = Some i" using Cons.prems(1) by simp
    from Cons.IH [OF this] Cons.prems(2) False show ?thesis by (auto simp: not_less)
  qed
qed simp

lemma age_loop_index: "age_loop mt old es acc = Some i \<Longrightarrow> acc = Some i \<or> (\<exists>e \<in> set es. le_index e = i)"
  by (induction es arbitrary: acc) (auto split: if_splits)

lemma split_at:
  assumes "chain es" and "retained_entry_at es i \<noteq> None"
  obtains xs where "es = xs @ drop (retained_entry_upper_bound es i) es" "xs \<noteq> []" "le_index (last xs) = i"
    "\<forall>e \<in> set xs. le_index e \<le> i" "\<forall>e \<in> set es. le_index e \<le> i \<longrightarrow> e \<in> set xs"
proof -
  let ?xs = "takeWhile (\<lambda>e. le_index e \<le> i) es"
  have f: "?xs = filter (\<lambda>e. le_index e \<le> i) es" by (rule takeWhile_sorted(2) [OF chain_sorted [OF assms(1)]])
  obtain e where e: "e \<in> set es" "le_index e = i" using assms(2) retained_entry_at_None [OF assms(1), of i] by auto
  then have in_xs: "e \<in> set ?xs" unfolding f by simp
  have c: "chain ?xs" using chain_append [of ?xs "dropWhile (\<lambda>e. le_index e \<le> i) es"] assms(1) by simp
  have "i \<le> le_index (last ?xs)" using chain_bounds(2) [OF c in_xs] e(2) by simp
  moreover have "last ?xs \<in> set ?xs" using in_xs by (intro last_in_set) auto
  then have "le_index (last ?xs) \<le> i" unfolding f by simp
  ultimately have l: "le_index (last ?xs) = i" by simp
  have "es = ?xs @ drop (retained_entry_upper_bound es i) es" by (simp add: drop_upper)
  moreover have "?xs \<noteq> []" using in_xs by (metis empty_iff empty_set)
  moreover have "\<forall>e \<in> set ?xs. le_index e \<le> i" "\<forall>e \<in> set es. le_index e \<le> i \<longrightarrow> e \<in> set ?xs" unfolding f by simp_all
  ultimately show ?thesis using that l by blast
qed

lemma age_incremental:
  assumes "chain es" and "cache_ok es cache"
  shows "snd (compact_through_for_retained_age_cached_incremental es cache now age mt) = age_reference es now age mt"
    and "cache_ok es (fst (compact_through_for_retained_age_cached_incremental es cache now age mt))"
proof -
  let ?old = "saturating_sub now age" and ?run = "compact_through_for_retained_age_cached_incremental es cache now age mt"
  show s: "snd ?run = age_reference es now age mt"
  proof (cases "age = 0 \<or> mt = 0")
    case True
    then show ?thesis by (auto simp: compact_through_for_retained_age_cached_incremental_def age_reference_def)
  next
    case on: False
    let ?usable = "\<lambda>c i. ac_max_age_ms c = age \<and> ac_oldest_retained_ms c \<le> ?old \<and> ac_max_through_index c \<le> mt \<and>
      ac_eligible_index c = Some i \<and> retained_entry_at es i \<noteq> None"
    show ?thesis
    proof (cases "\<exists>c i. cache = Some c \<and> ?usable c i")
      case False
      then have "snd ?run = age_loop mt ?old es None"
        using on by (auto simp: compact_through_for_retained_age_cached_incremental_def Let_def split: option.splits)
      with on show ?thesis by (simp add: age_reference_def)
    next
      case True
      then obtain c i where c: "cache = Some c" and u: "?usable c i" by blast
      then obtain xs where xs: "es = xs @ drop (retained_entry_upper_bound es i) es" "xs \<noteq> []" "le_index (last xs) = i"
        "\<forall>e \<in> set xs. le_index e \<le> i" using split_at [OF assms(1)] by metis
      have "\<forall>e \<in> set xs. le_index e \<le> mt \<and> le_created_at_ms e \<le> ?old"
      proof
        fix e
        assume e: "e \<in> set xs"
        then have "e \<in> set es" using xs(1) by (metis UnI1 set_append)
        then have "le_index e \<le> ac_max_through_index c \<and> le_created_at_ms e \<le> ac_oldest_retained_ms c"
          using assms(2) c u xs(4) e by (auto simp: cache_ok_def)
        then show "le_index e \<le> mt \<and> le_created_at_ms e \<le> ?old" using u by (meson order_trans)
      qed
      from age_loop_pass [OF this xs(2), of "drop (retained_entry_upper_bound es i) es" None]
      have "age_loop mt ?old es None = age_loop mt ?old (drop (retained_entry_upper_bound es i) es) (Some i)"
        using xs(1,3) by simp
      moreover have "snd ?run = age_loop mt ?old (drop (retained_entry_upper_bound es i) es) (Some i)"
        using on c u by (auto simp: compact_through_for_retained_age_cached_incremental_def Let_def)
      ultimately show ?thesis using on by (simp add: age_reference_def)
    qed
  qed
  show "cache_ok es (fst ?run)"
  proof (cases "age = 0 \<or> mt = 0")
    case True
    then show ?thesis by (auto simp: compact_through_for_retained_age_cached_incremental_def cache_ok_def)
  next
    case False
    have "\<exists>t. ?run = (Some \<lparr>ac_max_age_ms = age, ac_oldest_retained_ms = ?old, ac_max_through_index = mt,
        ac_eligible_index = t\<rparr>, t)"
      using False by (simp add: compact_through_for_retained_age_cached_incremental_def Let_def split: prod.splits)
    then obtain t where t: "?run = (Some \<lparr>ac_max_age_ms = age, ac_oldest_retained_ms = ?old, ac_max_through_index = mt,
        ac_eligible_index = t\<rparr>, t)" by blast
    then have "t = age_loop mt ?old es None" using s False by (simp add: age_reference_def)
    then show ?thesis using t age_loop_eligible [OF _ chain_sorted [OF assms(1)], of mt ?old None]
        age_loop_index [of mt ?old es None] by (auto simp: cache_ok_def)
  qed
qed

lemma cache_ok_append:
  assumes "chain (es @ ys)" and "cache_ok es cache"
  shows "cache_ok (es @ ys) cache"
  unfolding cache_ok_def
proof (intro allI impI conjI ballI)
  fix c i
  assume c: "cache = Some c" "ac_eligible_index c = Some i"
  then obtain k where k: "k \<in> set es" "le_index k = i" using assms(2) by (auto simp: cache_ok_def)
  then show "\<exists>e \<in> set (es @ ys). le_index e = i" by auto
  have later: "\<forall>e \<in> set ys. i < le_index e"
    using chain_sorted [OF assms(1)] k by (auto simp: sorted_wrt_append)
  fix e
  assume "e \<in> set (es @ ys)" "le_index e \<le> i"
  then have "e \<in> set es" using later by (auto simp: not_le [symmetric])
  then show "le_index e \<le> ac_max_through_index c" "le_created_at_ms e \<le> ac_oldest_retained_ms c"
    using assms(2) c \<open>le_index e \<le> i\<close> by (auto simp: cache_ok_def)
qed

section \<open>What an operation leaves alone\<close>

text \<open>Operations on the log keep the term and the vote; they drop the age cache or only append.\<close>

definition frame :: "raft_log_state \<Rightarrow> raft_log_state \<Rightarrow> bool" where
  "frame s s' \<longleftrightarrow> ls_hard_state s' = ls_hard_state s \<and>
     (ls_age_cache s' = None \<or> ls_age_cache s' = ls_age_cache s \<and> (\<exists>ys. ls_entries s' = ls_entries s @ ys))"

lemma frame_refl [simp]: "frame s s"
  by (simp add: frame_def)

lemma replace_frame: "replace_retained_log_state s es sizes = Inr s' \<Longrightarrow> ls_hard_state s = ls_hard_state t \<Longrightarrow> frame t s'"
  by (auto simp: frame_def replace_retained_log_state_def replace_retained_log_state_with_fingerprints_def
      put_term_indexes_def split: sum.splits)

lemma append_caches_frame: "frame s ((append_to_caches D es s)\<lparr>ls_retained_fingerprints := f\<rparr>)"
  by (simp add: frame_def append_to_caches_def put_term_indexes_def Let_def)

lemma reload_frame:
  assumes "frame t s"
  shows "frame t (fst (reload_after fp D tr e s))"
proof (cases "reload_retained_log_from_disk_locked fp D tr s")
  case (Inl err)
  then show ?thesis using assms by (simp add: reload_after_def)
next
  case (Inr s')
  then have "frame t s'"
    using assms replace_frame [of s _ _ s' t]
    by (auto simp: frame_def reload_retained_log_from_disk_locked_def split: sum.splits if_splits)
  with Inr show ?thesis by (simp add: reload_after_def)
qed

lemma batch_frame: "frame s (fst (append_batch fp D now t cs s))"
  using append_caches_frame [where s = s and D = D and es = "batch_entries (ls_last_index s) t now cs"]
  by (auto simp: append_batch_def Let_def split: sum.splits prod.splits option.splits)

lemma append_suffix_frame: "frame s (fst (append_suffix fp D tr c mi suf s))"
  using append_caches_frame [where s = s and D = D and es = suf]
  by (auto simp: append_suffix_def Let_def intro: reload_frame split: sum.splits prod.splits option.splits)

lemma rebuilt_frame:
  "frame s (s\<lparr>ls_entries := es, ls_entry_bytes := b, ls_age_cache := None, ls_retained_fingerprints := f\<rparr>)"
  "frame s (put_term_indexes ti (s\<lparr>ls_entries := es, ls_entry_bytes := b, ls_age_cache := None, ls_retained_fingerprints := f,
     ls_last_index := i, ls_last_term := t\<rparr>))"
  by (simp_all add: frame_def put_term_indexes_def)

lemma rewrite_suffix_frame: "frame s (fst (rewrite_suffix fp D tr c mi suf s))"
proof -
  define keep where "keep = retained_entry_lower_bound (ls_entries s) (le_index (hd suf))"
  define pl where "pl = (if 0 < keep then le_index (ls_entries s ! (keep - 1)) else 0)"
  obtain fps e where f: "add_retained_request_identity_entries
      (truncate_retained_request_identity_fingerprints (ls_retained_fingerprints s) pl) suf = (fps, e)"
    by fastforce
  show ?thesis
    unfolding rewrite_suffix_def Let_def keep_def [symmetric] unfolding pl_def [symmetric]
    by (cases "le_index (hd suf) \<le> c"; cases "dk_truncate_ok D"; cases e)
      (simp_all add: f reload_frame rebuilt_frame split: sum.split)
qed

lemma follow_frame: "frame s (fst (append_entries_from_leader fp D tr pi pt T lc es s))"
  by (auto simp: append_entries_from_leader_def Let_def append_suffix_frame rewrite_suffix_frame
      split: sum.splits option.splits scan.splits)

lemma compact_frame: "frame s (fst (compact_through fp D i s))"
proof -
  let ?s1 = "repair_retained_log_entry_byte_cache_if_needed D s"
  have f: "frame s ?s1" by (simp add: frame_def repair_retained_log_entry_byte_cache_if_needed_def Let_def)
  then show ?thesis using replace_frame [of ?s1 _ _ _ s]
    by (auto simp: compact_through_def Let_def split: option.splits sum.splits)
qed

lemma context_frame: "frame s (fst (put_snapshot_context m f s))"
  by (auto simp: put_snapshot_context_def refresh_retained_request_identity_fingerprints_for_snapshot_boundary_def frame_def
      split: sum.splits)

lemma context_frame': "put_snapshot_context m f s = (s', r) \<Longrightarrow> frame s s'"
  using context_frame [of s m f] by simp

lemma frame_end: "frame s s' \<Longrightarrow> frame s (s'\<lparr>ls_last_index := i, ls_last_term := t\<rparr>)"
  by (simp add: frame_def)

lemma snapshot_frame: "frame s (fst (write_snapshot D sf now i t pl s))"
proof -
  have "frame s (fst (write_new_snapshot D now i t pl s))"
    by (auto simp: write_new_snapshot_def Let_def intro!: frame_end dest: context_frame' split: sum.splits prod.splits)
  moreover have "frame s (fst (rewrite_same_snapshot D sf t pl old s))" for old
    by (auto simp: rewrite_same_snapshot_def Let_def dest: context_frame' split: sum.splits prod.splits option.splits)
  ultimately show ?thesis by (simp add: write_snapshot_def split: option.splits)
qed

lemma install_frame: "frame s (fst (install_snapshot_from_leader fp D sf now i t sha pl s))"
proof -
  let ?s1 = "repair_retained_log_entry_byte_cache_if_needed D s"
  have f: "frame s ?s1" "frame s (?s1\<lparr>ls_latest_snapshot := m, ls_snapshot_fingerprints := g\<rparr>)" for m g
    by (simp_all add: frame_def repair_retained_log_entry_byte_cache_if_needed_def Let_def)
  have r: "replace_retained_log_state (?s1\<lparr>ls_latest_snapshot := m, ls_snapshot_fingerprints := g\<rparr>) es sizes = Inr s' \<Longrightarrow>
    frame s s'" for m g es sizes s'
    by (erule replace_frame) (simp add: repair_retained_log_entry_byte_cache_if_needed_def Let_def)
  have "frame s (fst (install_new_snapshot fp D now i t h pl s))" for h
    unfolding install_new_snapshot_def Let_def using f r by (auto split: sum.splits)
  then show ?thesis
    by (auto simp: install_snapshot_from_leader_def dest: context_frame' split: sum.splits option.splits prod.splits)
qed

lemma refresh_frame: "frame s (fst (refresh_latest_snapshot_request_identity_caches snapshot m s))"
  using refresh_cases [OF prod.collapse [symmetric], of snapshot m s] context_frame' by auto

text \<open>Every operation but clearing a vote moves the persisted state forward.\<close>

fun clears_vote :: "log_op \<Rightarrow> bool" where
  "clears_vote (OpClearVote _) \<longleftrightarrow> True"
| "clears_vote _ \<longleftrightarrow> False"

lemma run_log_op_frame:
  "frame s (run_log_op fp D op s) \<or> (\<exists>h. op = OpHardState h) \<or> (\<exists>h. op = OpClearVote h) \<or> (\<exists>g st li lt. op = OpVote g st li lt) \<or>
   (\<exists>a b c. op = OpAge a b c)"
  by (cases op) (simp_all add: batch_frame follow_frame compact_frame snapshot_frame install_frame refresh_frame)

lemma run_log_op_forward:
  assumes "\<not> clears_vote op"
  shows "vote_forward (ls_hard_state s) (ls_hard_state (run_log_op fp D op s))"
proof -
  consider "frame s (run_log_op fp D op s)" | h where "op = OpHardState h" | g st li lt where "op = OpVote g st li lt"
    | a b c where "op = OpAge a b c"
    using run_log_op_frame [of s fp D op] assms by auto
  then show ?thesis
  proof cases
    case 1
    then show ?thesis by (simp add: frame_def)
  next
    case 2
    then show ?thesis using written_ok(2) [OF prod.collapse [symmetric]] by (simp add: write_hard_state_def)
  next
    case 3
    then show ?thesis using vote_written(2) [OF prod.collapse [symmetric]] by simp
  next
    case 4
    then show ?thesis by (simp add: compact_through_for_retained_age_def split: prod.splits)
  qed
qed

definition run_log_ops :: "(request \<Rightarrow> string option) \<Rightarrow> (raft_disk \<times> log_op) list \<Rightarrow> raft_log_state \<Rightarrow> raft_log_state" where
  "run_log_ops fp ops s = fold (\<lambda>(D, op). run_log_op fp D op) ops s"

lemma run_log_ops_forward:
  "list_all (\<lambda>(D, op). \<not> clears_vote op) ops \<Longrightarrow> vote_forward (ls_hard_state s) (ls_hard_state (run_log_ops fp ops s))"
proof (induction ops arbitrary: s)
  case (Cons x ops)
  obtain D op where x: "x = (D, op)" by (cases x)
  with Cons show ?case
    using run_log_op_forward [of op s fp D] vote_forward_trans by (auto simp: run_log_ops_def)
qed (simp add: run_log_ops_def)

section \<open>The cache stays valid\<close>

lemma frame_cache:
  assumes "frame s s'" and "cache_ok (ls_entries s) (ls_age_cache s)" and "chain (ls_entries s')"
  shows "cache_ok (ls_entries s') (ls_age_cache s')"
proof (cases "ls_age_cache s'")
  case None
  then show ?thesis by (simp add: cache_ok_def)
next
  case (Some c)
  then obtain ys where "ls_age_cache s' = ls_age_cache s" "ls_entries s' = ls_entries s @ ys"
    using assms(1) by (auto simp: frame_def)
  then show ?thesis using cache_ok_append [OF _ assms(2)] assms(3) by simp
qed

lemma hard_cache:
  assumes "write_hard_state_with_vote_policy_locked D h p s = (s', r)" and "cache_ok (ls_entries s) (ls_age_cache s)"
  shows "cache_ok (ls_entries s') (ls_age_cache s')"
  using assms(1) by (cases rule: hard_state_shape) (use assms(2) in simp_all)

lemma run_log_op_cache:
  assumes "log_ok fp s" and "op_allowed s op" and "cache_ok (ls_entries s) (ls_age_cache s)"
  shows "cache_ok (ls_entries (run_log_op fp D op s)) (ls_age_cache (run_log_op fp D op s))"
proof -
  have ok': "chain (ls_entries (run_log_op fp D op s))" using run_log_op_ok [OF assms(1,2)] by (simp add: log_ok_def)
  have ch: "chain (ls_entries s)" using assms(1) by (simp add: log_ok_def)
  consider "frame s (run_log_op fp D op s)" | h where "op = OpHardState h" | h where "op = OpClearVote h"
    | g st li lt where "op = OpVote g st li lt" | a b c where "op = OpAge a b c"
    using run_log_op_frame [of s fp D op] by auto
  then show ?thesis
  proof cases
    case 1
    then show ?thesis by (rule frame_cache [OF _ assms(3) ok'])
  next
    case 2
    then show ?thesis using hard_cache [OF prod.collapse [symmetric] assms(3)] by (simp add: write_hard_state_def)
  next
    case 3
    then show ?thesis using hard_cache [OF prod.collapse [symmetric] assms(3)]
      by (simp add: write_hard_state_clearing_vote_def)
  next
    case 4
    then show ?thesis using vote_shape [OF prod.collapse [symmetric], of D g st li lt s] hard_cache assms(3) by auto
  next
    case 5
    then show ?thesis using age_incremental(2) [OF ch assms(3)]
      by (simp add: compact_through_for_retained_age_def case_prod_beta Let_def)
  qed
qed

lemma opened_cache: "open_log fp D tr snapshot h g = Inr s \<Longrightarrow> ls_age_cache s = None"
  by (auto simp: open_log_def Let_def split: option.splits sum.splits if_splits prod.splits)

lemma reachable_cache: "reachable_log fp s \<Longrightarrow> cache_ok (ls_entries s) (ls_age_cache s)"
proof (induction rule: reachable_log.induct)
  case (opened D tr snapshot h g s)
  then show ?case by (simp add: opened_cache cache_ok_def)
next
  case (step s op D)
  then show ?case by (simp add: run_log_op_cache reachable_ok)
qed

end
