(* ===== verification/Raft_Log_Bytes.thy ===== *)
theory Raft_Log_Bytes
  imports Raft_Log_Queries
begin

text \<open>
  The byte cache of the log store.  The length of a serialised entry is a function of the
  entry, so a run uses disks that agree on it; then the cached lengths are those of the
  retained entries after every operation.
\<close>

definition sized :: "(raft_log_entry \<Rightarrow> nat) \<Rightarrow> raft_log_state \<Rightarrow> bool" where
  "sized len s \<longleftrightarrow> ls_entry_bytes s = map len (ls_entries s)"

lemma sized_fields [simp]:
  "sized len (s\<lparr>ls_retained_fingerprints := f\<rparr>) = sized len s"
  "sized len (s\<lparr>ls_latest_snapshot := m\<rparr>) = sized len s"
  "sized len (s\<lparr>ls_snapshot_fingerprints := g\<rparr>) = sized len s"
  "sized len (s\<lparr>ls_last_index := i, ls_last_term := t\<rparr>) = sized len s"
  "sized len (s\<lparr>ls_age_cache := c\<rparr>) = sized len s"
  "sized len (s\<lparr>ls_hard_state := h\<rparr>) = sized len s"
  "sized len (s\<lparr>ls_commit_generation := n\<rparr>) = sized len s"
  by (simp_all add: sized_def)

lemma replace_sized: "replace_retained_log_state s es (map len es) = Inr s' \<Longrightarrow> sized len s'"
  by (auto simp: sized_def replace_retained_log_state_def replace_retained_log_state_with_fingerprints_def
      split: sum.splits)

lemma append_caches_sized: "sized (dk_entry_len D) s \<Longrightarrow> sized (dk_entry_len D) (append_to_caches D es s)"
  by (simp add: sized_def append_to_caches_def Let_def)

lemma repair_sized: "sized (dk_entry_len D) (repair_retained_log_entry_byte_cache_if_needed D s)"
  by (simp add: sized_def repair_retained_log_entry_byte_cache_if_needed_def Let_def)

lemma suffix_sized:
  "sized len s \<Longrightarrow> retained_log_entry_bytes_suffix (ls_entries s) (ls_entry_bytes s) n = Inr sizes \<Longrightarrow>
   sizes = map len (drop n (ls_entries s))"
  by (auto simp: sized_def retained_log_entry_bytes_suffix_def drop_map split: sum.splits if_splits)

lemma reload_sized:
  assumes "sized (dk_entry_len D) s"
  shows "sized (dk_entry_len D) (fst (reload_after fp D tr e s))"
  using assms replace_sized
  by (auto simp: reload_after_def reload_retained_log_from_disk_locked_def split: sum.splits if_splits)

lemma batch_sized: "sized (dk_entry_len D) s \<Longrightarrow> sized (dk_entry_len D) (fst (append_batch fp D now t cs s))"
  by (auto simp: append_batch_def Let_def append_caches_sized split: sum.splits prod.splits option.splits)

lemma append_suffix_sized: "sized (dk_entry_len D) s \<Longrightarrow> sized (dk_entry_len D) (fst (append_suffix fp D tr c mi suf s))"
  by (auto simp: append_suffix_def Let_def append_caches_sized intro: reload_sized
      split: sum.splits prod.splits option.splits)

lemma rewrite_suffix_sized:
  assumes "sized (dk_entry_len D) s"
  shows "sized (dk_entry_len D) (fst (rewrite_suffix fp D tr c mi suf s))"
proof -
  define keep where "keep = retained_entry_lower_bound (ls_entries s) (le_index (hd suf))"
  define pl where "pl = (if 0 < keep then le_index (ls_entries s ! (keep - 1)) else 0)"
  obtain fps e where f: "add_retained_request_identity_entries
      (truncate_retained_request_identity_fingerprints (ls_retained_fingerprints s) pl) suf = (fps, e)"
    by fastforce
  have r: "sized (dk_entry_len D) (s\<lparr>ls_entries := take keep (ls_entries s) @ suf,
      ls_entry_bytes := take keep (ls_entry_bytes s) @ map (dk_entry_len D) suf,
      ls_age_cache := None, ls_retained_fingerprints := fps\<rparr>)"
    using assms by (simp add: sized_def take_map)
  then have r': "sized (dk_entry_len D) (put_term_indexes ti (s\<lparr>ls_entries := take keep (ls_entries s) @ suf,
      ls_entry_bytes := take keep (ls_entry_bytes s) @ map (dk_entry_len D) suf,
      ls_age_cache := None, ls_retained_fingerprints := fps, ls_last_index := i, ls_last_term := t\<rparr>))" for ti i t
    by (simp add: sized_def)
  show ?thesis
    unfolding rewrite_suffix_def Let_def keep_def [symmetric] unfolding pl_def [symmetric]
    by (cases "le_index (hd suf) \<le> c"; cases "dk_truncate_ok D"; cases e)
      (simp_all add: f reload_sized [OF r] reload_sized [OF assms] r' assms split: sum.split)
qed

lemma follow_sized:
  "sized (dk_entry_len D) s \<Longrightarrow> sized (dk_entry_len D) (fst (append_entries_from_leader fp D tr pi pt T lc es s))"
  by (auto simp: append_entries_from_leader_def Let_def append_suffix_sized rewrite_suffix_sized
      split: sum.splits option.splits scan.splits)

lemma compact_sized:
  assumes "sized (dk_entry_len D) s"
  shows "sized (dk_entry_len D) (fst (compact_through fp D i s))"
proof -
  let ?s1 = "repair_retained_log_entry_byte_cache_if_needed D s"
  have f: "sized (dk_entry_len D) ?s1" by (rule repair_sized)
  have r: "sized (dk_entry_len D) s'"
    if "retained_log_entry_bytes_suffix (ls_entries ?s1) (ls_entry_bytes ?s1) n = Inr sizes"
      "replace_retained_log_state ?s1 (drop n (ls_entries ?s1)) sizes = Inr s'" for n sizes s'
    using that replace_sized suffix_sized [OF f that(1)] by blast
  show ?thesis unfolding compact_through_def Let_def using f assms r
    by (auto split: option.splits sum.splits)
qed

lemma context_sized: "put_snapshot_context m f s = (s', r) \<Longrightarrow> sized len s \<Longrightarrow> sized len s'"
  by (auto simp: put_snapshot_context_def refresh_retained_request_identity_fingerprints_for_snapshot_boundary_def
      sized_def split: sum.splits)

lemma snapshot_sized:
  assumes "sized len s"
  shows "sized len (fst (write_snapshot D sf now i t pl s))"
proof -
  have "sized len (fst (write_new_snapshot D now i t pl s))"
    using assms by (auto simp: write_new_snapshot_def Let_def dest: context_sized split: sum.splits prod.splits)
  moreover have "sized len (fst (rewrite_same_snapshot D sf t pl old s))" for old
    using assms by (auto simp: rewrite_same_snapshot_def Let_def dest: context_sized split: sum.splits prod.splits option.splits)
  ultimately show ?thesis using assms by (simp add: write_snapshot_def split: option.splits)
qed

lemma install_sized:
  assumes "sized (dk_entry_len D) s"
  shows "sized (dk_entry_len D) (fst (install_snapshot_from_leader fp D sf now i t sha pl s))"
proof -
  let ?s1 = "repair_retained_log_entry_byte_cache_if_needed D s"
  have f: "sized (dk_entry_len D) ?s1"
    "sized (dk_entry_len D) (?s1\<lparr>ls_latest_snapshot := m, ls_snapshot_fingerprints := g\<rparr>)" for m g
    using repair_sized [of D s] by (simp_all add: sized_def)
  have kept: "sized (dk_entry_len D) s'"
    if "retained_log_entry_bytes_suffix (ls_entries ?s1) (ls_entry_bytes ?s1) n = Inr sizes"
      "replace_retained_log_state u (drop n (ls_entries ?s1)) sizes = Inr s'" for n u sizes s'
    using that(2) replace_sized suffix_sized [OF f(1) that(1)] by blast
  have none: "sized (dk_entry_len D) s'" if "replace_retained_log_state u [] [] = Inr s'" for u s'
    using that replace_sized [of u "[]" "dk_entry_len D"] by simp
  have "sized (dk_entry_len D) (fst (install_new_snapshot fp D now i t h pl s))" for h
  proof (cases "term_at_index ?s1 i = Some t")
    case True
    show ?thesis unfolding install_new_snapshot_def Let_def if_P [OF True] using f kept by (auto split: sum.splits)
  next
    case False
    show ?thesis unfolding install_new_snapshot_def Let_def if_not_P [OF False] using f none by (auto split: sum.splits)
  qed
  then show ?thesis using assms
    by (auto simp: install_snapshot_from_leader_def dest: context_sized split: sum.splits option.splits prod.splits)
qed

lemma refresh_sized: "sized len s \<Longrightarrow> sized len (fst (refresh_latest_snapshot_request_identity_caches snapshot m s))"
  using refresh_cases [OF prod.collapse [symmetric], of snapshot m s] context_sized by auto

lemma hard_sized:
  assumes "write_hard_state_with_vote_policy_locked D h p s = (s', r)" and "sized len s"
  shows "sized len s'"
  using assms(1) by (cases rule: hard_state_shape) (use assms(2) in simp_all)

lemma run_log_op_sized:
  assumes "sized (dk_entry_len D) s"
  shows "sized (dk_entry_len D) (run_log_op fp D op s)"
proof (cases op)
  case (OpHardState h)
  then show ?thesis using hard_sized [OF prod.collapse [symmetric] assms] by (simp add: write_hard_state_def)
next
  case (OpClearVote h)
  then show ?thesis using hard_sized [OF prod.collapse [symmetric] assms] by (simp add: write_hard_state_clearing_vote_def)
next
  case (OpVote g st li lt)
  then show ?thesis using vote_shape [OF prod.collapse [symmetric], of D g st li lt s] hard_sized assms by auto
next
  case (OpAge now age through)
  then show ?thesis using assms by (simp add: compact_through_for_retained_age_def split: prod.splits)
qed (simp_all add: assms batch_sized follow_sized compact_sized snapshot_sized install_sized refresh_sized)

lemma opened_sized: "open_log fp D tr snapshot h g = Inr s \<Longrightarrow> sized (dk_entry_len D) s"
  by (auto simp: open_log_def sized_def Let_def split: option.splits sum.splits if_splits prod.splits)

text \<open>The runs of a store whose disks agree on the length of an entry.\<close>

inductive reachable_sized :: "(request \<Rightarrow> string option) \<Rightarrow> (raft_log_entry \<Rightarrow> nat) \<Rightarrow> raft_log_state \<Rightarrow> bool"
  for fp len where
  opened: "open_log fp D tr snapshot h g = Inr s \<Longrightarrow> dk_entry_len D = len \<Longrightarrow>
    \<forall>m f. snapshot = Some (m, f) \<longrightarrow> sm_last_included_index m \<noteq> 0 \<and> sm_last_included_term m \<noteq> 0 \<Longrightarrow>
    reachable_sized fp len s"
| step: "reachable_sized fp len s \<Longrightarrow> op_allowed s op \<Longrightarrow> dk_entry_len D = len \<Longrightarrow>
    reachable_sized fp len (run_log_op fp D op s)"

lemma reachable_sized_log: "reachable_sized fp len s \<Longrightarrow> reachable_log fp s"
  by (induction rule: reachable_sized.induct) (auto intro: reachable_log.intros)

lemma reachable_sized_ok: "reachable_sized fp len s \<Longrightarrow> sized len s"
  by (induction rule: reachable_sized.induct) (auto intro: opened_sized run_log_op_sized)

end
