(* ===== verification/Raft_Samples.thy ===== *)
theory Raft_Samples
  imports Raft_Log_Bytes
begin

text \<open>
  A small cluster on which the contracts of the log store are instantiated: a follower that was
  opened on an empty disk, took a batch of three entries and committed two of them, and the log
  of a later leader that replaces the third.
\<close>

text \<open>Lengths are compared with the bound of \<open>usize\<close> as integers, which evaluate in binary.\<close>

lemma file_len_code [code]:
  "retained_log_entry_file_len n = (if int n + 1 < 18446744073709551616 then Inr (n + 1) else Inl LengthOverflow)"
  "checked_add_len a b = (if int a + int b < 18446744073709551616 then Inr (a + b) else Inl LengthOverflow)"
  by (simp_all add: retained_log_entry_file_len_def checked_add_len_def)

definition demo_fp :: "request \<Rightarrow> string option" where
  "demo_fp r = Some ''f''"

definition demo_disk :: raft_disk where
  "demo_disk = \<lparr>dk_entry_len = (\<lambda>e. 10), dk_append_ok = True, dk_truncate_ok = True, dk_rewrite_ok = True,
     dk_hard_state_ok = True, dk_parsed_log = Some []\<rparr>"

definition demo_hard :: "u64 \<Rightarrow> string option \<Rightarrow> u64 \<Rightarrow> raft_hard_state" where
  "demo_hard t v c = \<lparr>hs_current_term = t, hs_voted_for = v, hs_commit_index = c\<rparr>"

definition fresh_log :: raft_log_state where
  "fresh_log = \<lparr>ls_last_index = 0, ls_last_term = 0, ls_hard_state = demo_hard 0 None 0, ls_commit_generation = 0,
     ls_latest_snapshot = None, ls_snapshot_fingerprints = fmempty, ls_retained_fingerprints = fmempty,
     ls_entries = [], ls_entry_bytes = [], ls_term_by_index = fmempty, ls_first_index_by_term = fmempty,
     ls_last_index_by_term = fmempty, ls_age_cache = None\<rparr>"

definition noop_at :: "u64 \<Rightarrow> u64 \<Rightarrow> u64 \<Rightarrow> raft_log_entry" where
  "noop_at i t now = \<lparr>le_index = i, le_term = t, le_created_at_ms = now, le_command = Noop\<rparr>"

definition demo_log :: raft_log_state where
  "demo_log = \<lparr>ls_last_index = 3, ls_last_term = 1, ls_hard_state = demo_hard 1 (Some ''n1'') 2,
     ls_commit_generation = 0, ls_latest_snapshot = None, ls_snapshot_fingerprints = fmempty,
     ls_retained_fingerprints = fmempty,
     ls_entries = [noop_at 1 1 1000, noop_at 2 1 1000, noop_at 3 1 1000], ls_entry_bytes = [10, 10, 10],
     ls_term_by_index = fmap_of_list [(1, 1), (2, 1), (3, 1)], ls_first_index_by_term = fmap_of_list [(1, 1)],
     ls_last_index_by_term = fmap_of_list [(1, 3)], ls_age_cache = None\<rparr>"

definition demo_leader :: "raft_log_entry list" where
  "demo_leader = [noop_at 1 1 1000, noop_at 2 1 1000, noop_at 3 2 2000, noop_at 4 2 2000]"

lemmas log_sample_defs = demo_fp_def demo_disk_def demo_hard_def fresh_log_def noop_at_def demo_leader_def demo_log_def

lemma fresh_reachable: "reachable_sized demo_fp (\<lambda>e. 10) fresh_log"
proof (rule reachable_sized.opened)
  show "open_log demo_fp demo_disk 8 None (demo_hard 0 None 0) 0 = Inr fresh_log"
    unfolding log_sample_defs by code_simp
qed (simp_all add: demo_disk_def)

lemma demo_log_run:
  "run_log_op demo_fp demo_disk (OpHardState (demo_hard 1 (Some ''n1'') 2))
     (run_log_op demo_fp demo_disk (OpBatch 1000 1 [Noop, Noop, Noop]) fresh_log) = demo_log"
  unfolding log_sample_defs by code_simp

lemma demo_sized: "reachable_sized demo_fp (\<lambda>e. 10) demo_log"
proof -
  have d: "dk_entry_len demo_disk = (\<lambda>e. 10)" by (simp add: demo_disk_def)
  have "op_allowed fresh_log (OpBatch 1000 1 [Noop, Noop, Noop])" by (simp add: fresh_log_def)
  note r = reachable_sized.step [OF fresh_reachable this d]
  show ?thesis unfolding demo_log_run [symmetric] by (rule reachable_sized.step [OF r _ d]) simp
qed

lemmas demo_reachable = reachable_sized_log [OF demo_sized]

interpretation demo_follower: consistent_log demo_fp demo_log
  by unfold_locales (rule reachable_ok [OF demo_reachable])

lemma demo_log_fields:
  "ls_entries demo_log = [noop_at 1 1 1000, noop_at 2 1 1000, noop_at 3 1 1000]"
  "ls_hard_state demo_log = demo_hard 1 (Some ''n1'') 2" "ls_latest_snapshot demo_log = None"
  "ls_last_index demo_log = 3" "ls_last_term demo_log = 1" "ls_age_cache demo_log = None"
  by (simp_all add: demo_log_def)

text \<open>The leader of term 2 replaces the follower's third entry and adds a fourth.\<close>

definition demo_append :: "raft_log_state \<times> (raft_error + raft_append_report)" where
  "demo_append = append_entries_from_leader demo_fp demo_disk 8 2 1 2 2 (drop 2 demo_leader) demo_log"

definition demo_report :: raft_append_report where
  "demo_report = \<lparr>ar_success = True, ar_match_index = 4, ar_conflict_index = None, ar_conflict_term = None,
     ar_appended_entries = 0, ar_rewritten_entries = 2, ar_truncated_entries = 1\<rparr>"

lemma demo_append_fields: "snd demo_append = Inr demo_report" "ls_entries (fst demo_append) = demo_leader"
  unfolding demo_append_def demo_report_def log_sample_defs by code_simp+

lemma demo_run:
  "append_entries_from_leader demo_fp demo_disk 8 2 1 2 2 (drop 2 demo_leader) demo_log = (fst demo_append, Inr demo_report)"
  by (simp add: prod_eq_iff demo_append_fields(1) flip: demo_append_def)

lemma demo_fits: "fits_snapshot demo_log es"
  by (simp add: fits_snapshot_def demo_log_fields)

end
