(* ===== verification/Raft_Grants.thy ===== *)
theory Raft_Grants
  imports Raft_Commands
begin

text \<open>
  Grants fixed by the index of a log entry: entries at different indexes give different lock
  ids, and the fencing tokens of a later entry are above those of an earlier one.
\<close>

section \<open>Fencing tokens\<close>

text \<open>The largest index whose block of tokens still fits into \<open>u64\<close>.\<close>

definition seed_limit :: nat where
  "seed_limit = (2 ^ 64 - 4000000000000000) div 6 - 1"

lemma unat_saturating_mul:
  assumes "unat a * unat b < 2 ^ 64"
  shows "unat (saturating_mul a b) = unat a * unat b"
  using assms by (simp add: saturating_mul_def unat_word_ariths)

lemma unat_saturating_add:
  assumes "unat a + unat b < 2 ^ 64"
  shows "unat (saturating_add a b) = unat a + unat b"
proof -
  have u: "unat (a + b) = unat a + unat b" using assms by (simp add: unat_word_ariths)
  then have "a \<le> a + b" by (simp add: word_le_nat_alt)
  with u show ?thesis by (simp add: saturating_add_def)
qed

lemma unat_seed:
  assumes "unat i \<le> seed_limit"
  shows "unat (deterministic_fencing_seed i) = 4000000000000000 + unat i * 6"
    and "4000000000000000 + unat i * 6 + 6 \<le> (2 ^ 64 :: nat)"
proof -
  show lim: "4000000000000000 + unat i * 6 + 6 \<le> (2 ^ 64 :: nat)" using assms by (simp add: seed_limit_def)
  have w: "of_nat (MAX_COMPOSITE_KEYS + 1) = (6 :: u64)" by (simp add: MAX_COMPOSITE_KEYS_def)
  have m: "unat (saturating_mul i 6) = unat i * 6" using lim by (subst unat_saturating_mul) simp_all
  have b: "unat RAFT_FENCING_TOKEN_BASE = 4000000000000000" by (simp add: RAFT_FENCING_TOKEN_BASE_def)
  show "unat (deterministic_fencing_seed i) = 4000000000000000 + unat i * 6"
    unfolding deterministic_fencing_seed_def w using lim m b
    by (subst unat_saturating_add) simp_all
qed

lemma tokens_ascend:
  assumes "i < j" and "unat j \<le> seed_limit" and "unat off \<le> MAX_COMPOSITE_KEYS" and "unat off' \<le> MAX_COMPOSITE_KEYS"
  shows "saturating_add (deterministic_fencing_seed i) off < saturating_add (deterministic_fencing_seed j) off'"
proof -
  have ij: "unat i < unat j" using assms(1) by (simp add: word_less_nat_alt)
  then have "unat i \<le> seed_limit" using assms(2) by simp
  note si = unat_seed [OF this] and sj = unat_seed [OF assms(2)]
  have "unat (saturating_add (deterministic_fencing_seed i) off) = 4000000000000000 + unat i * 6 + unat off"
    using si assms(3) by (subst unat_saturating_add) (simp_all add: MAX_COMPOSITE_KEYS_def)
  moreover have "unat (saturating_add (deterministic_fencing_seed j) off') = 4000000000000000 + unat j * 6 + unat off'"
    using sj assms(4) by (subst unat_saturating_add) (simp_all add: MAX_COMPOSITE_KEYS_def)
  ultimately show ?thesis using ij assms(3) by (simp add: word_less_nat_alt MAX_COMPOSITE_KEYS_def)
qed

section \<open>Lock ids\<close>

fun digits_value :: "string \<Rightarrow> nat" where
  "digits_value ds = fold (\<lambda>d v. v * 10 + (of_char d - 48)) ds 0"

lemma digits_value_snoc: "digits_value (ds @ [d]) = digits_value ds * 10 + (of_char d - 48)"
  by simp

lemma decimal_digits_value: "n < 10 ^ w \<Longrightarrow> digits_value (decimal_digits w n) = n"
proof (induction w arbitrary: n)
  case (Suc w)
  have d: "of_char (char_of (48 + n mod 10)) = 48 + n mod 10"
    by (simp add: take_bit_eq_mod)
  have "n div 10 < 10 ^ w" using Suc.prems by (simp add: less_mult_imp_div_less mult.commute)
  then have "digits_value (decimal_digits w (n div 10)) = n div 10" by (rule Suc.IH)
  then show ?case unfolding decimal_digits.simps digits_value_snoc d by simp
qed simp

lemma lock_uuid_inj: "deterministic_lock_uuid i = deterministic_lock_uuid j \<longleftrightarrow> i = j"
proof
  assume "deterministic_lock_uuid i = deterministic_lock_uuid j"
  then have d: "decimal_digits 20 (unat i) = decimal_digits 20 (unat j)" by (simp add: deterministic_lock_uuid_def)
  have b: "unat k < 10 ^ 20" for k :: u64
  proof -
    have "unat k < 2 ^ 64" using unsigned_less [of k] by simp
    then show ?thesis by simp
  qed
  have "unat i = unat j" using arg_cong [OF d, of digits_value] by (simp only: decimal_digits_value [OF b])
  then show "i = j" by (metis word_unat_eq_iff)
qed simp

end
