(* ===== verification/Raft_Properties.thy ===== *)
theory Raft_Properties
  imports Raft_Selection Raft_Voters Raft_Samples Raft_Grants
begin

text \<open>The correctness properties of the replication layer.\<close>

section \<open>The log of a follower\<close>

text \<open>
  C26: log matching is kept.  A follower that takes entries from a leader whose log it matches
  - equal terms at an index mean equal entries from there down - matches it afterwards, whatever
  it had to truncate and rewrite.
\<close>

theorem log_matching_kept:
  assumes "reachable_log fp s" and "append_entries_from_leader fp D tr pi pt T lc es s = (s', Inr rep)"
    and "fits_snapshot s es" and "chain L" and "set es \<subseteq> set L" and "prev_in pi pt L"
    and "log_matching (ls_entries s) L" and "agree_upto (snapshot_index s) (ls_entries s) L"
  shows "log_matching (ls_entries s') L"
proof -
  have "consistent_log fp s" by unfold_locales (rule reachable_ok [OF assms(1)])
  from consistent_log.matching_kept [OF this assms(2-8)] show ?thesis .
qed

theorem log_matching_kept_witness:
  "log_matching (ls_entries (fst demo_append)) demo_leader \<and> ls_entries (fst demo_append) \<noteq> ls_entries demo_log"
proof -
  have "chain demo_leader" and "prev_in 2 1 demo_leader" and "set (drop 2 demo_leader) \<subseteq> set demo_leader"
    by (simp_all add: demo_leader_def noop_at_def prev_in_def checked_succ_def)
  moreover have "log_matching (ls_entries demo_log) demo_leader"
    "agree_upto (snapshot_index demo_log) (ls_entries demo_log) demo_leader"
    by (simp_all add: log_matching_def agree_upto_def demo_log_fields demo_leader_def noop_at_def same_def
        snapshot_index_def word_le_nat_alt)
  ultimately have "log_matching (ls_entries (fst demo_append)) demo_leader"
    using log_matching_kept [OF demo_reachable demo_run demo_fits] by simp
  then show ?thesis by (simp add: demo_append_fields demo_log_fields demo_leader_def)
qed

text \<open>
  C27: committed entries survive.  Whatever a leader sends, an append that returns leaves every
  entry up to the commit index - the larger of the persisted and the in-memory one - as it was.
\<close>

theorem committed_entries_kept:
  assumes "reachable_log fp s" and "append_entries_from_leader fp D tr pi pt T lc es s = (s', Inr rep)"
    and "fits_snapshot s es" and "c = max lc (hs_commit_index (ls_hard_state s))"
  shows "filter (\<lambda>e. le_index e \<le> c) (ls_entries s') = filter (\<lambda>e. le_index e \<le> c) (ls_entries s)"
proof -
  have "consistent_log fp s" by unfold_locales (rule reachable_ok [OF assms(1)])
  from consistent_log.committed_kept [OF this assms(2-4)] show ?thesis .
qed

theorem committed_entries_kept_witness:
  "filter (\<lambda>e. le_index e \<le> 2) (ls_entries (fst demo_append)) = [noop_at 1 1 1000, noop_at 2 1 1000]"
proof -
  have "2 = max 2 (hs_commit_index (ls_hard_state demo_log))" by (simp add: demo_log_fields demo_hard_def)
  from committed_entries_kept [OF demo_reachable demo_run demo_fits this]
  show ?thesis by (simp add: demo_log_fields noop_at_def)
qed

text \<open>
  C28: a successful append tells the truth.  If the follower answers with success, it holds
  every entry of the message that its snapshot does not cover, with the leader's term and
  command.
\<close>

theorem successful_append_holds:
  assumes "reachable_log fp s" and "append_entries_from_leader fp D tr pi pt T lc es s = (s', Inr rep)"
    and "ar_success rep" and "fits_snapshot s es"
  shows "\<forall>e \<in> set es. snapshot_index s < le_index e \<longrightarrow> held (ls_entries s') e"
proof -
  have "consistent_log fp s" by unfold_locales (rule reachable_ok [OF assms(1)])
  from consistent_log.success_holds [OF this assms(2-4)] show ?thesis .
qed

theorem successful_append_holds_witness: "held (ls_entries (fst demo_append)) (noop_at 4 2 2000)"
proof -
  have "ar_success demo_report" by (simp add: demo_report_def)
  moreover have "noop_at 4 2 2000 \<in> set (drop 2 demo_leader)" "snapshot_index demo_log < le_index (noop_at 4 2 2000)"
    by (simp_all add: demo_leader_def noop_at_def snapshot_index_def demo_log_fields)
  ultimately show ?thesis using successful_append_holds [OF demo_reachable demo_run _ demo_fits] by blast
qed

text \<open>
  C29: the invariant of the log store.  Open a store and run any sequence of batches, appends from
  a leader, compactions, snapshots, installs, refreshes, vote writes and age queries, successful or
  failing, in which indexes stay below the end of \<open>u64\<close>, snapshots have a positive index and term,
  the leader's entries agree with the follower's snapshot, and the length of a serialised entry
  is a function \<open>len\<close> of the entry.  Then the entries are contiguous with terms that do not
  decrease, connect to the snapshot and hold valid commands, and all caches are those of the
  entries: terms by index, first and last index by term, request ids, and the byte lengths.
\<close>

theorem log_store_invariant:
  "reachable_sized fp len s \<Longrightarrow> log_ok fp s \<and> ls_entry_bytes s = map len (ls_entries s)"
  using reachable_ok [OF reachable_sized_log] reachable_sized_ok unfolding sized_def by blast

theorem log_store_invariant_witness: "log_ok demo_fp demo_log \<and> ls_entry_bytes demo_log = [10, 10, 10]"
  using log_store_invariant [OF demo_sized] by (simp add: demo_log_def)

text \<open>
  C30: terms, votes and the commit index only move forward.  Over any run in which no vote is
  deliberately cleared, the persisted term and commit index never decrease and within a term a
  vote, once persisted, never changes.
\<close>

theorem persisted_vote_forward:
  assumes "list_all (\<lambda>(D, op). \<not> clears_vote op) ops"
  shows "vote_forward (ls_hard_state s) (ls_hard_state (run_log_ops fp ops s))"
  using assms by (rule run_log_ops_forward)

theorem persisted_vote_forward_witness:
  "vote_forward (ls_hard_state demo_log) (ls_hard_state (run_log_ops demo_fp
     [(demo_disk, OpHardState (demo_hard 1 (Some ''n2'') 2)), (demo_disk, OpCompact 1)] demo_log))"
  by (rule persisted_vote_forward) simp

text \<open>
  C31: no two disjoint quorums.  Quorums of two validated configurations that may be in force at
  the same time - equal ones, or a joint configuration and one of its halves - share a node.
\<close>

theorem validated_quorums_intersect:
  assumes "validate_raft_membership_for_transport m am = Inr m1" and "validate_raft_membership_for_transport n am = Inr m2"
    and "adjacent m1 m2" and "quorum_met m1 A" and "quorum_met m2 B"
  shows "\<exists>i. i |\<in>| A \<and> i |\<in>| B"
proof -
  have "adjacent_memberships m1 m2"
    by unfold_locales (use valid_voters(1) [OF validated(1)] assms in blast)+
  from adjacent_memberships.shared_node [OF this assms(4,5)] show ?thesis .
qed

lemma demo_joint_validated:
  "validate_raft_membership_for_transport (MJoint three_peers next_peers) False = Inr (MJoint three_peers next_peers)"
  "validate_raft_membership_for_transport (MSimple three_peers) False = Inr (MSimple three_peers)"
  unfolding peers_defs by code_simp+

theorem validated_quorums_intersect_witness:
  "\<exists>i. i |\<in>| {|''n1'', ''n2''|} \<and> i |\<in>| {|''n2'', ''n3''|}"
proof (rule validated_quorums_intersect [OF demo_joint_validated(2) demo_joint_validated(1)])
  show "adjacent (MSimple three_peers) (MJoint three_peers next_peers)" by simp
  show "quorum_met (MSimple three_peers) {|''n1'', ''n2''|}" "quorum_met (MJoint three_peers next_peers) {|''n2'', ''n3''|}"
    unfolding peers_defs by code_simp+
qed

text \<open>
  C35: what a follower answers, a leader can use.  The conflict hint of a refused append passes
  the leader's validation of hints.
\<close>

theorem conflict_hint_accepted:
  assumes "reachable_log fp s" and "append_entries_prev_conflict pi pt s = Some rep" and "pi = 0 \<longleftrightarrow> pt = 0"
    and "\<forall>i t. term_at_index s i = Some t \<longrightarrow> t \<le> T"
    and "\<forall>snap. ls_latest_snapshot s = Some snap \<longrightarrow> sm_last_included_index snap = pi \<longrightarrow> sm_last_included_term snap = pt"
    and "unat nxt = Suc (unat pi)"
  shows "invalid_append_conflict_hint_reason (ar_conflict_term rep) (ar_conflict_index rep) (ar_match_index rep) pi nxt T = None"
proof -
  have "consistent_log fp s" by unfold_locales (rule reachable_ok [OF assms(1)])
  from consistent_log.hint_accepted [OF this assms(2-6)] show ?thesis .
qed

theorem conflict_hint_accepted_witness: "invalid_append_conflict_hint_reason (Some 1) (Some 1) 2 3 4 2 = None"
proof -
  have "append_entries_prev_conflict 3 2 demo_log = Some
    \<lparr>ar_success = False, ar_match_index = 2, ar_conflict_index = Some 1, ar_conflict_term = Some 1,
     ar_appended_entries = 0, ar_rewritten_entries = 0, ar_truncated_entries = 0\<rparr>"
    unfolding log_sample_defs by code_simp
  moreover have "\<forall>i t. term_at_index demo_log i = Some t \<longrightarrow> t \<le> 2"
    by (auto simp: term_at_index_def snapshot_term_match_def demo_log_def split: if_splits)
  ultimately show ?thesis using conflict_hint_accepted [OF demo_reachable, of 3 2 _ 2 4] by (simp add: demo_log_fields)
qed

section \<open>Configurations\<close>

text \<open>
  C36: validation normalises.  A configuration that passes validation has at least three voters
  in each half, with well-formed and distinct ids and addresses, sorted by id, and consistent
  between the halves; validating it again changes nothing.
\<close>

theorem membership_validation_sound:
  assumes "validate_raft_membership_for_transport m am = Inr m'"
  shows "membership_valid am m' \<and> validate_raft_membership_for_transport m' am = Inr m'"
  using validated [OF assms] by simp

theorem membership_validation_sound_witness: "membership_valid False (MJoint three_peers next_peers)"
  using membership_validation_sound [OF demo_joint_validated(1)] by simp

text \<open>
  C37: client ids name their node.  In a validated configuration no two voters hand out the same
  client id, and the id 0, which marks a detached client, is never handed out.
\<close>

theorem client_ids_disjoint:
  assumes "validate_raft_membership_for_transport m am = Inr m'"
    and "p \<in> set (validation_peers m')" and "q \<in> set (validation_peers m')" and "rp_id p \<noteq> rp_id q"
  shows "raft_client_id_for_node (rp_id p) k \<noteq> raft_client_id_for_node (rp_id q) l \<and> raft_client_id_for_node (rp_id p) k \<noteq> 0"
proof -
  have "prefixes_ok (validation_peers m')" by (rule valid_prefixes [OF validated(1) [OF assms(1)]])
  then have "raft_client_id_prefix (rp_id p) \<noteq> raft_client_id_prefix (rp_id q)"
    using assms(2-4) by (auto simp: prefixes_ok_def)
  then show ?thesis by (simp add: client_id_eq_iff client_id_nonzero)
qed

theorem client_ids_disjoint_witness: "raft_client_id_for_node ''n1'' 7 \<noteq> raft_client_id_for_node ''n4'' 7"
  using client_ids_disjoint [OF demo_joint_validated(1), of "test_peer ''n1''" "test_peer ''n4''" 7 7]
  by (simp add: three_peers_def next_peers_def test_peer_def)

text \<open>
  C38: grants of different entries differ.  The lock ids that two log indexes dictate are
  different, and all tokens of the later entry, up to the largest composite, lie above those of
  the earlier one, as long as the tokens fit into \<open>u64\<close>.
\<close>

theorem grants_disjoint:
  assumes "i < j" and "unat j \<le> seed_limit" and "unat a \<le> MAX_COMPOSITE_KEYS" and "unat b \<le> MAX_COMPOSITE_KEYS"
    and "deterministic_grant_plan r i = Some p" and "deterministic_grant_plan q j = Some p'"
  shows "gp_lock_uuid p \<noteq> gp_lock_uuid p' \<and>
    (\<exists>x y. gp_fencing_seed p = Some x \<and> gp_fencing_seed p' = Some y \<and> saturating_add x a < saturating_add y b)"
proof -
  have "deterministic_lock_uuid i \<noteq> deterministic_lock_uuid j" using assms(1) lock_uuid_inj by auto
  with tokens_ascend [OF assms(1-4)] assms(5,6) show ?thesis
    by (auto simp: deterministic_grant_plan_def split: if_splits)
qed

theorem grants_disjoint_witness: "deterministic_lock_uuid 1 \<noteq> deterministic_lock_uuid 2"
proof -
  have p: "deterministic_grant_plan (ReqRegisterRead ''r'' ''k'') i =
    Some \<lparr>gp_lock_uuid = Some (deterministic_lock_uuid i), gp_fencing_seed = Some (deterministic_fencing_seed i)\<rparr>" for i
    by (simp add: deterministic_grant_plan_def)
  show ?thesis using grants_disjoint [OF _ _ _ _ p p, of 1 2 5 0]
    by (simp add: seed_limit_def MAX_COMPOSITE_KEYS_def)
qed

text \<open>
  C39: enough targets.  If the acknowledged nodes and all reachable peers together form a quorum,
  so do the acknowledged nodes and the peers that the bounded fan-out selects.
\<close>

theorem selected_targets_meet_quorum:
  assumes "quorum_met m (acks |\<union>| remote_ids remote)"
  shows "quorum_met m (acks |\<union>| fset_of_list (map rp_id (select_target_replication_peers m t acks remote r extra))) \<and>
    set (select_target_replication_peers m t acks remote r extra) \<subseteq> fst ` set remote"
  using selection_meets_quorum [OF assms] selection_subset by blast

theorem selected_targets_meet_quorum_witness:
  "quorum_met (MSimple three_peers) ({|''n1''|} |\<union>| fset_of_list (map rp_id (select_target_replication_peers
     (MSimple three_peers) (Some 1) {|''n1''|} [(test_peer ''n2'', 3), (test_peer ''n3'', 5)] 0 0)))"
proof -
  have "quorum_met (MSimple three_peers) ({|''n1''|} |\<union>| remote_ids [(test_peer ''n2'', 3), (test_peer ''n3'', 5)])"
    unfolding peers_defs remote_ids_def by code_simp
  from selected_targets_meet_quorum [OF this] show ?thesis by blast
qed

text \<open>
  C16: the quorum size is exact.  In a configuration with distinct voter ids and no empty list of
  peers, no quorum has fewer voters than \<open>quorum_size\<close> says, and some quorum has exactly that many,
  also for overlapping joint configurations.
\<close>

theorem quorum_size_exact:
  assumes "voters_ok m" and "nonempty m"
  shows "(\<forall>A. quorum_met m A \<longrightarrow> quorum_size m \<le> card (voter_ids m \<inter> fset A)) \<and>
    (\<exists>A. quorum_met m A \<and> fset A \<subseteq> voter_ids m \<and> fcard A = quorum_size m)"
  using quorum_size_lower [OF assms(1)] quorum_size_attained [OF assms] by blast

theorem quorum_size_exact_witness:
  "\<exists>A. quorum_met (MJoint three_peers next_peers) A \<and> fset A \<subseteq> voter_ids (MJoint three_peers next_peers) \<and> fcard A = 2"
proof -
  have "quorum_size (MJoint three_peers next_peers) = 2" unfolding peers_defs by code_simp
  then show ?thesis using quorum_size_exact [of "MJoint three_peers next_peers"] by (simp add: peers_defs)
qed

text \<open>
  The fallback set of acknowledgements is a quorum, of the least size in a simple
  configuration.
\<close>

theorem ack_set_is_quorum:
  assumes "voters_ok m" and "nonempty m"
  shows "\<exists>A. minimal_quorum_ack_set m i = Some A \<and> quorum_met m A \<and> fset A \<subseteq> voter_ids m \<and>
    (\<not> is_joint m \<longrightarrow> fcard A = quorum_size m)"
proof -
  obtain A where A: "minimal_quorum_ack_set m i = Some A" "quorum_met m A" "fset A \<subseteq> voter_ids m"
    using minimal_set_found [OF assms] by blast
  moreover have "fcard A = quorum_size m" if "\<not> is_joint m"
    using that assms(1) A(1) minimal_set_simple_size by (cases m) auto
  ultimately show ?thesis by blast
qed

theorem ack_set_is_quorum_witness:
  "\<exists>A. minimal_quorum_ack_set (MSimple three_peers) ''n2'' = Some A \<and> fcard A = quorum_size (MSimple three_peers)"
  using ack_set_is_quorum [of "MSimple three_peers" "''n2''"] by (auto simp: peers_defs)

text \<open>
  In a joint configuration the set need not be the smallest: here the leader and two more nodes
  are taken although two nodes are a quorum.
\<close>

lemma joint_ack_set_not_minimal:
  "map_option fcard (minimal_quorum_ack_set (MJoint three_peers next_peers) ''n1'') = Some 3"
  "quorum_size (MJoint three_peers next_peers) = 2" "quorum_met (MJoint three_peers next_peers) {|''n2'', ''n3''|}"
  unfolding peers_defs by code_simp+

section \<open>Compaction by age\<close>

text \<open>
  C40: the age cache is exact.  In every reachable state the incremental search for the last
  entry that is too old to keep gives the answer of the search from the start of the log.
\<close>

theorem age_cache_exact:
  assumes "reachable_log fp s"
  shows "snd (compact_through_for_retained_age_cached_incremental (ls_entries s) (ls_age_cache s) now age through) =
    age_reference (ls_entries s) now age through"
proof -
  have "chain (ls_entries s)" using reachable_ok [OF assms] by (simp add: log_ok_def)
  from age_incremental(1) [OF this reachable_cache [OF assms]] show ?thesis .
qed

theorem age_cache_exact_witness:
  "snd (compact_through_for_retained_age_cached_incremental (ls_entries demo_log) (ls_age_cache demo_log) 5000 1000 2) = Some 2"
proof -
  have "age_reference (ls_entries demo_log) 5000 1000 2 = Some 2"
    unfolding demo_log_fields noop_at_def by code_simp
  then show ?thesis using age_cache_exact [OF demo_reachable] by simp
qed

end
