(* ===== verification/Raft_Client_Cache.thy ===== *)
theory Raft_Client_Cache
  imports Raft_Commands
begin

text \<open>
  The cache of client responses of \<open>src/broker_raft.rs\<close>, which makes a request that is retried
  under the same id take effect once.  An id is reserved before it is proposed, marked as applied
  when its log entry is applied, and completed by the broker's response; only completed ids are
  evicted when the cache is over its limit.
\<close>

section \<open>The operations\<close>

record cached_response =
  cc_request_fingerprint :: string
  cc_applied :: bool
  cc_response :: "response option"

record client_response_cache =
  cr_entries :: "(string, cached_response) fmap"
  cr_order :: "string list"

datatype cached_client_response_lookup = Missing | Pending | AppliedWithoutResponse | Completed response

datatype cache_error =
    IdempotencyKeyConflict string
  | EmptyIdentity
  | ForeignResponse string string
  | DuplicateIdentity string

definition evictable :: "client_response_cache \<Rightarrow> string \<Rightarrow> bool" where
  "evictable c i = (case fmlookup (cr_entries c) i of
     None \<Rightarrow> True | Some e \<Rightarrow> cc_applied e \<and> cc_response e \<noteq> None)"

function trim_client_response_cache :: "nat \<Rightarrow> client_response_cache \<Rightarrow> client_response_cache" where
  "trim_client_response_cache limit c =
     (if hm_len (cr_entries c) \<le> limit then c
      else case List.find (evictable c) (cr_order c) of
        None \<Rightarrow> c
      | Some oldest \<Rightarrow>
          trim_client_response_cache limit
            (c\<lparr>cr_order := remove1 oldest (cr_order c), cr_entries := fmdrop oldest (cr_entries c)\<rparr>))"
  by pat_completeness auto
termination
proof (relation "measure (\<lambda>(limit, c). length (cr_order c))")
  fix limit c oldest
  assume "List.find (evictable c) (cr_order c) = Some oldest"
  then have "oldest \<in> set (cr_order c)" by (auto simp: find_Some_iff)
  then have "oldest \<in> set (cr_order c)" "0 < length (cr_order c)" by (cases "cr_order c", auto)
  then show "((limit, c\<lparr>cr_order := remove1 oldest (cr_order c), cr_entries := fmdrop oldest (cr_entries c)\<rparr>), limit, c)
      \<in> measure (\<lambda>(limit, c). length (cr_order c))"
    by (simp add: length_remove1)
qed simp

declare trim_client_response_cache.simps [simp del]

definition cached_client_response ::
  "string \<Rightarrow> string \<Rightarrow> client_response_cache \<Rightarrow> cache_error + cached_client_response_lookup" where
  "cached_client_response request_id fingerprint c =
     (case fmlookup (cr_entries c) request_id of
        None \<Rightarrow> Inr Missing
      | Some e \<Rightarrow>
          if cc_request_fingerprint e \<noteq> fingerprint then Inl (IdempotencyKeyConflict request_id)
          else Inr (case cc_response e of
            Some r \<Rightarrow> Completed r
          | None \<Rightarrow> if cc_applied e then AppliedWithoutResponse else Pending))"

definition push_entry :: "nat \<Rightarrow> string \<Rightarrow> cached_response \<Rightarrow> client_response_cache \<Rightarrow> client_response_cache" where
  "push_entry max_entries request_id e c =
     trim_client_response_cache (max max_entries 1)
       (c\<lparr>cr_order := cr_order c @ [request_id], cr_entries := fmupd request_id e (cr_entries c)\<rparr>)"

definition begin_client_request_apply ::
  "nat \<Rightarrow> string \<Rightarrow> string \<Rightarrow> client_response_cache \<Rightarrow> client_response_cache \<times> (cache_error + bool)" where
  "begin_client_request_apply max_entries request_id fingerprint c =
     (case fmlookup (cr_entries c) request_id of
        Some e \<Rightarrow>
          if cc_request_fingerprint e \<noteq> fingerprint then (c, Inl (IdempotencyKeyConflict request_id))
          else if cc_applied e then (c, Inr False)
          else (c\<lparr>cr_entries := fmupd request_id (e\<lparr>cc_applied := True\<rparr>) (cr_entries c)\<rparr>, Inr True)
      | None \<Rightarrow>
          (push_entry max_entries request_id
             \<lparr>cc_request_fingerprint = fingerprint, cc_applied = True, cc_response = None\<rparr> c, Inr True))"

definition reserve_client_request_id ::
  "nat \<Rightarrow> string \<Rightarrow> string \<Rightarrow> client_response_cache \<Rightarrow> client_response_cache \<times> (cache_error + bool)" where
  "reserve_client_request_id max_entries request_id fingerprint c =
     (case fmlookup (cr_entries c) request_id of
        Some e \<Rightarrow>
          if cc_request_fingerprint e \<noteq> fingerprint then (c, Inl (IdempotencyKeyConflict request_id))
          else (c, Inr False)
      | None \<Rightarrow>
          (push_entry max_entries request_id
             \<lparr>cc_request_fingerprint = fingerprint, cc_applied = False, cc_response = None\<rparr> c, Inr True))"

definition release_unapplied_client_request_id ::
  "string \<Rightarrow> string \<Rightarrow> client_response_cache \<Rightarrow> client_response_cache" where
  "release_unapplied_client_request_id request_id fingerprint c =
     (case fmlookup (cr_entries c) request_id of
        None \<Rightarrow> c
      | Some e \<Rightarrow>
          if \<not> cc_applied e \<and> cc_request_fingerprint e = fingerprint
          then c\<lparr>cr_entries := fmdrop request_id (cr_entries c), cr_order := filter (\<lambda>i. i \<noteq> request_id) (cr_order c)\<rparr>
          else c)"

definition release_unapplied_client_request_identities ::
  "(string \<times> string) list \<Rightarrow> client_response_cache \<Rightarrow> client_response_cache" where
  "release_unapplied_client_request_identities ids c =
     fold (\<lambda>(i, f) c. release_unapplied_client_request_id i f c) ids c"

definition remember_client_response ::
  "nat \<Rightarrow> string \<Rightarrow> string \<Rightarrow> response \<Rightarrow> client_response_cache \<Rightarrow> client_response_cache" where
  "remember_client_response max_entries request_id fingerprint r c =
     (let c = (if request_id |\<in>| fmdom (cr_entries c)
               then c\<lparr>cr_order := filter (\<lambda>i. i \<noteq> request_id) (cr_order c)\<rparr> else c)
      in push_entry max_entries request_id
           \<lparr>cc_request_fingerprint = fingerprint, cc_applied = True, cc_response = Some r\<rparr> c)"

text \<open>What the broker's response observer does with every response it sends.\<close>

definition observe_client_response_cache :: "response \<Rightarrow> client_response_cache \<Rightarrow> client_response_cache" where
  "observe_client_response_cache r c =
     (let request_id = correlation_uuid r in
      case fmlookup (cr_entries c) request_id of
        None \<Rightarrow> c
      | Some e \<Rightarrow>
          c\<lparr>cr_entries := fmupd request_id (e\<lparr>cc_applied := True, cc_response := Some r\<rparr>) (cr_entries c),
            cr_order := filter (\<lambda>i. i \<noteq> request_id) (cr_order c) @ [request_id]\<rparr>)"

record client_response_snapshot_entry =
  ce_request_id :: string
  ce_request_fingerprint :: string
  ce_response :: "response option"

definition client_response_snapshot_entries :: "client_response_cache \<Rightarrow> client_response_snapshot_entry list" where
  "client_response_snapshot_entries c =
     List.map_filter (\<lambda>i. case fmlookup (cr_entries c) i of
         None \<Rightarrow> None
       | Some e \<Rightarrow>
           if cc_applied e
           then Some \<lparr>ce_request_id = i, ce_request_fingerprint = cc_request_fingerprint e, ce_response = cc_response e\<rparr>
           else None)
       (cr_order c)"

fun validate_responses_loop ::
  "client_response_snapshot_entry list \<Rightarrow> (string, string) fmap \<Rightarrow> cache_error + (string, string) fmap" where
  "validate_responses_loop [] fps = Inr fps"
| "validate_responses_loop (e # es) fps =
     (if ce_request_id e = [] \<or> ce_request_fingerprint e = [] then Inl EmptyIdentity
      else case ce_response e of
        Some r \<Rightarrow>
          if correlation_uuid r \<noteq> ce_request_id e then Inl (ForeignResponse (ce_request_id e) (correlation_uuid r))
          else if ce_request_id e |\<in>| fmdom fps then Inl (DuplicateIdentity (ce_request_id e))
          else validate_responses_loop es (fmupd (ce_request_id e) (ce_request_fingerprint e) fps)
      | None \<Rightarrow>
          if ce_request_id e |\<in>| fmdom fps then Inl (DuplicateIdentity (ce_request_id e))
          else validate_responses_loop es (fmupd (ce_request_id e) (ce_request_fingerprint e) fps))"

definition validate_snapshot_client_response_entries ::
  "client_response_snapshot_entry list \<Rightarrow> cache_error + (string, string) fmap" where
  "validate_snapshot_client_response_entries es = validate_responses_loop es fmempty"

definition restore_entry :: "nat \<Rightarrow> client_response_snapshot_entry \<Rightarrow> client_response_cache \<Rightarrow> client_response_cache" where
  "restore_entry max_entries e c =
     push_entry max_entries (ce_request_id e)
       \<lparr>cc_request_fingerprint = ce_request_fingerprint e, cc_applied = True, cc_response = ce_response e\<rparr> c"

definition restore_client_response_cache ::
  "nat \<Rightarrow> client_response_snapshot_entry list \<Rightarrow> client_response_cache \<Rightarrow> client_response_cache \<times> (cache_error + unit)" where
  "restore_client_response_cache max_entries es c =
     (case validate_snapshot_client_response_entries es of
        Inl err \<Rightarrow> (c, Inl err)
      | Inr _ \<Rightarrow> (fold (restore_entry max_entries) es \<lparr>cr_entries = fmempty, cr_order = []\<rparr>, Inr ()))"

section \<open>Well-formed caches\<close>

definition cache_wf :: "client_response_cache \<Rightarrow> bool" where
  "cache_wf c \<longleftrightarrow> distinct (cr_order c) \<and> set (cr_order c) = fset (fmdom (cr_entries c))"


text \<open>Eviction removes completed entries only, and stops at the limit or when none is left.\<close>

definition completed_entry :: "cached_response \<Rightarrow> bool" where
  "completed_entry e \<longleftrightarrow> cc_applied e \<and> cc_response e \<noteq> None"

lemma find_in_set: "List.find P xs = Some x \<Longrightarrow> x \<in> set xs \<and> P x"
  by (induction xs) (auto split: if_splits)

lemma trim_facts:
  assumes "cache_wf c"
  shows "cache_wf (trim_client_response_cache l c)"
    and "fmlookup (cr_entries (trim_client_response_cache l c)) i = Some e \<Longrightarrow> fmlookup (cr_entries c) i = Some e"
    and "fmlookup (cr_entries c) i = Some e \<Longrightarrow> \<not> completed_entry e \<Longrightarrow>
      fmlookup (cr_entries (trim_client_response_cache l c)) i = Some e"
    and "hm_len (cr_entries (trim_client_response_cache l c)) \<le> l \<or>
      (\<forall>i e. fmlookup (cr_entries (trim_client_response_cache l c)) i = Some e \<longrightarrow> \<not> completed_entry e)"
proof -
  have "cache_wf (trim_client_response_cache l c) \<and>
    (\<forall>i e. fmlookup (cr_entries (trim_client_response_cache l c)) i = Some e \<longrightarrow> fmlookup (cr_entries c) i = Some e) \<and>
    (\<forall>i e. fmlookup (cr_entries c) i = Some e \<longrightarrow> \<not> completed_entry e \<longrightarrow>
      fmlookup (cr_entries (trim_client_response_cache l c)) i = Some e) \<and>
    (hm_len (cr_entries (trim_client_response_cache l c)) \<le> l \<or>
      (\<forall>i e. fmlookup (cr_entries (trim_client_response_cache l c)) i = Some e \<longrightarrow> \<not> completed_entry e))"
    using assms
  proof (induction l c rule: trim_client_response_cache.induct)
    case (1 l c)
    show ?case
    proof (cases "hm_len (cr_entries c) \<le> l")
      case True
      then show ?thesis using 1 by (simp add: trim_client_response_cache.simps)
    next
      case False
      show ?thesis
      proof (cases "List.find (evictable c) (cr_order c)")
        case None
        have "\<not> completed_entry e" if "fmlookup (cr_entries c) i = Some e" for i e
        proof -
          have "i \<in> set (cr_order c)" using that 1(2) by (auto simp: cache_wf_def fmdomI)
          then show ?thesis using None that by (auto simp: find_None_iff evictable_def completed_entry_def)
        qed
        then show ?thesis using None False 1(2) by (simp add: trim_client_response_cache.simps)
      next
        case (Some x)
        let ?d = "c\<lparr>cr_order := remove1 x (cr_order c), cr_entries := fmdrop x (cr_entries c)\<rparr>"
        have x: "x \<in> set (cr_order c)" "evictable c x" using find_in_set [OF Some] by simp_all
        then obtain ex where ex: "fmlookup (cr_entries c) x = Some ex" "completed_entry ex"
          using 1(2) by (auto simp: cache_wf_def evictable_def completed_entry_def fmlookup_dom_iff split: option.splits)
        have wf: "cache_wf ?d" using 1(2) by (auto simp: cache_wf_def)
        have t: "trim_client_response_cache l c = trim_client_response_cache l ?d"
          using Some False by (subst trim_client_response_cache.simps) simp
        note ih = 1(1) [OF False Some wf]
        have low: "fmlookup (cr_entries c) i = Some e" if "fmlookup (cr_entries ?d) i = Some e" for i e
          using that by (simp split: if_splits)
        have up: "fmlookup (cr_entries ?d) i = Some e" if "fmlookup (cr_entries c) i = Some e" "\<not> completed_entry e" for i e
          using that ex by auto
        show ?thesis unfolding t
        proof (intro conjI allI impI)
          show "cache_wf (trim_client_response_cache l ?d)" using ih by blast
          show "fmlookup (cr_entries c) i = Some e"
            if "fmlookup (cr_entries (trim_client_response_cache l ?d)) i = Some e" for i e
            using ih that low by blast
          show "fmlookup (cr_entries (trim_client_response_cache l ?d)) i = Some e"
            if "fmlookup (cr_entries c) i = Some e" "\<not> completed_entry e" for i e
            using ih up [OF that] that(2) by blast
          show "hm_len (cr_entries (trim_client_response_cache l ?d)) \<le> l \<or>
            (\<forall>i e. fmlookup (cr_entries (trim_client_response_cache l ?d)) i = Some e \<longrightarrow> \<not> completed_entry e)"
            using ih by blast
        qed
      qed
    qed
  qed
  then show "cache_wf (trim_client_response_cache l c)"
    and "fmlookup (cr_entries (trim_client_response_cache l c)) i = Some e \<Longrightarrow> fmlookup (cr_entries c) i = Some e"
    and "fmlookup (cr_entries c) i = Some e \<Longrightarrow> \<not> completed_entry e \<Longrightarrow>
      fmlookup (cr_entries (trim_client_response_cache l c)) i = Some e"
    and "hm_len (cr_entries (trim_client_response_cache l c)) \<le> l \<or>
      (\<forall>i e. fmlookup (cr_entries (trim_client_response_cache l c)) i = Some e \<longrightarrow> \<not> completed_entry e)"
    by blast+
qed

lemma push_facts:
  assumes "distinct (cr_order c)" and "set (cr_order c) = fset (fmdom (cr_entries c)) - {i}"
  shows "cache_wf (push_entry m i e c)"
    and "\<not> completed_entry e \<Longrightarrow> fmlookup (cr_entries (push_entry m i e c)) i = Some e"
    and "fmlookup (cr_entries c) j = Some x \<Longrightarrow> j \<noteq> i \<Longrightarrow> \<not> completed_entry x \<Longrightarrow>
      fmlookup (cr_entries (push_entry m i e c)) j = Some x"
    and "fmlookup (cr_entries (push_entry m i e c)) j = Some x \<Longrightarrow> (j = i \<and> x = e) \<or> fmlookup (cr_entries c) j = Some x"
proof -
  let ?c = "c\<lparr>cr_order := cr_order c @ [i], cr_entries := fmupd i e (cr_entries c)\<rparr>"
  have wf: "cache_wf ?c" using assms by (auto simp: cache_wf_def)
  note t = trim_facts [OF wf, where l = "max m 1"]
  show "cache_wf (push_entry m i e c)" unfolding push_entry_def by (rule t(1))
  show "fmlookup (cr_entries (push_entry m i e c)) i = Some e" if "\<not> completed_entry e"
    unfolding push_entry_def by (rule t(3)) (use that in simp_all)
  show "fmlookup (cr_entries (push_entry m i e c)) j = Some x"
    if "fmlookup (cr_entries c) j = Some x" "j \<noteq> i" "\<not> completed_entry x"
    unfolding push_entry_def by (rule t(3)) (use that in simp_all)
  show "(j = i \<and> x = e) \<or> fmlookup (cr_entries c) j = Some x"
    if "fmlookup (cr_entries (push_entry m i e c)) j = Some x"
    using t(2) [OF that [unfolded push_entry_def]] by (simp split: if_splits)
qed

lemma fresh_push: "cache_wf c \<Longrightarrow> fmlookup (cr_entries c) i = None \<Longrightarrow>
    distinct (cr_order c) \<and> set (cr_order c) = fset (fmdom (cr_entries c)) - {i}"
  by (auto simp: cache_wf_def fmdom_notI fmlookup_dom_iff)

section \<open>Runs of the cache\<close>

datatype cache_op =
    CReserve string string
  | CRelease "(string \<times> string) list"
  | CApply string string
  | CRemember string string response
  | CObserve response
  | CRestore "client_response_snapshot_entry list"

fun run_cache_op :: "nat \<Rightarrow> cache_op \<Rightarrow> client_response_cache \<Rightarrow> client_response_cache" where
  "run_cache_op m (CReserve i f) c = fst (reserve_client_request_id m i f c)"
| "run_cache_op m (CRelease ids) c = release_unapplied_client_request_identities ids c"
| "run_cache_op m (CApply i f) c = fst (begin_client_request_apply m i f c)"
| "run_cache_op m (CRemember i f r) c = remember_client_response m i f r c"
| "run_cache_op m (CObserve r) c = observe_client_response_cache r c"
| "run_cache_op m (CRestore es) c = fst (restore_client_response_cache m es c)"

definition run_cache :: "nat \<Rightarrow> cache_op list \<Rightarrow> client_response_cache \<Rightarrow> client_response_cache" where
  "run_cache m ops c = fold (run_cache_op m) ops c"

text \<open>
  Operations that record a response for an id, or restore a snapshot in which it is not listed
  as applied and still without a response.
\<close>

fun completes :: "string \<Rightarrow> string \<Rightarrow> cache_op \<Rightarrow> bool" where
  "completes i f (CRemember j _ _) \<longleftrightarrow> i = j"
| "completes i f (CObserve r) \<longleftrightarrow> correlation_uuid r = i"
| "completes i f (CRestore es) \<longleftrightarrow>
     (case validate_snapshot_client_response_entries es of
        Inl _ \<Rightarrow> False
      | Inr _ \<Rightarrow> \<lparr>ce_request_id = i, ce_request_fingerprint = f, ce_response = None\<rparr> \<notin> set es)"
| "completes i f _ \<longleftrightarrow> False"

definition empty_cache :: client_response_cache where
  "empty_cache = \<lparr>cr_entries = fmempty, cr_order = []\<rparr>"

lemma empty_cache_wf: "cache_wf empty_cache"
  by (simp add: cache_wf_def empty_cache_def)

lemma release_facts:
  assumes "cache_wf c"
  shows "cache_wf (release_unapplied_client_request_id i f c)"
    and "fmlookup (cr_entries c) j = Some e \<Longrightarrow> cc_applied e \<Longrightarrow>
      fmlookup (cr_entries (release_unapplied_client_request_id i f c)) j = Some e"
  using assms by (auto simp: release_unapplied_client_request_id_def cache_wf_def split: option.splits)

lemma releases_facts:
  assumes "cache_wf c"
  shows "cache_wf (release_unapplied_client_request_identities ids c)"
    and "fmlookup (cr_entries c) j = Some e \<Longrightarrow> cc_applied e \<Longrightarrow>
      fmlookup (cr_entries (release_unapplied_client_request_identities ids c)) j = Some e"
proof -
  have "cache_wf (release_unapplied_client_request_identities ids c) \<and>
    (fmlookup (cr_entries c) j = Some e \<longrightarrow> cc_applied e \<longrightarrow>
      fmlookup (cr_entries (release_unapplied_client_request_identities ids c)) j = Some e)"
    using assms
  proof (induction ids arbitrary: c)
    case (Cons x ids)
    obtain i f where x: "x = (i, f)" by (cases x)
    show ?case using Cons.IH [OF release_facts(1) [OF Cons.prems, of i f]] release_facts(2) [OF Cons.prems, of j e i f]
      by (auto simp: x release_unapplied_client_request_identities_def)
  qed (simp add: release_unapplied_client_request_identities_def)
  then show "cache_wf (release_unapplied_client_request_identities ids c)"
    and "fmlookup (cr_entries c) j = Some e \<Longrightarrow> cc_applied e \<Longrightarrow>
      fmlookup (cr_entries (release_unapplied_client_request_identities ids c)) j = Some e"
    by simp_all
qed

lemma remember_push:
  assumes "cache_wf c"
  obtains c' where "remember_client_response m i f r c = push_entry m i
      \<lparr>cc_request_fingerprint = f, cc_applied = True, cc_response = Some r\<rparr> c'"
    "distinct (cr_order c')" "set (cr_order c') = fset (fmdom (cr_entries c')) - {i}" "cr_entries c' = cr_entries c"
proof (cases "i |\<in>| fmdom (cr_entries c)")
  case True
  then show ?thesis using assms
    by (intro that [of "c\<lparr>cr_order := filter (\<lambda>j. j \<noteq> i) (cr_order c)\<rparr>"]) (auto simp: remember_client_response_def cache_wf_def)
next
  case False
  then show ?thesis using assms
    by (intro that [of c]) (auto simp: remember_client_response_def cache_wf_def)
qed

lemma restore_dom:
  assumes "distinct (cr_order c) \<and> set (cr_order c) = fset (fmdom (cr_entries c)) - {ce_request_id e}"
    and "fmdom (cr_entries c) |\<subseteq>| fmdom fps"
  shows "fmdom (cr_entries (restore_entry m e c)) |\<subseteq>| fmdom (fmupd (ce_request_id e) (ce_request_fingerprint e) fps)"
proof (rule fsubsetI)
  fix j
  assume "j |\<in>| fmdom (cr_entries (restore_entry m e c))"
  then obtain x where "fmlookup (cr_entries (restore_entry m e c)) j = Some x" by (auto simp: fmlookup_dom_iff)
  from push_facts(4) [OF conjunct1 [OF assms(1)] conjunct2 [OF assms(1)] this [unfolded restore_entry_def]]
  show "j |\<in>| fmdom (fmupd (ce_request_id e) (ce_request_fingerprint e) fps)"
    using assms(2) fmdomI [of "cr_entries c" j x] by (auto dest: fsubsetD)
qed

lemma restore_fold:
  assumes "validate_responses_loop es fps = Inr g" and "cache_wf c" and "fmdom (cr_entries c) |\<subseteq>| fmdom fps"
  shows "cache_wf (fold (restore_entry m) es c)"
  using assms
proof (induction es arbitrary: fps c)
  case (Cons e es)
  have n: "ce_request_id e |\<notin>| fmdom fps"
    and v: "validate_responses_loop es (fmupd (ce_request_id e) (ce_request_fingerprint e) fps) = Inr g"
    using Cons.prems(1) by (auto split: if_splits option.splits)
  have "fmlookup (cr_entries c) (ce_request_id e) = None" using n Cons.prems(3) by (auto simp: fmdom_notD)
  note f = fresh_push [OF Cons.prems(2) this]
  have "cache_wf (restore_entry m e c)" unfolding restore_entry_def by (rule push_facts(1)) (use f in auto)
  with Cons.IH [OF v _ restore_dom [OF f Cons.prems(3)]] show ?case by simp
qed simp

text \<open>What a restored snapshot puts into the cache; entries without a response are never evicted.\<close>

abbreviation restored :: "client_response_snapshot_entry \<Rightarrow> cached_response" where
  "restored e \<equiv> \<lparr>cc_request_fingerprint = ce_request_fingerprint e, cc_applied = True, cc_response = ce_response e\<rparr>"

lemma restore_fold_facts:
  assumes "validate_responses_loop es fps = Inr g" and "cache_wf c" and "fmdom (cr_entries c) |\<subseteq>| fmdom fps"
  shows "(\<forall>j x. fmlookup (cr_entries (fold (restore_entry m) es c)) j = Some x \<longrightarrow>
      fmlookup (cr_entries c) j = Some x \<or> (\<exists>e \<in> set es. ce_request_id e = j \<and> x = restored e)) \<and>
    (\<forall>j x. fmlookup (cr_entries c) j = Some x \<longrightarrow> \<not> completed_entry x \<longrightarrow>
      fmlookup (cr_entries (fold (restore_entry m) es c)) j = Some x) \<and>
    (\<forall>e \<in> set es. ce_response e = None \<longrightarrow>
      fmlookup (cr_entries (fold (restore_entry m) es c)) (ce_request_id e) = Some (restored e))"
  using assms
proof (induction es arbitrary: fps c)
  case (Cons e es)
  let ?fps = "fmupd (ce_request_id e) (ce_request_fingerprint e) fps" and ?c = "restore_entry m e c"
  have n: "ce_request_id e |\<notin>| fmdom fps" and v: "validate_responses_loop es ?fps = Inr g"
    using Cons.prems(1) by (auto split: if_splits option.splits)
  have none: "fmlookup (cr_entries c) (ce_request_id e) = None" using n Cons.prems(3) by (auto simp: fmdom_notD)
  note f = fresh_push [OF Cons.prems(2) this]
  note p = push_facts [OF conjunct1 [OF f] conjunct2 [OF f], where m = m and e = "restored e", folded restore_entry_def]
  note ih = Cons.IH [OF v p(1) restore_dom [OF f Cons.prems(3)]]
  have "fmlookup (cr_entries c) j = Some x \<or> (\<exists>e \<in> set (e # es). ce_request_id e = j \<and> x = restored e)"
    if "fmlookup (cr_entries (fold (restore_entry m) es ?c)) j = Some x" for j x
  proof -
    from ih that have "fmlookup (cr_entries ?c) j = Some x \<or> (\<exists>e \<in> set es. ce_request_id e = j \<and> x = restored e)"
      by blast
    with p(4) [of j x] show ?thesis by auto
  qed
  moreover have "fmlookup (cr_entries (fold (restore_entry m) es ?c)) j = Some x"
    if "fmlookup (cr_entries c) j = Some x" "\<not> completed_entry x" for j x
    using ih p(3) [OF that(1) _ that(2)] that none by fastforce
  moreover have "fmlookup (cr_entries (fold (restore_entry m) es ?c)) (ce_request_id e') = Some (restored e')"
    if "e' \<in> set (e # es)" "ce_response e' = None" for e'
  proof (cases "e' = e")
    case True
    then have "\<not> completed_entry (restored e)" using that(2) by (simp add: completed_entry_def)
    then show ?thesis using ih p(2) True by blast
  next
    case False
    then show ?thesis using that ih by auto
  qed
  ultimately show ?case unfolding fold_simps by blast
qed simp

lemma validated_entries:
  assumes "validate_responses_loop es fps = Inr g" and "e \<in> set es"
  shows "ce_request_id e \<noteq> [] \<and> ce_request_fingerprint e \<noteq> [] \<and>
    (\<forall>r. ce_response e = Some r \<longrightarrow> correlation_uuid r = ce_request_id e)"
  using assms by (induction es fps rule: validate_responses_loop.induct) (auto split: if_splits option.splits)

lemma restore_facts:
  assumes "restore_client_response_cache m es c = (c', Inr ())"
  shows "fmlookup (cr_entries c') j = Some x \<Longrightarrow> \<exists>e \<in> set es. ce_request_id e = j \<and> x = restored e"
    and "e \<in> set es \<Longrightarrow> ce_response e = None \<Longrightarrow> fmlookup (cr_entries c') (ce_request_id e) = Some (restored e)"
proof -
  let ?z = "\<lparr>cr_entries = fmempty, cr_order = []\<rparr>"
  obtain g where g: "validate_responses_loop es fmempty = Inr g" and c': "c' = fold (restore_entry m) es ?z"
    using assms by (auto simp: restore_client_response_cache_def validate_snapshot_client_response_entries_def split: sum.splits)
  have "cache_wf ?z" "fmdom (cr_entries ?z) |\<subseteq>| fmdom fmempty" by (simp_all add: cache_wf_def)
  note r = restore_fold_facts [OF g this, of m, folded c']
  show "\<exists>e \<in> set es. ce_request_id e = j \<and> x = restored e" if "fmlookup (cr_entries c') j = Some x"
    using r that by fastforce
  show "fmlookup (cr_entries c') (ce_request_id e) = Some (restored e)" if "e \<in> set es" "ce_response e = None"
    using r that by blast
qed

lemma run_cache_op_wf:
  assumes "cache_wf c"
  shows "cache_wf (run_cache_op m op c)"
proof (cases op)
  case (CReserve i f)
  then show ?thesis using assms push_facts(1) fresh_push [OF assms]
    by (auto simp: reserve_client_request_id_def split: option.splits)
next
  case (CApply i f)
  then show ?thesis using assms push_facts(1) fresh_push [OF assms]
    by (auto simp: begin_client_request_apply_def cache_wf_def fmdomI split: option.splits)
next
  case (CRemember i f r)
  obtain c' where c': "remember_client_response m i f r c = push_entry m i
      \<lparr>cc_request_fingerprint = f, cc_applied = True, cc_response = Some r\<rparr> c'"
    "distinct (cr_order c')" "set (cr_order c') = fset (fmdom (cr_entries c')) - {i}"
    by (rule remember_push [OF assms])
  then show ?thesis using CRemember push_facts(1) by simp
next
  case (CObserve r)
  then show ?thesis using assms by (auto simp: observe_client_response_cache_def cache_wf_def Let_def fmdomI split: option.splits)
next
  case (CRestore es)
  then show ?thesis using assms restore_fold [of es fmempty _ "\<lparr>cr_entries = fmempty, cr_order = []\<rparr>" m]
    by (auto simp: restore_client_response_cache_def validate_snapshot_client_response_entries_def cache_wf_def split: sum.splits)
qed (simp add: releases_facts(1) [OF assms])

lemma run_cache_wf: "cache_wf c \<Longrightarrow> cache_wf (run_cache m ops c)"
  unfolding run_cache_def by (induction ops arbitrary: c) (simp_all add: run_cache_op_wf)

text \<open>Only applied entries have a response.\<close>

definition responses_applied :: "client_response_cache \<Rightarrow> bool" where
  "responses_applied c \<longleftrightarrow> (\<forall>i e. fmlookup (cr_entries c) i = Some e \<longrightarrow> cc_response e \<noteq> None \<longrightarrow> cc_applied e)"

lemma responses_applied_push:
  assumes "distinct (cr_order c)" and "set (cr_order c) = fset (fmdom (cr_entries c)) - {i}"
    and "responses_applied c" and "cc_response e \<noteq> None \<longrightarrow> cc_applied e"
  shows "responses_applied (push_entry m i e c)"
  using push_facts(4) [OF assms(1,2)] assms(3,4) unfolding responses_applied_def by blast

lemma responses_applied_restore:
  assumes "validate_responses_loop es fps = Inr g" and "cache_wf c" and "fmdom (cr_entries c) |\<subseteq>| fmdom fps"
    and "responses_applied c"
  shows "responses_applied (fold (restore_entry m) es c)"
  using assms
proof (induction es arbitrary: fps c)
  case (Cons e es)
  let ?fps = "fmupd (ce_request_id e) (ce_request_fingerprint e) fps"
  have n: "ce_request_id e |\<notin>| fmdom fps" and v: "validate_responses_loop es ?fps = Inr g"
    using Cons.prems(1) by (auto split: if_splits option.splits)
  have "fmlookup (cr_entries c) (ce_request_id e) = None" using n Cons.prems(3) by (auto simp: fmdom_notD)
  note f = fresh_push [OF Cons.prems(2) this]
  note p = push_facts [OF conjunct1 [OF f] conjunct2 [OF f], where m = m]
  have "responses_applied (restore_entry m e c)" unfolding restore_entry_def
    using f Cons.prems(4) by (intro responses_applied_push) auto
  moreover have "cache_wf (restore_entry m e c)" unfolding restore_entry_def by (rule p(1))
  ultimately show ?case using Cons.IH [OF v] restore_dom [OF f Cons.prems(3)] by simp
qed simp

lemma run_cache_op_responses:
  assumes "cache_wf c" and "responses_applied c"
  shows "responses_applied (run_cache_op m op c)"
proof (cases op)
  case (CReserve i f)
  then show ?thesis using assms fresh_push [OF assms(1)]
    by (auto simp: reserve_client_request_id_def intro!: responses_applied_push split: option.splits)
next
  case (CApply i f)
  show ?thesis
  proof (cases "fmlookup (cr_entries c) i")
    case None
    have "responses_applied (push_entry m i \<lparr>cc_request_fingerprint = f, cc_applied = True, cc_response = None\<rparr> c)"
      using assms(2) fresh_push [OF assms(1) None] by (intro responses_applied_push) simp_all
    then show ?thesis using CApply None by (simp add: begin_client_request_apply_def)
  next
    case (Some e)
    then show ?thesis using CApply assms(2) by (simp add: begin_client_request_apply_def responses_applied_def)
  qed
next
  case (CRemember i f r)
  obtain c' where c': "remember_client_response m i f r c = push_entry m i
      \<lparr>cc_request_fingerprint = f, cc_applied = True, cc_response = Some r\<rparr> c'"
    "distinct (cr_order c')" "set (cr_order c') = fset (fmdom (cr_entries c')) - {i}" "cr_entries c' = cr_entries c"
    by (rule remember_push [OF assms(1)])
  have "responses_applied c'" using assms(2) unfolding responses_applied_def c'(4) .
  from responses_applied_push [OF c'(2,3) this] show ?thesis unfolding CRemember run_cache_op.simps c'(1) by simp
next
  case (CObserve r)
  then show ?thesis using assms(2) by (auto simp: observe_client_response_cache_def responses_applied_def Let_def split: option.splits)
next
  case (CRestore es)
  have "responses_applied \<lparr>cr_entries = fmempty, cr_order = []\<rparr>" by (simp add: responses_applied_def)
  then show ?thesis using CRestore assms responses_applied_restore [of es fmempty _ "\<lparr>cr_entries = fmempty, cr_order = []\<rparr>" m]
    by (auto simp: restore_client_response_cache_def validate_snapshot_client_response_entries_def cache_wf_def split: sum.splits)
next
  case (CRelease ids)
  have "responses_applied (release_unapplied_client_request_identities ids c)"
    using assms(2)
  proof (induction ids arbitrary: c)
    case (Cons x ids)
    have "responses_applied (release_unapplied_client_request_id (fst x) (snd x) c)"
      using Cons.prems by (auto simp: release_unapplied_client_request_id_def responses_applied_def split: option.splits)
    from Cons.IH [OF this] show ?case by (simp add: release_unapplied_client_request_identities_def case_prod_beta)
  qed (simp add: release_unapplied_client_request_identities_def)
  then show ?thesis using CRelease by simp
qed

lemma run_cache_responses: "cache_wf c \<Longrightarrow> responses_applied c \<Longrightarrow> responses_applied (run_cache m ops c)"
  unfolding run_cache_def by (induction ops arbitrary: c) (simp_all add: run_cache_op_wf run_cache_op_responses)

text \<open>An id that is applied but has no response yet stays in the cache whatever else happens.\<close>

lemma run_cache_op_pending:
  assumes "cache_wf c" and "fmlookup (cr_entries c) i = Some e" and "cc_applied e" and "cc_response e = None"
    and "\<not> completes i (cc_request_fingerprint e) op"
  shows "fmlookup (cr_entries (run_cache_op m op c)) i = Some e"
proof -
  have nc: "\<not> completed_entry e" using assms(4) by (simp add: completed_entry_def)
  have push: "fmlookup (cr_entries (push_entry m j x c')) i = Some e"
    if "distinct (cr_order c')" "set (cr_order c') = fset (fmdom (cr_entries c')) - {j}" "cr_entries c' = cr_entries c" "j \<noteq> i" for j x c'
    using push_facts(3) [OF that(1,2), of i e m x] that(3,4) assms(2) nc by simp
  have fresh: "fmlookup (cr_entries (push_entry m j x c)) i = Some e" if "fmlookup (cr_entries c) j = None" for j x
  proof (rule push)
    show "distinct (cr_order c)" "set (cr_order c) = fset (fmdom (cr_entries c)) - {j}"
      using fresh_push [OF assms(1) that] by blast+
    show "j \<noteq> i" using assms(2) that by auto
  qed simp
  show ?thesis
  proof (cases op)
    case (CReserve j f)
    then show ?thesis using assms(2) by (auto simp: reserve_client_request_id_def fresh split: option.splits)
  next
    case (CApply j f)
    then show ?thesis using assms(2,3) by (auto simp: begin_client_request_apply_def fresh split: option.splits)
  next
    case (CRemember j f r)
    obtain c' where c': "remember_client_response m j f r c = push_entry m j
        \<lparr>cc_request_fingerprint = f, cc_applied = True, cc_response = Some r\<rparr> c'"
      "distinct (cr_order c')" "set (cr_order c') = fset (fmdom (cr_entries c')) - {j}" "cr_entries c' = cr_entries c"
      by (rule remember_push [OF assms(1)])
    then show ?thesis using CRemember assms(5) push by simp
  next
    case (CObserve r)
    then show ?thesis using assms by (auto simp: observe_client_response_cache_def Let_def split: option.splits)
  next
    case (CRelease ids)
    then show ?thesis using releases_facts(2) [OF assms(1-3)] by simp
  next
    case (CRestore es)
    show ?thesis
    proof (cases "validate_snapshot_client_response_entries es")
      case (Inl err)
      then show ?thesis using CRestore assms(2) by (simp add: restore_client_response_cache_def)
    next
      case (Inr g)
      let ?x = "\<lparr>ce_request_id = i, ce_request_fingerprint = cc_request_fingerprint e, ce_response = None\<rparr>"
      have "?x \<in> set es" using assms(5) CRestore Inr by simp
      moreover have "restore_client_response_cache m es c = (run_cache_op m op c, Inr ())"
        using CRestore Inr by (simp add: restore_client_response_cache_def)
      moreover have "restored ?x = e" using assms(3,4) by (cases e) simp
      ultimately show ?thesis using restore_facts(2) [of m es c _ ?x] by simp
    qed
  qed
qed

lemma run_cache_pending:
  assumes "cache_wf c" and "fmlookup (cr_entries c) i = Some e" and "cc_applied e" and "cc_response e = None"
    and "\<forall>op \<in> set ops. \<not> completes i (cc_request_fingerprint e) op"
  shows "fmlookup (cr_entries (run_cache m ops c)) i = Some e"
  using assms
proof (induction ops arbitrary: c)
  case (Cons op ops)
  have "fmlookup (cr_entries (run_cache_op m op c)) i = Some e"
    using run_cache_op_pending [OF Cons.prems(1-4)] Cons.prems(5) by simp
  from Cons.IH [OF run_cache_op_wf [OF Cons.prems(1)] this Cons.prems(3,4)] Cons.prems(5)
  show ?case by (simp add: run_cache_def)
qed (simp add: run_cache_def)

lemma apply_marks:
  assumes "cache_wf c" and "begin_client_request_apply m i f c = (c', Inr True)"
    and "\<forall>e. fmlookup (cr_entries c) i = Some e \<longrightarrow> cc_response e = None"
  shows "\<exists>e. fmlookup (cr_entries c') i = Some e \<and> cc_request_fingerprint e = f \<and> cc_applied e \<and> cc_response e = None"
proof (cases "fmlookup (cr_entries c) i")
  case None
  let ?e = "\<lparr>cc_request_fingerprint = f, cc_applied = True, cc_response = None\<rparr>"
  have "c' = push_entry m i ?e c" using assms(2) None by (simp add: begin_client_request_apply_def)
  moreover have "\<not> completed_entry ?e" by (simp add: completed_entry_def)
  ultimately show ?thesis using push_facts(2) fresh_push [OF assms(1) None] by fastforce
next
  case (Some e)
  then show ?thesis using assms by (auto simp: begin_client_request_apply_def split: if_splits)
qed

section \<open>Snapshots of the cache\<close>

text \<open>Ids and fingerprints are not empty and a response answers the request it is kept for.\<close>

definition cache_valid :: "client_response_cache \<Rightarrow> bool" where
  "cache_valid c \<longleftrightarrow> (\<forall>i e. fmlookup (cr_entries c) i = Some e \<longrightarrow>
     i \<noteq> [] \<and> cc_request_fingerprint e \<noteq> [] \<and> (\<forall>r. cc_response e = Some r \<longrightarrow> correlation_uuid r = i))"

text \<open>What the callers guarantee: they name requests, and remember a response under its own id.\<close>

fun op_named :: "cache_op \<Rightarrow> bool" where
  "op_named (CReserve i f) \<longleftrightarrow> i \<noteq> [] \<and> f \<noteq> []"
| "op_named (CApply i f) \<longleftrightarrow> i \<noteq> [] \<and> f \<noteq> []"
| "op_named (CRemember i f r) \<longleftrightarrow> i \<noteq> [] \<and> f \<noteq> [] \<and> correlation_uuid r = i"
| "op_named _ \<longleftrightarrow> True"

lemma push_valid:
  assumes "distinct (cr_order c)" and "set (cr_order c) = fset (fmdom (cr_entries c)) - {i}" and "cache_valid c"
    and "i \<noteq> []" and "cc_request_fingerprint e \<noteq> []" and "\<forall>r. cc_response e = Some r \<longrightarrow> correlation_uuid r = i"
  shows "cache_valid (push_entry m i e c)"
  using push_facts(4) [OF assms(1,2)] assms(3-6) unfolding cache_valid_def by blast

lemma release_valid: "cache_valid c \<Longrightarrow> cache_valid (release_unapplied_client_request_id i f c)"
  by (auto simp: release_unapplied_client_request_id_def cache_valid_def split: option.splits)

lemma run_cache_op_valid:
  assumes "cache_wf c" and "cache_valid c" and "op_named op"
  shows "cache_valid (run_cache_op m op c)"
proof (cases op)
  case (CReserve i f)
  then show ?thesis using assms fresh_push [OF assms(1)]
    by (auto simp: reserve_client_request_id_def intro!: push_valid split: option.splits)
next
  case (CApply i f)
  show ?thesis
  proof (cases "fmlookup (cr_entries c) i")
    case None
    have "cache_valid (push_entry m i \<lparr>cc_request_fingerprint = f, cc_applied = True, cc_response = None\<rparr> c)"
      using assms(2,3) CApply fresh_push [OF assms(1) None] by (intro push_valid) simp_all
    then show ?thesis using CApply None by (simp add: begin_client_request_apply_def)
  next
    case (Some e)
    then show ?thesis using CApply assms(2,3) by (simp add: begin_client_request_apply_def cache_valid_def)
  qed
next
  case (CRemember i f r)
  obtain c' where c': "remember_client_response m i f r c = push_entry m i
      \<lparr>cc_request_fingerprint = f, cc_applied = True, cc_response = Some r\<rparr> c'"
    "distinct (cr_order c')" "set (cr_order c') = fset (fmdom (cr_entries c')) - {i}" "cr_entries c' = cr_entries c"
    by (rule remember_push [OF assms(1)])
  have "cache_valid c'" using assms(2) unfolding cache_valid_def c'(4) .
  from push_valid [OF c'(2,3) this] assms(3) show ?thesis unfolding CRemember run_cache_op.simps c'(1) by simp
next
  case (CObserve r)
  show ?thesis
  proof (cases "fmlookup (cr_entries c) (correlation_uuid r)")
    case None
    then show ?thesis using CObserve assms(2) by (simp add: observe_client_response_cache_def)
  next
    case (Some e)
    then show ?thesis using CObserve assms(2) by (simp add: observe_client_response_cache_def cache_valid_def Let_def)
  qed
next
  case (CRelease ids)
  have "cache_valid (release_unapplied_client_request_identities ids c)"
    unfolding release_unapplied_client_request_identities_def using assms(2)
    by (induction ids arbitrary: c) (simp_all add: release_valid case_prod_beta)
  then show ?thesis using CRelease by simp
next
  case (CRestore es)
  show ?thesis
  proof (cases "validate_snapshot_client_response_entries es")
    case (Inl err)
    then show ?thesis using CRestore assms(2) by (simp add: restore_client_response_cache_def)
  next
    case (Inr g)
    then have r: "restore_client_response_cache m es c = (run_cache_op m op c, Inr ())"
      using CRestore by (simp add: restore_client_response_cache_def)
    show ?thesis
      using restore_facts(1) [OF r] validated_entries [OF Inr [unfolded validate_snapshot_client_response_entries_def]]
      unfolding cache_valid_def by fastforce
  qed
qed

lemma run_cache_valid:
  "cache_wf c \<Longrightarrow> cache_valid c \<Longrightarrow> list_all op_named ops \<Longrightarrow> cache_valid (run_cache m ops c)"
  unfolding run_cache_def by (induction ops arbitrary: c) (simp_all add: run_cache_op_wf run_cache_op_valid)

definition applied_ids :: "client_response_cache \<Rightarrow> string list" where
  "applied_ids c = filter (\<lambda>i. \<exists>e. fmlookup (cr_entries c) i = Some e \<and> cc_applied e) (cr_order c)"

definition snapshot_entry_of :: "client_response_cache \<Rightarrow> string \<Rightarrow> client_response_snapshot_entry" where
  "snapshot_entry_of c i =
     \<lparr>ce_request_id = i, ce_request_fingerprint = cc_request_fingerprint (the (fmlookup (cr_entries c) i)),
      ce_response = cc_response (the (fmlookup (cr_entries c) i))\<rparr>"

lemma map_filter_as_map:
  assumes "\<And>x. g x = (if P x then Some (h x) else None)"
  shows "List.map_filter g xs = map h (filter P xs)"
  by (induction xs) (simp_all add: map_filter_simps assms)

lemma snapshot_entries_map: "client_response_snapshot_entries c = map (snapshot_entry_of c) (applied_ids c)"
  unfolding client_response_snapshot_entries_def applied_ids_def
  by (rule map_filter_as_map) (auto simp: snapshot_entry_of_def split: option.splits)

lemma validate_snapshot_entries:
  assumes "cache_valid c" and "distinct is" and "\<forall>i \<in> set is. fmlookup (cr_entries c) i \<noteq> None \<and> i |\<notin>| fmdom fps"
  shows "\<exists>g. validate_responses_loop (map (snapshot_entry_of c) is) fps = Inr g"
  using assms(2,3)
proof (induction "is" arbitrary: fps)
  case (Cons i "is")
  then obtain e where e: "fmlookup (cr_entries c) i = Some e" by auto
  have v: "i \<noteq> []" "cc_request_fingerprint e \<noteq> []" "\<forall>r. cc_response e = Some r \<longrightarrow> correlation_uuid r = i"
    using assms(1) e by (auto simp: cache_valid_def)
  have "\<exists>g. validate_responses_loop (map (snapshot_entry_of c) is) (fmupd i (cc_request_fingerprint e) fps) = Inr g"
    using Cons.prems by (intro Cons.IH) auto
  moreover have "ce_request_id (snapshot_entry_of c i) = i" "ce_request_fingerprint (snapshot_entry_of c i) = cc_request_fingerprint e"
    "ce_response (snapshot_entry_of c i) = cc_response e"
    using e by (simp_all add: snapshot_entry_of_def)
  ultimately show ?case using Cons.prems v by (auto split: option.splits)
qed simp

lemma push_room:
  assumes "i |\<notin>| fmdom (cr_entries c)" and "Suc (hm_len (cr_entries c)) \<le> max m 1"
  shows "push_entry m i e c = c\<lparr>cr_order := cr_order c @ [i], cr_entries := fmupd i e (cr_entries c)\<rparr>"
  unfolding push_entry_def using assms by (subst trim_client_response_cache.simps) (simp add: hm_len_upd)

lemma restore_room:
  assumes "distinct is" and "\<forall>i \<in> set is. i |\<notin>| fmdom (cr_entries d)" and "hm_len (cr_entries d) + length is \<le> max m 1"
  shows "cr_order (fold (restore_entry m) (map (snapshot_entry_of c) is) d) = cr_order d @ is"
    and "fmlookup (cr_entries (fold (restore_entry m) (map (snapshot_entry_of c) is) d)) j =
      (if j \<in> set is then Some \<lparr>cc_request_fingerprint = ce_request_fingerprint (snapshot_entry_of c j), cc_applied = True,
         cc_response = ce_response (snapshot_entry_of c j)\<rparr> else fmlookup (cr_entries d) j)"
proof -
  have "cr_order (fold (restore_entry m) (map (snapshot_entry_of c) is) d) = cr_order d @ is \<and>
    fmlookup (cr_entries (fold (restore_entry m) (map (snapshot_entry_of c) is) d)) j =
      (if j \<in> set is then Some \<lparr>cc_request_fingerprint = ce_request_fingerprint (snapshot_entry_of c j), cc_applied = True,
         cc_response = ce_response (snapshot_entry_of c j)\<rparr> else fmlookup (cr_entries d) j)"
    using assms
  proof (induction "is" arbitrary: d)
    case (Cons i "is")
    let ?e = "\<lparr>cc_request_fingerprint = ce_request_fingerprint (snapshot_entry_of c i), cc_applied = True,
         cc_response = ce_response (snapshot_entry_of c i)\<rparr>"
    let ?d = "d\<lparr>cr_order := cr_order d @ [i], cr_entries := fmupd i ?e (cr_entries d)\<rparr>"
    have r: "restore_entry m (snapshot_entry_of c i) d = ?d"
      using push_room [of i d m ?e] Cons.prems by (simp add: restore_entry_def snapshot_entry_of_def)
    have l: "hm_len (cr_entries ?d) = Suc (hm_len (cr_entries d))" using Cons.prems(2) by (simp add: hm_len_upd)
    have "hm_len (cr_entries ?d) + length is \<le> max m 1" "\<forall>i \<in> set is. i |\<notin>| fmdom (cr_entries ?d)" "distinct is"
      using Cons.prems l by auto
    note ih = Cons.IH [OF this(3,2,1)]
    have j: "fmlookup (cr_entries ?d) j = (if j = i then Some ?e else fmlookup (cr_entries d) j)" by simp
    show ?case unfolding list.map fold_simps r using ih Cons.prems(1) j by auto
  qed simp
  then show "cr_order (fold (restore_entry m) (map (snapshot_entry_of c) is) d) = cr_order d @ is"
    and "fmlookup (cr_entries (fold (restore_entry m) (map (snapshot_entry_of c) is) d)) j =
      (if j \<in> set is then Some \<lparr>cc_request_fingerprint = ce_request_fingerprint (snapshot_entry_of c j), cc_applied = True,
         cc_response = ce_response (snapshot_entry_of c j)\<rparr> else fmlookup (cr_entries d) j)"
    by blast+
qed

lemma applied_ids_room:
  assumes "cache_wf c"
  shows "distinct (applied_ids c)" and "length (applied_ids c) \<le> hm_len (cr_entries c)"
    and "i \<in> set (applied_ids c) \<longleftrightarrow> (\<exists>e. fmlookup (cr_entries c) i = Some e \<and> cc_applied e)"
proof -
  show d: "distinct (applied_ids c)" using assms by (simp add: cache_wf_def applied_ids_def)
  have "length (applied_ids c) \<le> length (cr_order c)" by (simp add: applied_ids_def)
  also have "\<dots> = hm_len (cr_entries c)"
    using assms distinct_card [of "cr_order c"] by (simp add: cache_wf_def hm_len_def fcard.rep_eq)
  finally show "length (applied_ids c) \<le> hm_len (cr_entries c)" .
  show "i \<in> set (applied_ids c) \<longleftrightarrow> (\<exists>e. fmlookup (cr_entries c) i = Some e \<and> cc_applied e)"
  proof -
    have "i \<in> set (cr_order c) \<longleftrightarrow> (\<exists>e. fmlookup (cr_entries c) i = Some e)"
      using assms fmlookup_dom_iff [of i "cr_entries c"] by (simp add: cache_wf_def)
    then show ?thesis by (auto simp: applied_ids_def)
  qed
qed

lemma restore_snapshot_ok:
  assumes "cache_wf c" and "cache_valid c"
  obtains c' where "restore_client_response_cache m (client_response_snapshot_entries c) d = (c', Inr ())"
    "c' = fold (restore_entry m) (map (snapshot_entry_of c) (applied_ids c)) \<lparr>cr_entries = fmempty, cr_order = []\<rparr>"
proof -
  have "\<exists>g. validate_responses_loop (map (snapshot_entry_of c) (applied_ids c)) fmempty = Inr g"
    using applied_ids_room [OF assms(1)] by (intro validate_snapshot_entries [OF assms(2)]) auto
  then show ?thesis
    by (intro that)
      (auto simp: restore_client_response_cache_def validate_snapshot_client_response_entries_def snapshot_entries_map)
qed

text \<open>A cache over the limit loses completed requests in the restore, nothing else.\<close>

lemma restore_snapshot_entries:
  assumes "cache_wf c" and "restore_client_response_cache m (client_response_snapshot_entries c) d = (c', Inr ())"
  shows "fmlookup (cr_entries c') i = Some e \<Longrightarrow> fmlookup (cr_entries c) i = Some e \<and> cc_applied e"
    and "fmlookup (cr_entries c) i = Some e \<Longrightarrow> cc_applied e \<Longrightarrow> cc_response e = None \<Longrightarrow>
      fmlookup (cr_entries c') i = Some e"
proof -
  note a = applied_ids_room(3) [OF assms(1)] and r = restore_facts [OF assms(2) [unfolded snapshot_entries_map]]
  have e: "restored (snapshot_entry_of c i) = e" if "fmlookup (cr_entries c) i = Some e" "cc_applied e" for i e
    using that by (simp add: snapshot_entry_of_def)
  show "fmlookup (cr_entries c) i = Some e \<and> cc_applied e" if "fmlookup (cr_entries c') i = Some e"
    using r(1) [OF that] a by (auto simp: snapshot_entry_of_def)
  show "fmlookup (cr_entries c') i = Some e"
    if "fmlookup (cr_entries c) i = Some e" "cc_applied e" "cc_response e = None"
  proof -
    have "snapshot_entry_of c i \<in> set (map (snapshot_entry_of c) (applied_ids c))" using a [of i] that by auto
    moreover have "ce_response (snapshot_entry_of c i) = None" "ce_request_id (snapshot_entry_of c i) = i"
      using that by (simp_all add: snapshot_entry_of_def)
    ultimately show ?thesis using r(2) [of "snapshot_entry_of c i"] e [OF that(1,2)] by simp
  qed
qed

lemma restore_snapshot_within:
  assumes "cache_wf c" and "restore_client_response_cache m (client_response_snapshot_entries c) d = (c', Inr ())"
    and "cache_valid c" and "hm_len (cr_entries c) \<le> max m 1"
  shows "cr_order c' = applied_ids c"
    and "fmlookup (cr_entries c') i = (case fmlookup (cr_entries c) i of
        Some e \<Rightarrow> if cc_applied e then Some e else None | None \<Rightarrow> None)"
proof -
  note a = applied_ids_room [OF assms(1)]
  let ?z = "\<lparr>cr_entries = fmempty, cr_order = []\<rparr>"
  have c': "c' = fold (restore_entry m) (map (snapshot_entry_of c) (applied_ids c)) ?z"
    using restore_snapshot_ok [OF assms(1,3)] assms(2) by (metis prod.inject)
  have "hm_len (cr_entries ?z) + length (applied_ids c) \<le> max m 1" using a(2) assms(4) by simp
  note f = restore_room [OF a(1) _ this]
  show "cr_order c' = applied_ids c" unfolding c' by (subst f(1)) simp_all
  show "fmlookup (cr_entries c') i =
      (case fmlookup (cr_entries c) i of Some e \<Rightarrow> if cc_applied e then Some e else None | None \<Rightarrow> None)"
    unfolding c' using a(3) [of i] by (subst f(2)) (auto simp: snapshot_entry_of_def split: option.splits)
qed

end
