(* ===== verification/Raft_Commit_Slots.thy ===== *)
theory Raft_Commit_Slots
  imports Raft_Log Raft_Grants
begin

text \<open>
  The file of commit slots of \<open>src/broker_raft.rs\<close>.  A commit in an unchanged term is not worth
  rewriting the hard-state file: it overwrites one of two fixed slots of a side file, in turn, with
  a record that carries a generation and a checksum.  After a crash the slots are read back; what
  does not parse, has a wrong checksum or comes from a later term than the hard state is ignored.

  The serialiser and the hash are the parameter \<open>C\<close>, the contents of the file a byte string.
\<close>

section \<open>The operations\<close>

definition HARD_STATE_COMMIT_SLOT_BYTES :: nat where
  "HARD_STATE_COMMIT_SLOT_BYTES = 512"

definition HARD_STATE_COMMIT_SLOTS :: u64 where
  "HARD_STATE_COMMIT_SLOTS = 2"

definition HARD_STATE_COMMIT_FILE_BYTES :: nat where
  "HARD_STATE_COMMIT_FILE_BYTES = HARD_STATE_COMMIT_SLOT_BYTES * unat HARD_STATE_COMMIT_SLOTS"

record commit_slot =
  cs_generation :: u64
  cs_current_term :: u64
  cs_commit_index :: u64
  cs_checksum :: string

record slot_codec =
  sc_sha256_hex :: "string \<Rightarrow> string"
  sc_to_vec :: "commit_slot \<Rightarrow> string"
  sc_from_slice :: "string \<Rightarrow> commit_slot option"

fun decimal :: "nat \<Rightarrow> string" where
  "decimal n = (if n < 10 then [char_of (48 + n)] else decimal (n div 10) @ [char_of (48 + n mod 10)])"

declare decimal.simps [simp del]

definition hard_state_commit_checksum :: "slot_codec \<Rightarrow> u64 \<Rightarrow> u64 \<Rightarrow> u64 \<Rightarrow> string" where
  "hard_state_commit_checksum C generation current_term commit_index =
     sc_sha256_hex C (decimal (unat generation) @ '':'' @ decimal (unat current_term) @ '':'' @ decimal (unat commit_index))"

definition hard_state_commit_slot_offset :: "u64 \<Rightarrow> nat" where
  "hard_state_commit_slot_offset generation =
     unat (saturating_sub generation 1 mod HARD_STATE_COMMIT_SLOTS) * HARD_STATE_COMMIT_SLOT_BYTES"

definition hard_state_commit_slot_record :: "slot_codec \<Rightarrow> u64 \<Rightarrow> u64 \<Rightarrow> u64 \<Rightarrow> commit_slot" where
  "hard_state_commit_slot_record C generation current_term commit_index =
     \<lparr>cs_generation = generation, cs_current_term = current_term, cs_commit_index = commit_index,
      cs_checksum = hard_state_commit_checksum C generation current_term commit_index\<rparr>"

datatype slot_error = SlotGenerationZero | SlotChecksum | SlotTooLong nat

definition validate_hard_state_commit_slot :: "slot_codec \<Rightarrow> commit_slot \<Rightarrow> slot_error + commit_slot" where
  "validate_hard_state_commit_slot C s =
     (if cs_generation s = 0 then Inl SlotGenerationZero
      else if cs_checksum s \<noteq> hard_state_commit_checksum C (cs_generation s) (cs_current_term s) (cs_commit_index s)
      then Inl SlotChecksum
      else Inr s)"

text \<open>\<open>u8::is_ascii_whitespace\<close> or a zero byte.\<close>

definition is_padding :: "char \<Rightarrow> bool" where
  "is_padding c \<longleftrightarrow> (let n = (of_char c :: int) in n = 32 \<or> n = 9 \<or> n = 10 \<or> n = 12 \<or> n = 13 \<or> n = 0)"

definition trim_hard_state_commit_slot_bytes :: "string \<Rightarrow> string" where
  "trim_hard_state_commit_slot_bytes bs = rev (dropWhile is_padding (rev (dropWhile is_padding bs)))"

definition slot_bytes :: "string \<Rightarrow> nat \<Rightarrow> string" where
  "slot_bytes bytes slot_id = take HARD_STATE_COMMIT_SLOT_BYTES (drop (slot_id * HARD_STATE_COMMIT_SLOT_BYTES) bytes)"

text \<open>The record of a slot, or \<open>None\<close> if the slot is empty or ignored.\<close>

definition read_slot :: "slot_codec \<Rightarrow> u64 \<Rightarrow> string \<Rightarrow> commit_slot option" where
  "read_slot C max_current_term bytes =
     (let raw = trim_hard_state_commit_slot_bytes bytes in
      if raw = [] then None
      else case sc_from_slice C raw of
        None \<Rightarrow> None
      | Some s \<Rightarrow>
          (case validate_hard_state_commit_slot C s of
             Inl _ \<Rightarrow> None
           | Inr s \<Rightarrow> if max_current_term < cs_current_term s then None else Some s))"

fun best_slot :: "commit_slot option \<Rightarrow> commit_slot list \<Rightarrow> commit_slot option" where
  "best_slot best [] = best"
| "best_slot best (s # ss) =
     (case best of
        Some current \<Rightarrow> if cs_commit_index s < cs_commit_index current then best_slot best ss else best_slot (Some s) ss
      | None \<Rightarrow> best_slot (Some s) ss)"

definition read_hard_state_commit_slots ::
  "slot_codec \<Rightarrow> u64 \<Rightarrow> string option \<Rightarrow> commit_slot option \<times> u64" where
  "read_hard_state_commit_slots C max_current_term contents =
     (case contents of
        None \<Rightarrow> (None, 0)
      | Some f \<Rightarrow>
          (let bytes = take HARD_STATE_COMMIT_FILE_BYTES f;
               slots = List.map_filter (\<lambda>slot_id. read_slot C max_current_term (slot_bytes bytes slot_id))
                         [0..<unat HARD_STATE_COMMIT_SLOTS];
               best = best_slot None (sort_key cs_generation slots)
           in (best, case best of Some s \<Rightarrow> cs_generation s | None \<Rightarrow> 0)))"

definition read_hard_state_with_commit_slots ::
  "slot_codec \<Rightarrow> raft_hard_state \<Rightarrow> string option \<Rightarrow> raft_hard_state \<times> u64" where
  "read_hard_state_with_commit_slots C hard contents =
     (let (slot, generation) = read_hard_state_commit_slots C (hs_current_term hard) contents in
      (case slot of
         Some s \<Rightarrow> hard\<lparr>hs_commit_index := max (hs_commit_index hard) (cs_commit_index s)\<rparr>
       | None \<Rightarrow> hard, generation))"

text \<open>\<open>File::set_len\<close> and writing at a position, with the zero bytes a file is extended by.\<close>

definition set_len :: "nat \<Rightarrow> string \<Rightarrow> string" where
  "set_len n f = take n f @ replicate (n - length f) (CHR 0x00)"

definition write_at :: "nat \<Rightarrow> string \<Rightarrow> string \<Rightarrow> string" where
  "write_at pos body f = set_len pos f @ body @ drop (pos + length body) f"

definition slot_body :: "slot_codec \<Rightarrow> commit_slot \<Rightarrow> slot_error + string" where
  "slot_body C s =
     (let body = sc_to_vec C s @ [CHR 0x0A] in
      if HARD_STATE_COMMIT_SLOT_BYTES < length body then Inl (SlotTooLong (length body))
      else Inr (body @ replicate (HARD_STATE_COMMIT_SLOT_BYTES - length body) (CHR '' '')))"

text \<open>\<open>cached\<close>: the file is already open, so its length is not adjusted.\<close>

definition write_hard_state_commit_slot_with_cache ::
  "slot_codec \<Rightarrow> bool \<Rightarrow> u64 \<Rightarrow> u64 \<Rightarrow> u64 \<Rightarrow> string \<Rightarrow> slot_error + string" where
  "write_hard_state_commit_slot_with_cache C cached generation current_term commit_index f =
     (if generation = 0 then Inl SlotGenerationZero
      else case slot_body C (hard_state_commit_slot_record C generation current_term commit_index) of
        Inl e \<Rightarrow> Inl e
      | Inr body \<Rightarrow>
          (let f = (if cached then f else set_len HARD_STATE_COMMIT_FILE_BYTES f) in
           Inr (write_at (hard_state_commit_slot_offset generation) body f)))"

section \<open>The layout of the file\<close>

definition slot_position :: "u64 \<Rightarrow> nat" where
  "slot_position g = unat (saturating_sub g 1 mod HARD_STATE_COMMIT_SLOTS)"

lemmas slot_sizes = HARD_STATE_COMMIT_SLOT_BYTES_def HARD_STATE_COMMIT_FILE_BYTES_def HARD_STATE_COMMIT_SLOTS_def

lemma slot_position_less: "slot_position g < 2"
proof -
  have "saturating_sub g 1 mod 2 < (2 :: u64)" by (rule word_mod_less_divisor) simp
  then show ?thesis by (simp add: slot_position_def slot_sizes word_less_nat_alt)
qed

lemma slot_position_cases: "slot_position g = 0 \<or> slot_position g = 1"
  using slot_position_less [of g] by linarith

lemma slot_position_mod: "g \<noteq> 0 \<Longrightarrow> slot_position g = (unat g - 1) mod 2"
  by (simp add: slot_position_def slot_sizes saturating_sub_def unat_mod unat_sub_if' word_one_le word_neq_0_conv word_less_nat_alt)

lemma slot_position_next:
  assumes "g \<noteq> 0" and "g \<noteq> - 1"
  shows "slot_position (g + 1) = 1 - slot_position g"
proof -
  have u: "unat (g + 1) = Suc (unat g)" using assms(2) by (metis unatSuc word_succ_p1 add.commute add.right_inverse eq_neg_iff_add_eq_0)
  then have n: "g + 1 \<noteq> 0" by auto
  have "0 < unat g" using assms(1) by (simp add: unat_gt_0)
  then show ?thesis unfolding slot_position_mod [OF assms(1)] slot_position_mod [OF n] u by (cases "unat g") (auto, presburger)
qed

lemma length_set_len [simp]: "length (set_len n f) = n"
  by (simp add: set_len_def)

lemma set_len_id [simp]: "length f = n \<Longrightarrow> set_len n f = f"
  by (simp add: set_len_def)

lemma slot_body_length: "slot_body C s = Inr body \<Longrightarrow> length body = 512"
  by (auto simp: slot_body_def slot_sizes Let_def split: if_splits)

lemma write_layout:
  assumes "length f = 1024" and "write_hard_state_commit_slot_with_cache C cached g t c f = Inr f'"
  shows "length f' = 1024" and "slot_bytes f' (1 - slot_position g) = slot_bytes f (1 - slot_position g)"
    and "\<exists>body. slot_body C (hard_state_commit_slot_record C g t c) = Inr body \<and> slot_bytes f' (slot_position g) = body"
proof -
  obtain body where b: "slot_body C (hard_state_commit_slot_record C g t c) = Inr body"
    and f': "f' = write_at (slot_position g * 512) body f"
    using assms by (auto simp: write_hard_state_commit_slot_with_cache_def hard_state_commit_slot_offset_def
        slot_position_def slot_sizes split: if_splits sum.splits)
  have l: "length body = 512" by (rule slot_body_length [OF b])
  have w: "f' = take (slot_position g * 512) f @ body @ drop (slot_position g * 512 + 512) f"
    using slot_position_cases [of g] assms(1) by (auto simp: f' write_at_def set_len_def l)
  show "length f' = 1024" using slot_position_cases [of g] assms(1) l by (auto simp: w)
  show "slot_bytes f' (1 - slot_position g) = slot_bytes f (1 - slot_position g)"
    using slot_position_cases [of g] assms(1) l by (auto simp: w slot_bytes_def slot_sizes)
  show "\<exists>body. slot_body C (hard_state_commit_slot_record C g t c) = Inr body \<and> slot_bytes f' (slot_position g) = body"
    using slot_position_cases [of g] assms(1) l b by (auto simp: w slot_bytes_def slot_sizes)
qed

section \<open>What the serialiser promises\<close>

text \<open>
  Records are read back as they were written, take less than a slot, and their first and last
  bytes are not blank (they are braces).
\<close>

definition codec_ok :: "slot_codec \<Rightarrow> bool" where
  "codec_ok C \<longleftrightarrow> (\<forall>g t c. let s = hard_state_commit_slot_record C g t c; v = sc_to_vec C s in
     sc_from_slice C v = Some s \<and> v \<noteq> [] \<and> \<not> is_padding (hd v) \<and> \<not> is_padding (last v) \<and>
     length v < HARD_STATE_COMMIT_SLOT_BYTES)"

text \<open>A slot before the filter on terms.\<close>

definition valid_slot :: "slot_codec \<Rightarrow> string \<Rightarrow> commit_slot option" where
  "valid_slot C bytes =
     (let raw = trim_hard_state_commit_slot_bytes bytes in
      if raw = [] then None
      else case sc_from_slice C raw of
        None \<Rightarrow> None
      | Some s \<Rightarrow> (case validate_hard_state_commit_slot C s of Inl _ \<Rightarrow> None | Inr s \<Rightarrow> Some s))"

lemma read_slot_valid: "read_slot C t bytes = (case valid_slot C bytes of
    None \<Rightarrow> None | Some s \<Rightarrow> if t < cs_current_term s then None else Some s)"
  by (auto simp: read_slot_def valid_slot_def Let_def split: option.splits sum.splits)

locale slot_format =
  fixes C :: slot_codec
  assumes ok: "codec_ok C"
begin

lemma record_body:
  assumes "slot_body C (hard_state_commit_slot_record C g t c) = Inr body" and "g \<noteq> 0"
  shows "valid_slot C body = Some (hard_state_commit_slot_record C g t c)"
proof -
  let ?s = "hard_state_commit_slot_record C g t c"
  let ?v = "sc_to_vec C ?s"
  have v: "sc_from_slice C ?v = Some ?s" "?v \<noteq> []" "\<not> is_padding (hd ?v)" "\<not> is_padding (last ?v)"
    using ok by (auto simp: codec_ok_def Let_def)
  obtain pad where b: "body = ?v @ pad" and pad: "\<forall>x \<in> set pad. is_padding x"
    using assms(1) by (auto simp: slot_body_def Let_def is_padding_def split: if_splits)
  have "dropWhile is_padding body = body" using v(2,3) by (cases ?v) (simp_all add: b)
  moreover have "dropWhile is_padding (rev body) = rev ?v"
  proof -
    have "dropWhile is_padding (rev pad @ rev ?v) = dropWhile is_padding (rev ?v)"
      using pad by (simp add: dropWhile_append)
    also have "\<dots> = rev ?v" using v(2,4) by (cases "rev ?v") (auto simp: last_rev hd_rev [symmetric])
    finally show ?thesis by (simp add: b)
  qed
  ultimately have "trim_hard_state_commit_slot_bytes body = ?v" by (simp add: trim_hard_state_commit_slot_bytes_def)
  with v assms(2) show ?thesis
    by (simp add: valid_slot_def validate_hard_state_commit_slot_def hard_state_commit_slot_record_def)
qed

end

section \<open>Recovery\<close>

text \<open>
  The file holds generation \<open>g\<close> with commit index \<open>c\<close>: that slot is valid, and the other one is
  invalid or older.
\<close>

definition slots_inv :: "slot_codec \<Rightarrow> u64 \<Rightarrow> string \<Rightarrow> u64 \<Rightarrow> u64 \<Rightarrow> bool" where
  "slots_inv C t f g c \<longleftrightarrow> length f = 1024 \<and>
     (\<forall>p s. p < 2 \<longrightarrow> valid_slot C (slot_bytes f p) = Some s \<longrightarrow> cs_current_term s \<le> t) \<and>
     (if g = 0 then c = 0 \<and> (\<forall>p < 2. valid_slot C (slot_bytes f p) = None)
      else (\<exists>s. valid_slot C (slot_bytes f (slot_position g)) = Some s \<and> cs_generation s = g \<and> cs_commit_index s = c) \<and>
        (\<forall>s. valid_slot C (slot_bytes f (1 - slot_position g)) = Some s \<longrightarrow> cs_generation s < g \<and> cs_commit_index s \<le> c))"

text \<open>What a write that was cut short may leave: the other slot untouched, and in this one the
  old record, the new one or nothing that passes the checksum.\<close>

definition torn :: "slot_codec \<Rightarrow> string \<Rightarrow> u64 \<Rightarrow> u64 \<Rightarrow> u64 \<Rightarrow> string \<Rightarrow> bool" where
  "torn C f g t c f' \<longleftrightarrow> length f' = 1024 \<and> slot_bytes f' (1 - slot_position g) = slot_bytes f (1 - slot_position g) \<and>
     valid_slot C (slot_bytes f' (slot_position g)) \<in>
       {None, valid_slot C (slot_bytes f (slot_position g)), Some (hard_state_commit_slot_record C g t c)}"

definition recovered_commit :: "commit_slot option \<Rightarrow> u64" where
  "recovered_commit s = (case s of None \<Rightarrow> 0 | Some s \<Rightarrow> cs_commit_index s)"

lemma slots_recovered:
  assumes "slots_inv C t f g c"
  obtains s where "read_hard_state_commit_slots C t (Some f) = (s, g)" "recovered_commit s = c"
proof -
  have len: "take HARD_STATE_COMMIT_FILE_BYTES f = f" using assms by (simp add: slots_inv_def slot_sizes)
  have terms: "read_slot C t (slot_bytes f p) = valid_slot C (slot_bytes f p)" if "p < 2" for p
    using assms that by (force simp: slots_inv_def read_slot_valid not_less split: option.splits)
  have up: "[0..<unat HARD_STATE_COMMIT_SLOTS] = [0, 1]" by (simp add: slot_sizes upt_rec)
  define a b where "a = valid_slot C (slot_bytes f 0)" and "b = valid_slot C (slot_bytes f 1)"
  have slots: "List.map_filter (\<lambda>p. read_slot C t (slot_bytes f p)) [0..<unat HARD_STATE_COMMIT_SLOTS] =
      (case a of None \<Rightarrow> [] | Some x \<Rightarrow> [x]) @ (case b of None \<Rightarrow> [] | Some x \<Rightarrow> [x])"
    by (simp add: up map_filter_simps terms a_def b_def split: option.splits)
  note read = read_hard_state_commit_slots_def [of C t "Some f"]
  show ?thesis
  proof (cases "g = 0")
    case True
    then have "a = None" "b = None" "c = 0" using assms by (auto simp: slots_inv_def a_def b_def)
    then show ?thesis using True
      by (intro that [of None]) (simp_all add: read len slots Let_def recovered_commit_def)
  next
    case False
    then obtain s where s: "valid_slot C (slot_bytes f (slot_position g)) = Some s" "cs_generation s = g" "cs_commit_index s = c"
      using assms by (auto simp: slots_inv_def)
    have other: "cs_generation x < g \<and> cs_commit_index x \<le> c"
      if "valid_slot C (slot_bytes f (1 - slot_position g)) = Some x" for x
      using assms that False by (auto simp: slots_inv_def)
    have "best_slot None (sort_key cs_generation ((case a of None \<Rightarrow> [] | Some x \<Rightarrow> [x]) @ (case b of None \<Rightarrow> [] | Some x \<Rightarrow> [x]))) =
      Some s"
      using slot_position_cases [of g] s other
      by (auto simp: a_def b_def not_less not_le insort_key_def split: option.splits dest: other)
    then show ?thesis using s
      by (intro that [of "Some s"]) (simp_all add: read len slots Let_def recovered_commit_def)
  qed
qed

lemma fresh_slots: "slots_inv C t (set_len HARD_STATE_COMMIT_FILE_BYTES []) 0 0"
proof -
  have z: "\<forall>x \<in> set (slot_bytes (set_len HARD_STATE_COMMIT_FILE_BYTES []) p). is_padding x" for p
    by (auto simp: slot_bytes_def set_len_def is_padding_def dest!: in_set_takeD in_set_dropD)
  have "trim_hard_state_commit_slot_bytes bs = []" if "\<forall>x \<in> set bs. is_padding x" for bs
    using that by (auto simp: trim_hard_state_commit_slot_bytes_def dest: set_dropWhileD)
  then have "valid_slot C (slot_bytes (set_len HARD_STATE_COMMIT_FILE_BYTES []) p) = None" for p
    using z by (simp add: valid_slot_def)
  then show ?thesis by (simp add: slots_inv_def slot_sizes)
qed

context slot_format
begin

lemma next_slot:
  assumes "slots_inv C t f g c" and "g \<noteq> - 1" and "t \<le> t'" and "c \<le> c'"
    and "length f' = 1024" and "slot_bytes f' (1 - slot_position (g + 1)) = slot_bytes f (1 - slot_position (g + 1))"
    and "valid_slot C (slot_bytes f' (slot_position (g + 1))) = Some (hard_state_commit_slot_record C (g + 1) t' c')"
  shows "slots_inv C t' f' (g + 1) c'"
proof -
  have n: "g + 1 \<noteq> 0" using assms(2) by (metis eq_neg_iff_add_eq_0)
  have lt: "g < g + 1" using assms(2) by (metis word_less_succ word_order.not_eq_extremum)
  let ?q = "1 - slot_position (g + 1)"
  have q: "?q < 2" by simp
  have old: "cs_generation s < g + 1 \<and> cs_commit_index s \<le> c' \<and> cs_current_term s \<le> t'"
    if v: "valid_slot C (slot_bytes f ?q) = Some s" for s
  proof (cases "g = 0")
    case True
    then show ?thesis using assms(1) v q by (auto simp: slots_inv_def)
  next
    case False
    then have p: "?q = slot_position g" using slot_position_next [OF False assms(2)] slot_position_cases [of g] by auto
    then have "cs_generation s = g" "cs_commit_index s = c" using assms(1) v False by (auto simp: slots_inv_def)
    moreover have "cs_current_term s \<le> t" using assms(1) v q by (auto simp: slots_inv_def)
    ultimately show ?thesis using lt assms(3,4) by auto
  qed
  have "cs_current_term s \<le> t'" if "p < 2" "valid_slot C (slot_bytes f' p) = Some s" for p s
  proof (cases "p = slot_position (g + 1)")
    case True
    then show ?thesis using that(2) assms(7) by (auto simp: hard_state_commit_slot_record_def)
  next
    case False
    then have "p = ?q" using that(1) slot_position_cases [of "g + 1"] by auto
    then show ?thesis using that(2) assms(6) old by simp
  qed
  then show ?thesis using assms(5-7) old n
    by (auto simp: slots_inv_def hard_state_commit_slot_record_def)
qed

lemma write_keeps:
  assumes "slots_inv C t f g c" and "g \<noteq> - 1" and "t \<le> t'" and "c \<le> c'"
    and "write_hard_state_commit_slot_with_cache C cached (g + 1) t' c' f = Inr f'"
  shows "slots_inv C t' f' (g + 1) c'"
proof -
  have n: "g + 1 \<noteq> 0" using assms(2) by (metis eq_neg_iff_add_eq_0)
  have "length f = 1024" using assms(1) by (simp add: slots_inv_def)
  note w = write_layout [OF this assms(5)]
  show ?thesis using w record_body [OF _ n] by (intro next_slot [OF assms(1-4)]) auto
qed

lemma torn_keeps:
  assumes "slots_inv C t f g c" and "g \<noteq> - 1" and "t \<le> t'" and "c \<le> c'" and "torn C f (g + 1) t' c' f'"
  shows "slots_inv C t' f' g c \<or> slots_inv C t' f' (g + 1) c'"
proof -
  let ?p = "slot_position (g + 1)"
  have l: "length f' = 1024" "slot_bytes f' (1 - ?p) = slot_bytes f (1 - ?p)" using assms(5) by (simp_all add: torn_def)
  consider "valid_slot C (slot_bytes f' ?p) = Some (hard_state_commit_slot_record C (g + 1) t' c')"
    | "valid_slot C (slot_bytes f' ?p) = None \<or> valid_slot C (slot_bytes f' ?p) = valid_slot C (slot_bytes f ?p)"
    using assms(5) by (auto simp: torn_def)
  then show ?thesis
  proof cases
    case 1
    then show ?thesis using next_slot [OF assms(1-4) l] by simp
  next
    case 2
    have same: "valid_slot C (slot_bytes f' p) = None \<or> valid_slot C (slot_bytes f' p) = valid_slot C (slot_bytes f p)" if "p < 2" for p
    proof (cases "p = ?p")
      case False
      then have "p = 1 - ?p" using that slot_position_cases [of "g + 1"] by auto
      then show ?thesis using l(2) by simp
    qed (use 2 in simp)
    have terms: "cs_current_term s \<le> t'" if "p < 2" "valid_slot C (slot_bytes f' p) = Some s" for p s
      using same [OF that(1)] that assms(1,3) by (fastforce simp: slots_inv_def)
    show ?thesis
    proof (cases "g = 0")
      case True
      then have "valid_slot C (slot_bytes f' p) = None" if "p < 2" for p
        using same [OF that] assms(1) that by (auto simp: slots_inv_def)
      then show ?thesis using True l(1) assms(1) by (auto simp: slots_inv_def)
    next
      case False
      note nx = slot_position_next [OF False assms(2)]
      have q: "slot_position g = 1 - ?p" "?p = 1 - slot_position g" using nx slot_position_cases [of g] by auto
      have g: "\<exists>s. valid_slot C (slot_bytes f' (slot_position g)) = Some s \<and> cs_generation s = g \<and> cs_commit_index s = c"
        using assms(1) False l(2) q(1) by (auto simp: slots_inv_def)
      have "cs_generation s < g \<and> cs_commit_index s \<le> c" if "valid_slot C (slot_bytes f' (1 - slot_position g)) = Some s" for s
        using same [of "1 - slot_position g"] that assms(1) False by (auto simp: slots_inv_def)
      with g terms False l(1) show ?thesis by (auto simp: slots_inv_def)
    qed
  qed
qed

end

section \<open>Runs with crashes\<close>

inductive slot_run :: "slot_codec \<Rightarrow> u64 \<Rightarrow> string \<Rightarrow> u64 \<Rightarrow> u64 \<Rightarrow> bool" for C where
  created: "slot_run C t (set_len HARD_STATE_COMMIT_FILE_BYTES []) 0 0"
| committed: "slot_run C t f g c \<Longrightarrow> t \<le> t' \<Longrightarrow> c \<le> c' \<Longrightarrow> g \<noteq> - 1 \<Longrightarrow>
    write_hard_state_commit_slot_with_cache C cached (g + 1) t' c' f = Inr f' \<Longrightarrow> slot_run C t' f' (g + 1) c'"
| crashed: "slot_run C t f g c \<Longrightarrow> t \<le> t' \<Longrightarrow> c \<le> c' \<Longrightarrow> g \<noteq> - 1 \<Longrightarrow> torn C f (g + 1) t' c' f' \<Longrightarrow>
    read_hard_state_commit_slots C t' (Some f') = (s, g') \<Longrightarrow> slot_run C t' f' g' (recovered_commit s)"

context slot_format
begin

lemma slot_run_inv: "slot_run C t f g c \<Longrightarrow> slots_inv C t f g c"
proof (induction rule: slot_run.induct)
  case (created t)
  then show ?case by (rule fresh_slots)
next
  case (committed t f g c t' c' cached f')
  then show ?case using write_keeps by blast
next
  case (crashed t f g c t' c' f' s g')
  from torn_keeps [OF crashed.IH crashed.hyps(4,2,3,5)]
  obtain g'' c'' where "slots_inv C t' f' g'' c''" by blast
  moreover from this obtain x where "read_hard_state_commit_slots C t' (Some f') = (x, g'')" "recovered_commit x = c''"
    by (rule slots_recovered)
  ultimately show ?case using crashed.hyps(6) by simp
qed

lemma record_fits: "\<exists>body. slot_body C (hard_state_commit_slot_record C g t c) = Inr body"
proof -
  have "length (sc_to_vec C (hard_state_commit_slot_record C g t c)) < HARD_STATE_COMMIT_SLOT_BYTES"
    using ok by (simp add: codec_ok_def Let_def)
  then show ?thesis by (simp add: slot_body_def Let_def)
qed

end

section \<open>A codec of fixed width\<close>

text \<open>An instance of the contract: numbers as twenty digits between braces.\<close>

definition fixed_codec :: slot_codec where
  "fixed_codec =
     \<lparr>sc_sha256_hex = (\<lambda>s. take 64 (s @ replicate 64 (CHR ''0''))),
      sc_to_vec = (\<lambda>s. ''{'' @ decimal_digits 20 (unat (cs_generation s)) @ decimal_digits 20 (unat (cs_current_term s)) @
        decimal_digits 20 (unat (cs_commit_index s)) @ cs_checksum s @ ''}''),
      sc_from_slice = (\<lambda>v. if length v < 62 then None
        else Some \<lparr>cs_generation = of_nat (digits_value (take 20 (drop 1 v))),
          cs_current_term = of_nat (digits_value (take 20 (drop 21 v))),
          cs_commit_index = of_nat (digits_value (take 20 (drop 41 v))), cs_checksum = butlast (drop 61 v)\<rparr>)\<rparr>"

lemma length_decimal_digits [simp]: "length (decimal_digits w n) = w"
  by (induction w arbitrary: n) simp_all

lemma fixed_codec_ok: "codec_ok fixed_codec"
proof -
  have b: "digits_value (decimal_digits 20 (unat k)) = unat k" for k :: u64
  proof (rule decimal_digits_value)
    have "unat k < 2 ^ 64" using unsigned_less [of k] by simp
    then show "unat k < 10 ^ 20" by simp
  qed
  have pad: "\<not> is_padding (CHR ''{'')" "\<not> is_padding (CHR ''}'')" by (simp_all add: is_padding_def)
  show ?thesis
    unfolding codec_ok_def Let_def
    by (auto simp: fixed_codec_def hard_state_commit_slot_record_def hard_state_commit_checksum_def b slot_sizes pad butlast_append
        simp del: digits_value.simps)
qed

interpretation fixed: slot_format fixed_codec
  by unfold_locales (rule fixed_codec_ok)

end
