(* ===== verification/Raft_Durability.thy ===== *)
theory Raft_Durability
  imports Raft_Client_Cache Raft_Commit_Slots
begin

text \<open>The properties of the client-response cache and of the file of commit slots.\<close>

section \<open>Requests take effect once\<close>

text \<open>
  C33: a replicated request takes effect once.  After an entry with id \<open>i\<close> was admitted, every
  later entry with this id and request is refused until its response is recorded or a snapshot
  is restored that does not list it as applied and unanswered, whatever other requests are
  reserved, released, applied, answered and evicted meanwhile, and also after failed restores and
  restores of snapshots that do list it.
\<close>

theorem request_applied_once:
  assumes "begin_client_request_apply m i f (run_cache m before empty_cache) = (c, Inr True)"
    and "\<forall>op \<in> set after. \<not> completes i f op"
  shows "snd (begin_client_request_apply m i f (run_cache m after c)) = Inr False"
proof -
  let ?b = "run_cache m before empty_cache"
  have wf: "cache_wf ?b" by (rule run_cache_wf [OF empty_cache_wf])
  have "responses_applied ?b"
    by (rule run_cache_responses [OF empty_cache_wf]) (simp add: responses_applied_def empty_cache_def)
  moreover have "\<not> cc_applied e" if "fmlookup (cr_entries ?b) i = Some e" for e
    using assms(1) that by (auto simp: begin_client_request_apply_def split: if_splits)
  ultimately have "\<forall>e. fmlookup (cr_entries ?b) i = Some e \<longrightarrow> cc_response e = None"
    unfolding responses_applied_def by blast
  from apply_marks [OF wf assms(1) this] obtain e where
    e: "fmlookup (cr_entries c) i = Some e" "cc_request_fingerprint e = f" "cc_applied e" "cc_response e = None" by blast
  have "cache_wf c" using run_cache_op_wf [OF wf, of m "CApply i f"] assms(1) by simp
  from run_cache_pending [OF this e(1,3,4)] assms(2) e show ?thesis by (simp add: begin_client_request_apply_def)
qed

definition retry_run :: "cache_op list" where
  "retry_run = [CReserve ''b'' ''g'', CApply ''b'' ''g'', CObserve (RespOk ''b''), CApply ''a'' ''f'',
     CRestore [\<lparr>ce_request_id = ''a'', ce_request_fingerprint = ''f'', ce_response = None\<rparr>]]"

theorem request_applied_once_witness:
  "snd (begin_client_request_apply 1 ''a'' ''f''
     (run_cache 1 retry_run (fst (begin_client_request_apply 1 ''a'' ''f'' (run_cache 1 [CReserve ''a'' ''f''] empty_cache))))) =
   Inr False"
proof (rule request_applied_once)
  show "begin_client_request_apply 1 ''a'' ''f'' (run_cache 1 [CReserve ''a'' ''f''] empty_cache) =
    (fst (begin_client_request_apply 1 ''a'' ''f'' (run_cache 1 [CReserve ''a'' ''f''] empty_cache)), Inr True)"
    by code_simp
  show "\<forall>op \<in> set retry_run. \<not> completes ''a'' ''f'' op"
    by (simp add: retry_run_def split: sum.split)
qed

text \<open>
  C34: the cache survives a snapshot.  Take a cache reached by any run in which requests have
  non-empty ids and fingerprints and a response is remembered under its own id.  Restoring the
  entries that a snapshot takes from it succeeds and restores applied requests of the cache only,
  each with its fingerprint and response, among them all that have no response yet.  If the cache is
  within its limit, it restores all applied requests, in their order of eviction.
\<close>

theorem cache_snapshot_round_trip:
  assumes "list_all op_named ops" and "c = run_cache m ops empty_cache"
  shows "\<exists>c'. restore_client_response_cache m (client_response_snapshot_entries c) d = (c', Inr ()) \<and>
    (\<forall>i e. fmlookup (cr_entries c') i = Some e \<longrightarrow> fmlookup (cr_entries c) i = Some e \<and> cc_applied e) \<and>
    (\<forall>i e. fmlookup (cr_entries c) i = Some e \<and> cc_applied e \<and> cc_response e = None \<longrightarrow>
      fmlookup (cr_entries c') i = Some e) \<and>
    (hm_len (cr_entries c) \<le> max m 1 \<longrightarrow> cr_order c' = applied_ids c \<and>
      (\<forall>i. fmlookup (cr_entries c') i = (case fmlookup (cr_entries c) i of
        Some e \<Rightarrow> if cc_applied e then Some e else None | None \<Rightarrow> None)))"
proof -
  have wf: "cache_wf c" unfolding assms(2) by (rule run_cache_wf [OF empty_cache_wf])
  have v: "cache_valid c" unfolding assms(2)
    by (rule run_cache_valid [OF empty_cache_wf _ assms(1)]) (simp add: cache_valid_def empty_cache_def)
  obtain c' where c': "restore_client_response_cache m (client_response_snapshot_entries c) d = (c', Inr ())"
    by (rule restore_snapshot_ok [OF wf v])
  show ?thesis
    using c' restore_snapshot_entries [OF wf c'] restore_snapshot_within [OF wf c' v] by blast
qed

definition mixed_run :: "cache_op list" where
  "mixed_run = [CReserve ''a'' ''f'', CApply ''b'' ''g'', CApply ''c'' ''h'', CObserve (RespOk ''b'')]"

definition mixed_cache :: client_response_cache where
  "mixed_cache = run_cache 4 mixed_run empty_cache"

lemma mixed_cache_eq:
  "mixed_cache = \<lparr>cr_entries = fmap_of_list [(''a'', \<lparr>cc_request_fingerprint = ''f'', cc_applied = False, cc_response = None\<rparr>),
     (''b'', \<lparr>cc_request_fingerprint = ''g'', cc_applied = True, cc_response = Some (RespOk ''b'')\<rparr>),
     (''c'', \<lparr>cc_request_fingerprint = ''h'', cc_applied = True, cc_response = None\<rparr>)],
     cr_order = [''a'', ''c'', ''b'']\<rparr>"
  unfolding mixed_cache_def mixed_run_def by code_simp

theorem cache_snapshot_round_trip_witness:
  "\<exists>c'. restore_client_response_cache 4 (client_response_snapshot_entries mixed_cache) empty_cache = (c', Inr ()) \<and>
    cr_order c' = [''c'', ''b''] \<and> fmlookup (cr_entries c') ''a'' = None"
proof -
  have "list_all op_named mixed_run" by (simp add: mixed_run_def)
  moreover have "hm_len (cr_entries mixed_cache) \<le> max 4 1" unfolding mixed_cache_eq by code_simp
  moreover have "applied_ids mixed_cache = [''c'', ''b'']"
    by (simp add: applied_ids_def mixed_cache_eq fmlookup_of_list)
  moreover have "fmlookup (cr_entries mixed_cache) ''a'' =
    Some \<lparr>cc_request_fingerprint = ''f'', cc_applied = False, cc_response = None\<rparr>"
    by (simp add: mixed_cache_eq fmlookup_of_list)
  ultimately show ?thesis using cache_snapshot_round_trip [OF _ mixed_cache_def, of empty_cache] by auto
qed

section \<open>Commit slots survive crashes\<close>

text \<open>
  C32: a durable commit index is not lost.  After any sequence of slot writes, complete or cut
  short by a crash and recovered from, reading the file gives the last commit index and
  generation.  The next write succeeds and is read back; a crash during it leaves the old or the
  new commit index, never anything else.
\<close>

theorem commit_slots_crash_safe:
  assumes "codec_ok C" and "slot_run C t f g c" and "t \<le> t'" and "c \<le> c'" and "g \<noteq> - 1"
  shows "(\<exists>s. read_hard_state_commit_slots C t (Some f) = (s, g) \<and> recovered_commit s = c) \<and>
    (\<exists>f' s. write_hard_state_commit_slot_with_cache C cached (g + 1) t' c' f = Inr f' \<and>
      read_hard_state_commit_slots C t' (Some f') = (s, g + 1) \<and> recovered_commit s = c') \<and>
    (\<forall>f'. torn C f (g + 1) t' c' f' \<longrightarrow>
      recovered_commit (fst (read_hard_state_commit_slots C t' (Some f'))) \<in> {c, c'})"
proof (intro conjI allI impI)
  have fmt: "slot_format C" by unfold_locales (rule assms(1))
  note inv = slot_format.slot_run_inv [OF fmt assms(2)]
  show "\<exists>s. read_hard_state_commit_slots C t (Some f) = (s, g) \<and> recovered_commit s = c"
    by (rule slots_recovered [OF inv]) blast
  have "g + 1 \<noteq> 0" using assms(5) by (metis eq_neg_iff_add_eq_0)
  then obtain f' where w: "write_hard_state_commit_slot_with_cache C cached (g + 1) t' c' f = Inr f'"
    using slot_format.record_fits [OF fmt, of "g + 1" t' c']
    by (auto simp: write_hard_state_commit_slot_with_cache_def)
  from slot_format.write_keeps [OF fmt inv assms(5,3,4) w] have "slots_inv C t' f' (g + 1) c'" .
  then obtain s where "read_hard_state_commit_slots C t' (Some f') = (s, g + 1)" "recovered_commit s = c'"
    by (rule slots_recovered)
  with w show "\<exists>f' s. write_hard_state_commit_slot_with_cache C cached (g + 1) t' c' f = Inr f' \<and>
      read_hard_state_commit_slots C t' (Some f') = (s, g + 1) \<and> recovered_commit s = c'" by blast
  fix f'
  assume "torn C f (g + 1) t' c' f'"
  from slot_format.torn_keeps [OF fmt inv assms(5,3,4) this]
  show "recovered_commit (fst (read_hard_state_commit_slots C t' (Some f'))) \<in> {c, c'}"
    by (auto elim!: slots_recovered)
qed

theorem commit_slots_crash_safe_witness:
  "\<exists>f s. write_hard_state_commit_slot_with_cache fixed_codec False 1 3 7 (set_len HARD_STATE_COMMIT_FILE_BYTES []) = Inr f \<and>
    read_hard_state_commit_slots fixed_codec 3 (Some f) = (s, 1) \<and> recovered_commit s = 7"
  using commit_slots_crash_safe [OF fixed_codec_ok slot_run.created, of 0 3 7 False] by auto

end
