(* ===== verification/Spec2Isabelle.thy ===== *)
theory Spec2Isabelle
  imports Broker_Properties Snapshot_Properties Broker_Edge_Cases Raft_Properties Raft_Durability
begin

text \<open>
  A verification of \<open>live-mutex-rs\<close>, a network lock broker.  Clients ask a server for exclusive
  locks, semaphore-style locks (a key with a level above one), composite locks (several keys at
  once) and reader/writer locks, and receive a fencing token with every grant.  A single node
  runs the broker of \<open>src/broker.rs\<close>; a cluster replicates the requests through the Raft log of
  \<open>src/broker_raft.rs\<close> and feeds the committed ones to a broker on every node.

  \<^bold>\<open>The broker\<close> (\<open>src/protocol.rs\<close>, \<open>src/queue.rs\<close>, \<open>src/broker.rs\<close>).

  \<^item> \<open>Prelude\<close>: machine integers and durations, maps (\<open>HashMap\<close> and \<open>BTreeMap\<close> are finite maps,
    their sets finite sets) and the shared lemma collections.
  \<^item> \<open>Protocol\<close>: \<open>Request\<close> and \<open>Response\<close> with the source's fields, and \<open>correlation_uuid\<close>.
  \<^item> \<open>Queue\<close>: the adapter over the \<open>linked-queue\<close> crate.  The crate is not part of the sources; it
    is the parameter \<open>Q\<close> of every definition that uses a queue, with the laws of the adapter as the
    locales \<open>fifo_queue\<close>, \<open>linked_queue_crate\<close> and \<open>broker_queue\<close>, interpreted on the \<open>VecDeque\<close> of the
    adapter's oracle test.
  \<^item> \<open>Broker_State\<close>: \<open>LockState\<close>, \<open>BrokerState\<close>, \<open>BrokerConfig\<close> and their methods.  The host - clock,
    fresh UUIDs, the iteration order of hash maps, whether a client's channel takes a message - is
    the parameter \<open>E\<close>, with the laws the code relies on in \<open>hash_host\<close> and the locales above it.
  \<^item> \<open>Broker_Scheduler\<close>: \<open>try_grant_next\<close>, \<open>try_grant_once\<close>, \<open>try_grant_composite\<close>.  The mutual recursion
    runs on fuel; C4 shows that fuel linear in the outstanding grants is enough and that the
    result does not depend on it.
  \<^item> \<open>Broker_Handlers\<close>, \<open>Broker_Lifecycle\<close>: \<open>handle_request\<close> with a handler per request, clients that
    come and go, \<open>tick_ttl\<close>, metrics.
  \<^item> \<open>Broker_Snapshot\<close>: taking, validating and installing a snapshot of the broker.

  \<open>Broker_Invariants\<close>, \<open>Broker_Fencing\<close>, \<open>Broker_Behaviour\<close>, \<open>Broker_Reclaim\<close>, \<open>Broker_Outcomes\<close> and
  \<open>Broker_Restore\<close> hold the proofs.  The properties are in \<open>Broker_Properties\<close> (C1 to C15 and C17 to C21: mutual
  exclusion, no missed wake-up, increasing tokens, termination, absence of deadlock between
  composites, an answer to every request, and what each operation does) and in
  \<open>Snapshot_Properties\<close> (C22 to C25: validation decides a predicate, installing succeeds exactly on
  valid payloads, the round trip, token floors).  \<open>Broker_Samples\<close> has the runs the witnesses
  evaluate, \<open>Broker_Edge_Cases\<close> what the broker does contrary to its documentation: five runs, and
  \<open>endWrite\<close> of an unknown key.  The step relation \<open>reachable\<close> covers registering, requests, detaching,
  disconnects and the TTL tick from the initial state; installing a snapshot is not one of its
  steps, and the installed states are the subject of C23 to C25.

  \<^bold>\<open>Replication\<close> (\<open>src/broker_raft.rs\<close>).

  \<^item> \<open>Raft_Membership\<close>, \<open>Raft_Quorums\<close>, \<open>Raft_Selection\<close>: simple and joint configurations, the quorum
    tests, the smallest quorum, the choice of replication targets.  The locales \<open>quorum_pair\<close> and
    \<open>adjacent_memberships\<close> state what quorums promise; they are interpreted on the two steps of a
    membership change.
  \<^item> \<open>Raft_Validation\<close>, \<open>Raft_Voters\<close>: validation of node ids, addresses, voters, staged learners and
    joint configurations.  Strings are their UTF-8 bytes; the functions of \<open>str\<close> that the code
    uses are written out on them.
  \<^item> \<open>Raft_Commands\<close>, \<open>Raft_Grants\<close>: the replicated commands, what may be replicated, request ids,
    and grants fixed by the log index.  The fingerprint of a request, a SHA-256 of what
    \<open>serde_json\<close> writes, is the parameter \<open>fp\<close>, \<open>None\<close> where the serialiser fails.
  \<^item> \<open>Raft_Log\<close>, \<open>Raft_Log_Store\<close>, \<open>Raft_Log_Maintenance\<close>: \<open>RaftLogState\<close> with every operation that
    changes it: opening, appending a batch, appending for a leader with conflict repair, hard state
    and votes, compaction, snapshots, the refresh of the snapshot's request
    identities.  The disk is the parameter \<open>D\<close>: which writes succeed, how
    long a serialised entry is and what a re-read of the log returns.
  \<^item> \<open>Raft_Log_Facts\<close>, \<open>Raft_Log_Invariants\<close>, \<open>Raft_Replication\<close>, \<open>Raft_Agreement\<close>, \<open>Raft_Log_Steps\<close>,
    \<open>Raft_Log_Queries\<close>: the invariant \<open>log_ok\<close>, the locale \<open>consistent_log\<close> of its consequences,
    the step relation \<open>reachable_log\<close>.  \<open>Raft_Log_Bytes\<close> adds the byte cache, over runs whose disks
    agree on the length of an entry (\<open>reachable_sized\<close>).  \<open>Raft_Samples\<close> interprets the locale on a follower that was
    opened and filled by the operations themselves.
  \<^item> \<open>Raft_Client_Cache\<close>: the cache that makes a retried request take effect once, with its
    snapshot entries.
  \<^item> \<open>Raft_Commit_Slots\<close>: the side file with two slots for the commit index, on byte strings.  The
    serialiser and the hash are the parameter \<open>C\<close> with the contract \<open>codec_ok\<close>; the locale
    \<open>slot_format\<close> of its consequences is interpreted on a codec of fixed width.  A crash leaves in the
    slot being written the old record, the new one or nothing with a valid checksum.
  \<^item> \<open>Raft_Properties\<close> (C16, C26 to C31, C35 to C40) and \<open>Raft_Durability\<close> (C32 to C34).

  A follower skips entries that its snapshot covers without comparing their terms; \<open>fits_snapshot\<close>
  is the hypothesis that the leader agrees with the snapshot, which holds because a snapshot
  covers committed entries only.

  \<^bold>\<open>Bounds.\<close>  \<open>u32\<close> and \<open>u64\<close> are words with Rust's wrapping or saturating operations as written in
  the source; durations are integers in nanoseconds; \<open>usize\<close> is a natural number with the checks
  the code makes.

  \<^bold>\<open>Not modelled.\<close>  The asynchronous part of the Raft node (timers, RPC and HTTP transport,
  replication rounds, telemetry), the file formats of the log, the TCP and HTTP servers, the
  client libraries, configuration from the environment, metrics rendering, and the simulator and
  benchmarks: I/O around the parts above.
\<close>

end
